(* ===== verification/Prelude.thy ===== *)
theory Prelude
  imports Main "HOL-Library.Word" "HOL-Library.Char_ord" "HOL-Library.List_Lexorder"
begin

section \<open>Shared types, outcomes and list lemmas\<close>

text \<open>
  Vocabulary used by every component of the KeyTracker model: the machine integers of the C++
  code at their width, the exceptions the standard library raises on the code's paths, the ways a
  call can end, and generic lemmas about sorted lists and words.
\<close>

type_synonym ushort = "16 word"
type_synonym uint = "32 word"
type_synonym ulong = "64 word"

text \<open>\<open>size_t\<close> is 64 bits on the platform the Makefile builds for.\<close>

type_synonym size_type = "64 word"

text \<open>The exception classes raised on paths of the program.\<close>

datatype exn =
    Invalid_argument
  | Out_of_range
  | Logic_error
  | System_error
  | Filesystem_error
  | Bad_function_call
  | Boost_system_error

text \<open>
  How a call ends. \<open>Waits\<close> is a reader that stays in \<open>condition_variable::wait\<close>; \<open>Undefined\<close>
  is undefined behaviour of the C++ program (a dangling iterator, a freed pointer); \<open>Terminates\<close> is
  the end of the process by \<open>std::terminate\<close> or a failed \<open>assert\<close>.
\<close>

datatype 'a outcome =
    Returns 'a
  | Throws exn
  | Waits
  | Undefined
  | Terminates

named_theorems container_lems \<open>laws of the standard containers as the code uses them\<close>
named_theorems string_lems \<open>laws of the string operations\<close>
named_theorems machine_lems \<open>exact arithmetic on machine integers inside their range\<close>

subsection \<open>Words\<close>

lemma unat_inc [machine_lems]:
  fixes w :: "'a::len word"
  assumes "Suc (unat w) < 2 ^ LENGTH('a)"
  shows "unat (1 + w) = Suc (unat w)"
  using assms by (simp add: unat_word_ariths)

lemma unat_of_nat_small [machine_lems]:
  "n < 2 ^ LENGTH('a::len) \<Longrightarrow> unat (word_of_nat n :: 'a word) = n"
  by (simp add: unat_of_nat take_bit_nat_eq_self)

lemma word_le_unat: "(a :: 'a::len word) \<le> b \<longleftrightarrow> unat a \<le> unat b"
  by (rule word_le_nat_alt)

lemma word_less_unat: "(a :: 'a::len word) < b \<longleftrightarrow> unat a < unat b"
  by (rule word_less_nat_alt)

lemma unat_ucast_up [machine_lems]:
  "LENGTH('a::len) \<le> LENGTH('b::len) \<Longrightarrow> unat (ucast (w :: 'a word) :: 'b word) = unat w"
  by (simp add: unsigned_ucast_eq take_bit_nat_eq_self unsigned_less [THEN order.strict_trans2])

lemma no_wrap_iff: "w \<noteq> - 1 \<longleftrightarrow> Suc (unat w) < 2 ^ LENGTH('a)"
  for w :: "'a::len word"
proof -
  have max: "unat (- 1 :: 'a word) = 2 ^ LENGTH('a) - 1"
    by (simp add: unsigned_minus_1_eq_mask mask_eq_exp_minus_1)
  have "unat w < 2 ^ LENGTH('a)" by (rule unsigned_less)
  moreover have "w = - 1 \<longleftrightarrow> unat w = 2 ^ LENGTH('a) - 1" by (metis max unsigned_word_eqI)
  ultimately show ?thesis by linarith
qed

lemma unat_inc_no_wrap: "w \<noteq> - 1 \<Longrightarrow> unat (1 + w) = Suc (unat w)"
  for w :: "'a::len word"
  by (rule unat_inc) (simp add: no_wrap_iff)

lemma less_inc_no_wrap: "w \<noteq> - 1 \<Longrightarrow> w < 1 + w"
  for w :: "'a::len word"
  by (simp add: word_less_unat unat_inc_no_wrap)

subsection \<open>Sorted lists\<close>

lemma takeWhile_sorted_filter:
  "sorted (map f xs) \<Longrightarrow> takeWhile (\<lambda>x. f x < a) xs = filter (\<lambda>x. f x < a) xs"
  for a :: "'a::linorder"
proof (induction xs)
  case (Cons x xs)
  then show ?case
    by (auto simp: empty_filter_conv dest: order.strict_trans1)
qed simp

lemma takeWhile_le_sorted_filter:
  "sorted (map f xs) \<Longrightarrow> takeWhile (\<lambda>x. f x \<le> a) xs = filter (\<lambda>x. f x \<le> a) xs"
  for a :: "'a::linorder"
proof (induction xs)
  case (Cons x xs)
  then show ?case
    by (auto simp: empty_filter_conv dest: order.trans)
qed simp

lemma takeWhile_nth_not:
  "length (takeWhile P xs) < length xs \<Longrightarrow> \<not> P (xs ! length (takeWhile P xs))"
  by (rule nth_length_takeWhile)

lemma sorted_hd_le:
  "sorted (map f xs) \<Longrightarrow> x \<in> set xs \<Longrightarrow> f (xs ! 0) \<le> f x"
  for f :: "'b \<Rightarrow> 'a::linorder"
  by (cases xs) auto

lemma sorted_map_take: "sorted (map f xs) \<Longrightarrow> sorted (map f (take n xs))"
  by (metis sorted_wrt_take take_map)

lemma sorted_map_drop: "sorted (map f xs) \<Longrightarrow> sorted (map f (drop n xs))"
  by (metis drop_map sorted_wrt_drop)

lemma sorted_map_dropWhile: "sorted (map f xs) \<Longrightarrow> sorted (map f (dropWhile P xs))"
  by (metis dropWhile_eq_drop sorted_map_drop)

lemma sorted_take_le_drop:
  assumes "sorted (map f xs)" "x \<in> set (take n xs)" "y \<in> set (drop n xs)"
  shows "f x \<le> f y"
proof -
  have "sorted (map f (take n xs @ drop n xs))" using assms(1) by simp
  then show ?thesis using assms(2,3)
    unfolding map_append sorted_append by auto
qed

end
