(* ===== verification/StdString.thy ===== *)
theory StdString
  imports Prelude
begin

section \<open>The part of std::string, std::stoi and std::to_string the program uses\<close>

text \<open>
  A \<open>std::string\<close> (and a \<open>std::string_view\<close>) is a list of bytes, HOL's \<^typ>\<open>string\<close>. Positions are
  \<open>size_t\<close> values, so \<open>npos\<close> is the largest one and arithmetic on positions wraps around, as in the
  code that computes \<open>end - start\<close>. Operations that throw return a sum with the exception on the
  left. The numeric conversions follow \<open>strtol\<close> and \<open>strtoul\<close> in base 10: leading white space, one
  optional sign, then the longest run of digits; what follows it is ignored.
\<close>

subsection \<open>Searching\<close>

definition npos :: size_type where
  "npos = - 1"

definition size_of :: "string \<Rightarrow> size_type" where
  "size_of s = word_of_nat (length s)"

fun first_suffix :: "('a list \<Rightarrow> bool) \<Rightarrow> 'a list \<Rightarrow> nat option" where
  "first_suffix P [] = (if P [] then Some 0 else None)"
| "first_suffix P (x # xs) = (if P (x # xs) then Some 0 else map_option Suc (first_suffix P xs))"

fun last_suffix :: "('a list \<Rightarrow> bool) \<Rightarrow> 'a list \<Rightarrow> nat option" where
  "last_suffix P [] = (if P [] then Some 0 else None)"
| "last_suffix P (x # xs) =
     (case last_suffix P xs of Some i \<Rightarrow> Some (Suc i)
      | None \<Rightarrow> if P (x # xs) then Some 0 else None)"

definition starts_with :: "string \<Rightarrow> string \<Rightarrow> bool" where
  "starts_with pat s \<longleftrightarrow> take (length pat) s = pat"

definition position :: "nat option \<Rightarrow> size_type" where
  "position r = (case r of None \<Rightarrow> npos | Some i \<Rightarrow> word_of_nat i)"

definition find_char :: "string \<Rightarrow> char \<Rightarrow> size_type" where
  "find_char s c = position (first_suffix (starts_with [c]) s)"

definition find_last_char :: "string \<Rightarrow> char \<Rightarrow> size_type" where
  "find_last_char s c = position (last_suffix (starts_with [c]) s)"

definition find_from :: "string \<Rightarrow> string \<Rightarrow> size_type \<Rightarrow> size_type" where
  "find_from s pat pos =
     (if unat pos > length s then npos
      else position (map_option ((+) (unat pos)) (first_suffix (starts_with pat) (drop (unat pos) s))))"

definition rfind :: "string \<Rightarrow> string \<Rightarrow> size_type" where
  "rfind s pat = position (last_suffix (starts_with pat) s)"

definition find_first_not_of :: "string \<Rightarrow> string \<Rightarrow> size_type \<Rightarrow> size_type" where
  "find_first_not_of s cs pos =
     (if unat pos \<ge> length s then npos
      else position (map_option ((+) (unat pos))
             (first_suffix (\<lambda>t. t \<noteq> [] \<and> hd t \<notin> set cs) (drop (unat pos) s))))"

subsection \<open>Substrings and insertion\<close>

definition substr :: "string \<Rightarrow> size_type \<Rightarrow> size_type \<Rightarrow> exn + string" where
  "substr s pos n =
     (if unat pos > length s then Inl Out_of_range
      else Inr (take (unat n) (drop (unat pos) s)))"

definition insert_at :: "size_type \<Rightarrow> string \<Rightarrow> string \<Rightarrow> exn + string" where
  "insert_at pos t s =
     (if unat pos > length s then Inl Out_of_range
      else Inr (take (unat pos) s @ t @ drop (unat pos) s))"

text \<open>\<open>c_str\<close> read back as a string: the bytes before the first NUL.\<close>

definition NUL :: char where
  "NUL = CHR 0x00"

definition newline :: char where
  "newline = CHR 0x0A"

definition c_string :: "string \<Rightarrow> string" where
  "c_string s = takeWhile (\<lambda>c. c \<noteq> NUL) s"

subsection \<open>Decimal output and input\<close>

definition digit_char :: "nat \<Rightarrow> char" where
  "digit_char d = char_of (48 + d)"

fun to_string :: "nat \<Rightarrow> string" where
  "to_string n = (if n < 10 then [digit_char n] else to_string (n div 10) @ [digit_char (n mod 10)])"

declare to_string.simps [simp del]

definition is_space :: "char \<Rightarrow> bool" where
  "is_space c \<longleftrightarrow> of_char c = (32::nat) \<or> (9::nat) \<le> of_char c \<and> of_char c \<le> (13::nat)"

definition is_digit :: "char \<Rightarrow> bool" where
  "is_digit c \<longleftrightarrow> (48::nat) \<le> of_char c \<and> of_char c \<le> (57::nat)"

definition digit_value :: "char \<Rightarrow> nat" where
  "digit_value c = of_char c - 48"

fun digits_value :: "nat \<Rightarrow> string \<Rightarrow> nat" where
  "digits_value acc [] = acc"
| "digits_value acc (c # cs) = digits_value (10 * acc + digit_value c) cs"

definition split_sign :: "string \<Rightarrow> bool \<times> string" where
  "split_sign s = (case s of
       [] \<Rightarrow> (False, [])
     | c # r \<Rightarrow> if c = CHR ''-'' then (True, r) else if c = CHR ''+'' then (False, r) else (False, s))"

text \<open>The value \<open>strtol\<close> scans before any range check; None where no conversion is possible.\<close>

definition scan_int :: "string \<Rightarrow> int option" where
  "scan_int s =
     (let (neg, t) = split_sign (dropWhile is_space s);
          ds = takeWhile is_digit t
      in if ds = [] then None
         else Some (if neg then - int (digits_value 0 ds) else int (digits_value 0 ds)))"

definition stoi :: "string \<Rightarrow> exn + int" where
  "stoi s = (case scan_int s of
       None \<Rightarrow> Inl Invalid_argument
     | Some v \<Rightarrow> if v < - (2 ^ 31) \<or> 2 ^ 31 \<le> v then Inl Out_of_range else Inr v)"

definition stoul :: "string \<Rightarrow> exn + ulong" where
  "stoul s = (case scan_int s of
       None \<Rightarrow> Inl Invalid_argument
     | Some v \<Rightarrow> if 2 ^ 64 \<le> \<bar>v\<bar> then Inl Out_of_range else Inr (word_of_int v))"

text \<open>\<open>atoi\<close>: \<open>strtol\<close> saturates at the limits of \<open>long\<close>, the cast to \<open>int\<close> keeps the low 32 bits.\<close>

definition atoi :: "string \<Rightarrow> uint" where
  "atoi s = (case scan_int s of
       None \<Rightarrow> 0
     | Some v \<Rightarrow> word_of_int (max (- (2 ^ 63)) (min (2 ^ 63 - 1) v)))"

subsection \<open>Search lemmas\<close>

lemma starts_with_char: "starts_with [c] s \<longleftrightarrow> s \<noteq> [] \<and> hd s = c"
  by (cases s) (auto simp: starts_with_def)

lemma starts_with_append [simp, intro]: "starts_with p (p @ s)"
  by (simp add: starts_with_def)

lemma first_suffix_char_None:
  "c \<notin> set s \<Longrightarrow> first_suffix (starts_with [c]) s = None"
  by (induction s) (auto simp: starts_with_char)

lemma first_suffix_char_Some:
  "c \<notin> set k \<Longrightarrow> first_suffix (starts_with [c]) (k @ c # r) = Some (length k)"
  by (induction k) (auto simp: starts_with_char)

lemma last_suffix_char_None:
  "c \<notin> set s \<Longrightarrow> last_suffix (starts_with [c]) s = None"
  by (induction s) (auto simp: starts_with_char)

lemma last_suffix_char_Some:
  "c \<notin> set r \<Longrightarrow> last_suffix (starts_with [c]) (k @ c # r) = Some (length k)"
proof (induction k)
  case Nil
  then show ?case by (simp add: last_suffix_char_None) (simp add: starts_with_char)
qed simp

lemma word_of_nat_neq_npos: "n < 2 ^ 64 - 1 \<Longrightarrow> (word_of_nat n :: size_type) \<noteq> npos"
proof
  assume n: "n < 2 ^ 64 - 1" and eq: "(word_of_nat n :: size_type) = npos"
  have "unat (word_of_nat n :: size_type) = n" using n by (intro unat_of_nat_small) simp
  moreover have "unat npos = 2 ^ 64 - 1" by (simp add: npos_def unsigned_minus_1_eq_mask mask_eq_exp_minus_1)
  ultimately show False using eq n by simp
qed

lemma find_char_npos [string_lems]: "c \<notin> set s \<Longrightarrow> find_char s c = npos"
  by (simp add: find_char_def position_def first_suffix_char_None)

lemma find_char_split [string_lems]:
  "c \<notin> set k \<Longrightarrow> find_char (k @ c # r) c = word_of_nat (length k)"
  by (simp add: find_char_def position_def first_suffix_char_Some)

lemma find_last_char_npos [string_lems]: "c \<notin> set s \<Longrightarrow> find_last_char s c = npos"
  by (simp add: find_last_char_def position_def last_suffix_char_None)

lemma find_last_char_split [string_lems]:
  "c \<notin> set r \<Longrightarrow> find_last_char (k @ c # r) c = word_of_nat (length k)"
  by (simp add: find_last_char_def position_def last_suffix_char_Some)

lemma unat_npos: "unat npos = 2 ^ 64 - 1"
  by (simp add: npos_def unsigned_minus_1_eq_mask mask_eq_exp_minus_1)

lemma substr_to_end [string_lems]:
  "length s < 2 ^ 64 \<Longrightarrow> unat pos \<le> length s \<Longrightarrow> substr s pos npos = Inr (drop (unat pos) s)"
  by (simp add: substr_def unat_npos)

lemma substr_prefix [string_lems]:
  "length (k @ r) < 2 ^ 64 \<Longrightarrow> substr (k @ r) 0 (word_of_nat (length k)) = Inr k"
  by (simp add: substr_def unat_of_nat_small)

lemma insert_at_nat [string_lems]:
  "length a < 2 ^ 64 \<Longrightarrow> insert_at (word_of_nat (length a)) t (a @ b) = Inr (a @ t @ b)"
  by (simp add: insert_at_def unat_of_nat_small)

lemma c_string_id [string_lems]: "NUL \<notin> set s \<Longrightarrow> c_string s = s"
  by (auto simp: c_string_def takeWhile_eq_all_conv)

text \<open>A conversion that fails for lack of digits still fails when a byte follows that cannot begin a number.\<close>

lemma scan_int_no_digits:
  assumes "scan_int s = None" "\<not> is_digit c" "\<not> is_space c" "c \<noteq> CHR ''-''" "c \<noteq> CHR ''+''"
  shows "scan_int (s @ c # r) = None"
proof (cases "dropWhile is_space s")
  case Nil
  then have "dropWhile is_space (s @ c # r) = c # r" using assms(3) by (simp add: dropWhile_eq_Nil_conv)
  then show ?thesis using assms by (simp add: scan_int_def split_sign_def)
next
  case (Cons x xs)
  then have d: "dropWhile is_space (s @ c # r) = x # xs @ c # r"
    by (metis append_Cons dropWhile_append1 dropWhile_eq_Nil_conv list.distinct(1))
  have ds: "takeWhile is_digit (ys @ c # r) = []" if "takeWhile is_digit ys = []" for ys
    using that assms(2) by (cases ys) (auto split: if_splits)
  show ?thesis
    using assms(1) ds [of xs] ds [of "x # xs"]
    by (auto simp: scan_int_def Cons d split_sign_def Let_def split: if_splits)
qed

lemma stoi_no_digits:
  assumes "stoi s = Inl Invalid_argument" "\<not> is_digit c" "\<not> is_space c" "c \<noteq> CHR ''-''" "c \<noteq> CHR ''+''"
  shows "stoi (s @ c # r) = Inl Invalid_argument"
  using assms scan_int_no_digits [of s c r] by (auto simp: stoi_def split: option.splits if_splits)

subsection \<open>Round trip of decimal numbers\<close>

lemma of_char_digit: "d < 10 \<Longrightarrow> of_char (digit_char d) = 48 + d"
  by (simp add: digit_char_def of_char_of)

lemma is_digit_digit_char [simp]: "d < 10 \<Longrightarrow> is_digit (digit_char d)"
  by (simp add: is_digit_def of_char_digit)

lemma digit_value_digit_char [simp]: "d < 10 \<Longrightarrow> digit_value (digit_char d) = d"
  by (simp add: digit_value_def of_char_digit)

lemma is_digit_not_space: "is_digit c \<Longrightarrow> \<not> is_space c"
  by (auto simp: is_digit_def is_space_def)

lemma is_digit_not_sign: "is_digit c \<Longrightarrow> c \<noteq> CHR ''-'' \<and> c \<noteq> CHR ''+''"
  by (auto simp: is_digit_def)

lemma to_string_nonempty [simp]: "to_string n \<noteq> []"
  by (subst to_string.simps) simp

lemma to_string_digits: "c \<in> set (to_string n) \<Longrightarrow> is_digit c"
proof (induction n rule: to_string.induct)
  case (1 n)
  show ?case
  proof (cases "n < 10")
    case True
    with "1.prems" show ?thesis by (simp add: to_string.simps [of n])
  next
    case False
    with 1 show ?thesis by (auto simp: to_string.simps [of n])
  qed
qed

lemma digits_value_append: "digits_value a (xs @ ys) = digits_value (digits_value a xs) ys"
  by (induction xs arbitrary: a) auto

lemma digits_value_to_string [simp]: "digits_value 0 (to_string n) = n"
proof (induction n rule: to_string.induct)
  case (1 n)
  show ?case
  proof (cases "n < 10")
    case True
    then show ?thesis by (simp add: to_string.simps [of n])
  next
    case False
    with 1 have "digits_value 0 (to_string (n div 10)) = n div 10" by simp
    with False show ?thesis by (simp add: to_string.simps [of n] digits_value_append)
  qed
qed

lemma scan_int_to_string [string_lems]:
  assumes "r = [] \<or> \<not> is_digit (hd r)"
  shows "scan_int (to_string n @ r) = Some (int n)"
proof -
  obtain c cs where t: "to_string n = c # cs" by (cases "to_string n") auto
  then have "is_digit c" using to_string_digits [of c n] by simp
  then have "dropWhile is_space (to_string n @ r) = to_string n @ r"
    and "split_sign (to_string n @ r) = (False, to_string n @ r)"
    using t is_digit_not_space is_digit_not_sign by (auto simp: split_sign_def)
  moreover have "takeWhile is_digit (to_string n @ r) = to_string n"
    using assms to_string_digits [of _ n]
    by (cases r) (auto simp: takeWhile_append takeWhile_eq_all_conv)
  ultimately show ?thesis by (simp add: scan_int_def)
qed

lemma stoul_to_string [string_lems]: "stoul (to_string (unat w)) = Inr w"
  using scan_int_to_string [of "[]" "unat w"] unsigned_less [of w, where ?'a = int]
  by (simp add: stoul_def)

lemma stoi_to_string [string_lems]: "n < 2 ^ 31 \<Longrightarrow> stoi (to_string n) = Inr (int n)"
  using scan_int_to_string [of "[]" n] by (simp add: stoi_def)

lemma stoi_to_string_large: "2 ^ 31 \<le> n \<Longrightarrow> stoi (to_string n) = Inl Out_of_range"
  using scan_int_to_string [of "[]" n] by (simp add: stoi_def)

lemma to_string_inj: "to_string m = to_string n \<longleftrightarrow> m = n"
  by (metis digits_value_to_string)

lemma to_string_no_char: "\<not> is_digit c \<Longrightarrow> c \<notin> set (to_string n)"
  using to_string_digits by blast

lemma to_string_length: "0 < w \<Longrightarrow> i < 10 ^ w \<Longrightarrow> length (to_string i) \<le> w"
proof (induction w arbitrary: i)
  case (Suc w)
  show ?case
  proof (cases "i < 10")
    case False
    then have "0 < w" using Suc.prems by (cases w) auto
    moreover have "i div 10 < 10 ^ w" using Suc.prems by (simp add: less_mult_imp_div_less mult.commute)
    ultimately have "length (to_string (i div 10)) \<le> w" by (rule Suc.IH)
    then show ?thesis using False by (simp add: to_string.simps [of i])
  qed (simp add: to_string.simps [of i])
qed simp

lemma to_string_0 [simp]: "to_string 0 = ''0''"
  by code_simp

end
