(* ===== verification/HttpConnection.thy ===== *)
theory HttpConnection
  imports StdString
begin

section \<open>HttpConnection (include/web/http-connection.h, src/web/http-connection.cpp)\<close>

text \<open>
  One client connection: requests are read, given to one of two functors, and answered. \<open>boost::beast\<close>
  and the socket are parameters: what \<open>http::read\<close> gives is an event with the parsed request and the
  bytes that lie at the start of the read buffer, and whether \<open>http::write\<close> fails is part of the event.
  Where the code passes \<open>data()\<close> of a view on as a C string, the request has a field for the bytes at
  that address. The functors take the state they work on as an argument.
\<close>

subsection \<open>Requests and responses\<close>

datatype verb = Get | Post | Other_verb

record http_request =
  rq_method :: verb
  rq_method_data :: string             \<comment> \<open>the bytes from \<open>method_string().data()\<close> on\<close>
  rq_target :: string
  rq_target_data :: string             \<comment> \<open>the bytes from \<open>target().data()\<close> on\<close>
  rq_version :: nat
  rq_content_length :: "string option" \<comment> \<open>the bytes of the field's value; None for a null pointer\<close>

record http_response =
  rs_result :: nat
  rs_content_type :: "string option"
  rs_content_length :: "nat option"
  rs_server :: string
  rs_version :: nat
  rs_keep_alive :: bool
  rs_body :: string

definition status_ok :: nat where "status_ok = 200"
definition status_no_content :: nat where "status_no_content = 204"
definition status_bad_request :: nat where "status_bad_request = 400"
definition status_not_found :: nat where "status_not_found = 404"
definition status_internal_server_error :: nat where "status_internal_server_error = 500"

definition ms_maxBufferSize :: size_type where
  "ms_maxBufferSize = 4096"

type_synonym 's get_functor = "string \<Rightarrow> string \<Rightarrow> 's \<Rightarrow> (int \<times> string) outcome \<times> 's"
type_synonym 's post_functor = "string \<Rightarrow> string \<Rightarrow> string \<Rightarrow> 's \<Rightarrow> (int \<times> string) outcome \<times> 's"

subsection \<open>The body of a response\<close>

definition insertHtmlInResponse ::
  "http_response \<Rightarrow> string \<Rightarrow> string option \<Rightarrow> string option \<Rightarrow> http_response" where
  "insertHtmlInResponse response payload headTitle subject =
     response\<lparr>rs_body := rs_body response @ ''<html>'' @ [newline]
       @ (case headTitle of None \<Rightarrow> []
          | Some t \<Rightarrow> ''<head>'' @ [newline] @ ''<title>'' @ c_string t @ ''</title>'' @ [newline] @ ''</head>'' @ [newline])
       @ ''<body>'' @ [newline]
       @ (case subject of None \<Rightarrow> [] | Some s \<Rightarrow> ''<h1>'' @ c_string s @ ''</h1>'' @ [newline])
       @ ''<p>'' @ c_string payload @ ''</p>'' @ [newline] @ ''</body>'' @ [newline] @ ''</html>'' @ [newline]\<rparr>"

definition insertTextInResponse ::
  "http_response \<Rightarrow> string \<Rightarrow> string option \<Rightarrow> string option \<Rightarrow> http_response" where
  "insertTextInResponse response payload prefix0 suffix0 =
     response\<lparr>rs_body := rs_body response @ (case prefix0 of None \<Rightarrow> [] | Some p \<Rightarrow> c_string p)
       @ c_string payload @ (case suffix0 of None \<Rightarrow> [] | Some s \<Rightarrow> c_string s)\<rparr>"

text \<open>\<open>if (target[0] == '/') target.erase(0, 1)\<close>; the first byte of an empty string is NUL.\<close>

definition drop_slash :: "string \<Rightarrow> string" where
  "drop_slash target = (case target of [] \<Rightarrow> [] | c # r \<Rightarrow> if c = CHR ''/'' then r else target)"

subsection \<open>GET\<close>

text \<open>The argument \<open>index\<close> is the contents of the index file, None when it does not open.\<close>

definition createGetResponse ::
  "'s get_functor \<Rightarrow> string option \<Rightarrow> http_request \<Rightarrow> http_response \<Rightarrow> 's \<Rightarrow> http_response outcome \<times> 's" where
  "createGetResponse getFunctor index rq response s =
     (let rs = response\<lparr>rs_content_type := Some ''text/html''\<rparr>
      in if rq_target rq = ''/'' then
           (case index of
              Some content \<Rightarrow> (Returns (rs\<lparr>rs_body := rs_body rs @ content\<rparr>), s)
            | None \<Rightarrow> (Returns (insertHtmlInResponse (rs\<lparr>rs_result := status_not_found\<rparr>) (rq_target_data rq)
                         (Some ''FILE NOT FOUND'') (Some ''Inexistent index content.'')), s))
         else
           (let target = drop_slash (rq_target rq); (r, s1) = getFunctor target [] s
            in case r of
                 Returns (retval, reply) \<Rightarrow>
                   if 0 \<le> retval
                   then (Returns (insertHtmlInResponse
                           (rs\<lparr>rs_result := (if retval = 0 then status_internal_server_error else status_ok)\<rparr>)
                           reply (Some ''Reply from Hotspot Tracker'') (Some (target @ '':''))), s1)
                   else (Returns (insertHtmlInResponse (rs\<lparr>rs_result := status_not_found\<rparr>) (rq_target_data rq)
                           (Some ''COMMAND NOT FOUND'') (Some ''Inexistent or not recognized target.'')), s1)
               | Throws e \<Rightarrow> (Throws e, s1) | Waits \<Rightarrow> (Waits, s1)
               | Undefined \<Rightarrow> (Undefined, s1) | Terminates \<Rightarrow> (Terminates, s1)))"

subsection \<open>POST\<close>

definition CRLF :: string where
  "CRLF = [CHR 0x0D, CHR 0x0A]"

text \<open>
  The body is looked for in the raw bytes of the read buffer, after the last occurrence of the name of
  the length field. None is the result false. \<open>std::string\<close> of a null pointer throws.
\<close>

definition retrieveBody :: "http_request \<Rightarrow> string \<Rightarrow> exn + string option" where
  "retrieveBody rq buffer =
     (case rq_content_length rq of
        None \<Rightarrow> Inl Logic_error
      | Some field \<Rightarrow>
          (case stoul (c_string field) of
             Inl e \<Rightarrow> Inl e
           | Inr bodylength \<Rightarrow>
               if bodylength = 0 \<or> ms_maxBufferSize \<le> bodylength then Inr None
               else
                 let msgView = c_string buffer; msglen = size_of msgView
                 in if msglen \<le> bodylength \<or> ms_maxBufferSize \<le> msglen then Inr None
                    else
                      let pos = rfind msgView ''Content-Length: ''
                      in if pos = npos then Inr None
                         else
                           let pos1 = find_from msgView CRLF pos
                           in if pos1 = npos then Inr None
                              else
                                let pos2 = find_first_not_of msgView CRLF pos1
                                in if pos2 \<noteq> npos
                                   then (case substr msgView pos2 bodylength of
                                           Inl e \<Rightarrow> Inl e | Inr sBody \<Rightarrow> Inr (Some sBody))
                                   else Inr None))"

definition createPostResponse ::
  "'s post_functor \<Rightarrow> string \<Rightarrow> http_request \<Rightarrow> http_response \<Rightarrow> 's \<Rightarrow> http_response outcome \<times> 's" where
  "createPostResponse postFunctor buffer rq response s =
     (let rs = response\<lparr>rs_content_type := Some ''text/html''\<rparr>;
          target = drop_slash (rq_target rq);
          not_found = insertHtmlInResponse (rs\<lparr>rs_result := status_not_found\<rparr>) (rq_target_data rq)
            (Some ''COMMAND OR PARAMETER NOT FOUND'')
            (Some ''Inexistent or not recognized target or supplied parameters.'')
      in case retrieveBody rq buffer of
           Inl e \<Rightarrow> (Throws e, s)
         | Inr body \<Rightarrow>
             if body = None \<or> body = Some [] then (Returns not_found, s)
             else
               (let (r, s1) = postFunctor target (the body) [] s
                in case r of
                     Returns (retval, reply) \<Rightarrow>
                       if 0 \<le> retval
                       then (Returns (insertHtmlInResponse
                               (rs\<lparr>rs_result := (if retval = 0 then status_internal_server_error else status_ok)\<rparr>)
                               reply (Some ''Reply from Hotspot Tracker'') (Some (target @ '':''))), s1)
                       else (Returns not_found, s1)
                   | Throws e \<Rightarrow> (Throws e, s1) | Waits \<Rightarrow> (Waits, s1)
                   | Undefined \<Rightarrow> (Undefined, s1) | Terminates \<Rightarrow> (Terminates, s1)))"

subsection \<open>processRequest\<close>

definition processRequest ::
  "'s get_functor \<Rightarrow> 's post_functor \<Rightarrow> string option \<Rightarrow> http_request \<Rightarrow> string \<Rightarrow> 's
     \<Rightarrow> http_response outcome \<times> 's" where
  "processRequest getFunctor postFunctor index rq buffer s =
     (let response = \<lparr>rs_result = status_ok, rs_content_type = None, rs_content_length = None,
            rs_server = ''Boost Beast'', rs_version = rq_version rq, rs_keep_alive = True, rs_body = []\<rparr>
      in case rq_method rq of
           Get \<Rightarrow> createGetResponse getFunctor index rq (response\<lparr>rs_result := status_ok\<rparr>) s
         | Post \<Rightarrow> createPostResponse postFunctor buffer rq (response\<lparr>rs_result := status_no_content\<rparr>) s
         | Other_verb \<Rightarrow>
             (case insert_at 24 (c_string (rq_method_data rq)) (''Invalid request-method '' @ [CHR 0x27, CHR 0x27]) of
                Inl e \<Rightarrow> (Throws e, s)
              | Inr text1 \<Rightarrow>
                  (Returns (insertHtmlInResponse
                     (response\<lparr>rs_result := status_bad_request, rs_content_type := Some ''text/html''\<rparr>)
                     text1 (Some ''Invalid Method'') (Some ''Invalid Request Method:'')), s)))"

subsection \<open>The connection\<close>

datatype read_result =
    Read_error
  | Read_nothing
  | Read_request http_request string

record connection =
  c_running :: bool
  c_shuttingDown :: bool
  c_writeReady :: bool
  c_open :: bool
  c_response :: http_response
  c_written :: "http_response list"

definition HttpConnection_new :: connection where
  "HttpConnection_new =
     \<lparr>c_running = False, c_shuttingDown = False, c_writeReady = False, c_open = True,
      c_response = \<lparr>rs_result = status_ok, rs_content_type = None, rs_content_length = None, rs_server = [],
        rs_version = 11, rs_keep_alive = True, rs_body = []\<rparr>,
      c_written = []\<rparr>"

definition isRunning :: "connection \<Rightarrow> bool" where
  "isRunning c = c_running c"

definition isShuttingDown :: "connection \<Rightarrow> bool" where
  "isShuttingDown c = c_shuttingDown c"

definition connection_stop :: "connection \<Rightarrow> connection" where
  "connection_stop c = c\<lparr>c_running := False, c_open := False\<rparr>"

text \<open>\<open>readRequest\<close>: how the call ends, the connection and the state of the functors.\<close>

definition readRequest ::
  "'s get_functor \<Rightarrow> 's post_functor \<Rightarrow> string option \<Rightarrow> read_result \<Rightarrow> connection \<Rightarrow> 's
     \<Rightarrow> unit outcome \<times> connection \<times> 's" where
  "readRequest gf pf index input c s =
     (let c1 = c\<lparr>c_writeReady := False\<rparr>
      in case input of
           Read_error \<Rightarrow> (Returns (), connection_stop c1, s)
         | Read_nothing \<Rightarrow> (Returns (), c1, s)
         | Read_request rq buffer \<Rightarrow>
             (let (r, s1) = processRequest gf pf index rq buffer s
              in case r of
                   Returns response \<Rightarrow> (Returns (), c1\<lparr>c_response := response, c_writeReady := True\<rparr>, s1)
                 | _ \<Rightarrow> (map_outcome (\<lambda>_. ()) r, c1, s1)))"

definition writeResponse :: "bool \<Rightarrow> connection \<Rightarrow> connection" where
  "writeResponse ec c =
     (let response = (c_response c)\<lparr>rs_content_length := Some (length (rs_body (c_response c)))\<rparr>
      in if ec then connection_stop c else c\<lparr>c_written := c_written c @ [response]\<rparr>)"

text \<open>
  The loop of \<open>run\<close> on the inputs in the order they arrive, each with whether the write that follows
  fails; when the inputs end, the thread stays in \<open>http::read\<close>.
\<close>

fun run_loop ::
  "'s get_functor \<Rightarrow> 's post_functor \<Rightarrow> string option \<Rightarrow> (read_result \<times> bool) list \<Rightarrow> connection \<Rightarrow> 's
     \<Rightarrow> unit outcome \<times> connection \<times> 's" where
  "run_loop gf pf index [] c s =
     (if c_running c \<and> \<not> c_shuttingDown c then (Waits, c, s) else (Returns (), c, s))"
| "run_loop gf pf index ((input, ec) # inputs) c s =
     (if c_running c \<and> \<not> c_shuttingDown c then
        (let (r, c1, s1) = readRequest gf pf index input c s
         in if r \<noteq> Returns () then (r, c1, s1)
            else if \<not> c_running c1 then (Returns (), c1, s1)
            else run_loop gf pf index inputs (if c_writeReady c1 then writeResponse ec c1 else c1) s1)
      else (Returns (), c, s))"

definition connection_run ::
  "'s get_functor \<Rightarrow> 's post_functor \<Rightarrow> string option \<Rightarrow> (read_result \<times> bool) list \<Rightarrow> connection \<Rightarrow> 's
     \<Rightarrow> unit outcome \<times> connection \<times> 's" where
  "connection_run gf pf index inputs c s = run_loop gf pf index inputs (c\<lparr>c_running := True\<rparr>) s"

end
