(* ===== verification/StdContainers.thy ===== *)
theory StdContainers
  imports Prelude "HOL-Library.Multiset"
begin

section \<open>std::map and std::multimap as sorted lists\<close>

text \<open>
  A \<open>std::map\<close> or \<open>std::multimap\<close> is the list of its pairs in iteration order. An iterator is an index
  into the list, \<open>end()\<close> is the length. The searches are those of libstdc++ (the Makefile builds with
  g++): \<open>find\<close> on a multimap returns the first of the pairs with an equal key, and \<open>insert\<close> on a
  multimap puts the new pair after the pairs with an equal key. The insertion hint of \<open>std::map\<close> changes
  the cost of an insertion and not its result, so it is not modelled.
\<close>

type_synonym ('k, 'v) pairs = "('k \<times> 'v) list"

definition lower_bound :: "'k::linorder \<Rightarrow> ('k, 'v) pairs \<Rightarrow> nat" where
  "lower_bound k xs = length (takeWhile (\<lambda>p. fst p < k) xs)"

definition upper_bound :: "'k::linorder \<Rightarrow> ('k, 'v) pairs \<Rightarrow> nat" where
  "upper_bound k xs = length (takeWhile (\<lambda>p. fst p \<le> k) xs)"

definition find_key :: "'k::linorder \<Rightarrow> ('k, 'v) pairs \<Rightarrow> nat" where
  "find_key k xs =
     (let i = lower_bound k xs
      in if i \<noteq> length xs \<and> fst (xs ! i) = k then i else length xs)"

definition insert_or_assign :: "'k::linorder \<Rightarrow> 'v \<Rightarrow> ('k, 'v) pairs \<Rightarrow> ('k, 'v) pairs" where
  "insert_or_assign k v xs =
     (let i = lower_bound k xs
      in if i \<noteq> length xs \<and> fst (xs ! i) = k then xs[i := (k, v)]
         else take i xs @ (k, v) # drop i xs)"

definition map_insert :: "'k::linorder \<Rightarrow> 'v \<Rightarrow> ('k, 'v) pairs \<Rightarrow> ('k, 'v) pairs" where
  "map_insert k v xs =
     (let i = lower_bound k xs
      in if i \<noteq> length xs \<and> fst (xs ! i) = k then xs
         else take i xs @ (k, v) # drop i xs)"

definition multimap_insert :: "'k::linorder \<Rightarrow> 'v \<Rightarrow> ('k, 'v) pairs \<Rightarrow> ('k, 'v) pairs" where
  "multimap_insert k v xs = (let i = upper_bound k xs in take i xs @ (k, v) # drop i xs)"

definition erase_at :: "nat \<Rightarrow> ('k, 'v) pairs \<Rightarrow> ('k, 'v) pairs" where
  "erase_at i xs = take i xs @ drop (Suc i) xs"

definition erase_range :: "nat \<Rightarrow> nat \<Rightarrow> ('k, 'v) pairs \<Rightarrow> ('k, 'v) pairs" where
  "erase_range i j xs = take i xs @ drop j xs"

definition wf_map :: "('k::linorder, 'v) pairs \<Rightarrow> bool" where
  "wf_map xs \<longleftrightarrow> sorted (map fst xs) \<and> distinct (map fst xs)"

definition wf_multimap :: "('k::linorder, 'v) pairs \<Rightarrow> bool" where
  "wf_multimap xs \<longleftrightarrow> sorted (map fst xs)"

subsection \<open>Interfaces\<close>

text \<open>The contract of an ordered map with unique keys, as the callers rely on it.\<close>

locale unique_map =
  fixes lookup :: "'m \<Rightarrow> 'k \<Rightarrow> 'v option"
    and assign :: "'k \<Rightarrow> 'v \<Rightarrow> 'm \<Rightarrow> 'm"
    and add_new :: "'k \<Rightarrow> 'v \<Rightarrow> 'm \<Rightarrow> 'm"
    and nothing :: "'m"
    and ok :: "'m \<Rightarrow> bool"
  assumes lookup_nothing: "lookup nothing k = None"
    and ok_nothing: "ok nothing"
    and lookup_assign: "ok m \<Longrightarrow> lookup (assign k v m) = (lookup m)(k \<mapsto> v)"
    and ok_assign: "ok m \<Longrightarrow> ok (assign k v m)"
    and lookup_add_new:
      "ok m \<Longrightarrow> lookup (add_new k v m) = (if lookup m k = None then (lookup m)(k \<mapsto> v) else lookup m)"
    and ok_add_new: "ok m \<Longrightarrow> ok (add_new k v m)"
begin

lemma fold_add_new_ok: "ok m \<Longrightarrow> ok (fold (\<lambda>(k, v). add_new k v) xs m)"
  by (induction xs arbitrary: m) (auto simp: ok_add_new)

lemma fold_add_new_lookup:
  "ok m \<Longrightarrow> distinct (map fst xs) \<Longrightarrow> (\<And>k. k \<in> fst ` set xs \<Longrightarrow> lookup m k = None) \<Longrightarrow>
     lookup (fold (\<lambda>(k, v). add_new k v) xs m) = lookup m ++ map_of xs"
proof (induction xs arbitrary: m)
  case (Cons p xs)
  obtain k v where p: "p = (k, v)" by (cases p)
  have k: "lookup m k = None" using Cons.prems(3) p by simp
  have notin: "k \<notin> fst ` set xs" using Cons.prems(2) p by simp
  have "lookup (fold (\<lambda>(k, v). add_new k v) xs (add_new k v m)) = lookup (add_new k v m) ++ map_of xs"
    using Cons.prems p k notin by (intro Cons.IH) (auto simp: ok_add_new lookup_add_new)
  also have "\<dots> = lookup m ++ map_of (p # xs)"
    using Cons.prems(1) p k notin
    by (auto simp: lookup_add_new fun_eq_iff map_add_def split: option.splits
        dest: map_of_SomeD intro: rev_image_eqI)
  finally show ?case using p by (simp del: map_add_upd map_of.simps)
qed simp

lemma fold_add_new_from_nothing:
  "distinct (map fst xs) \<Longrightarrow> lookup (fold (\<lambda>(k, v). add_new k v) xs nothing) = map_of xs"
proof -
  assume d: "distinct (map fst xs)"
  have "lookup nothing = Map.empty" by (rule ext) (rule lookup_nothing)
  then show ?thesis
    using fold_add_new_lookup [OF ok_nothing d] lookup_nothing by simp
qed

end

text \<open>The contract of a multimap used as a ranking: pairs in ascending order of the first component.\<close>

locale ranking =
  fixes put :: "'f::linorder \<Rightarrow> 'k \<Rightarrow> 'r \<Rightarrow> 'r"
    and drop_first :: "'r \<Rightarrow> 'r"
    and contents :: "'r \<Rightarrow> ('f \<times> 'k) list"
  assumes put_mset: "mset (contents (put f k r)) = add_mset (f, k) (mset (contents r))"
    and put_sorted: "sorted (map fst (contents r)) \<Longrightarrow> sorted (map fst (contents (put f k r)))"
    and drop_contents: "contents (drop_first r) = tl (contents r)"
begin

lemma put_set: "set (contents (put f k r)) = insert (f, k) (set (contents r))"
  using arg_cong [OF put_mset, of set_mset] by simp

lemma put_length: "length (contents (put f k r)) = Suc (length (contents r))"
  using arg_cong [OF put_mset, of size] by simp

lemma put_distinct_keys:
  assumes "distinct (map snd (contents r))" "k \<notin> snd ` set (contents r)"
  shows "distinct (map snd (contents (put f k r)))"
proof -
  have "mset (map snd (contents (put f k r))) = mset (k # map snd (contents r))"
    using put_mset [of f k r] by simp
  then show ?thesis using assms mset_eq_imp_distinct_iff by fastforce
qed

lemma drop_sorted: "sorted (map fst (contents r)) \<Longrightarrow> sorted (map fst (contents (drop_first r)))"
  by (cases "contents r") (simp_all add: drop_contents)

lemma drop_least:
  assumes "sorted (map fst (contents r))" "p \<in> set (contents (drop_first r))"
  shows "fst (contents r ! 0) \<le> fst p"
  using assms by (cases "contents r") (auto simp: drop_contents)

end

subsection \<open>Unfolding equations\<close>

lemma lower_bound_Nil [simp]: "lower_bound k [] = 0"
  by (simp add: lower_bound_def)

lemma lower_bound_Cons [simp]:
  "lower_bound k (p # xs) = (if fst p < k then Suc (lower_bound k xs) else 0)"
  by (simp add: lower_bound_def)

lemma upper_bound_Nil [simp]: "upper_bound k [] = 0"
  by (simp add: upper_bound_def)

lemma upper_bound_Cons [simp]:
  "upper_bound k (p # xs) = (if fst p \<le> k then Suc (upper_bound k xs) else 0)"
  by (simp add: upper_bound_def)

lemma lower_bound_le [simp]: "lower_bound k xs \<le> length xs"
  by (simp add: lower_bound_def length_takeWhile_le)

lemma upper_bound_le [simp]: "upper_bound k xs \<le> length xs"
  by (simp add: upper_bound_def length_takeWhile_le)

lemma insert_or_assign_Nil [simp]: "insert_or_assign k v [] = [(k, v)]"
  by (simp add: insert_or_assign_def)

lemma insert_or_assign_Cons [simp]:
  "insert_or_assign k v (p # xs) =
     (if fst p < k then p # insert_or_assign k v xs
      else if fst p = k then (k, v) # xs else (k, v) # p # xs)"
  by (simp add: insert_or_assign_def Let_def)

lemma map_insert_Nil [simp]: "map_insert k v [] = [(k, v)]"
  by (simp add: map_insert_def)

lemma map_insert_Cons [simp]:
  "map_insert k v (p # xs) =
     (if fst p < k then p # map_insert k v xs
      else if fst p = k then p # xs else (k, v) # p # xs)"
  by (simp add: map_insert_def Let_def)

lemma multimap_insert_Nil [simp]: "multimap_insert k v [] = [(k, v)]"
  by (simp add: multimap_insert_def)

lemma multimap_insert_Cons [simp]:
  "multimap_insert k v (p # xs) =
     (if fst p \<le> k then p # multimap_insert k v xs else (k, v) # p # xs)"
  by (simp add: multimap_insert_def Let_def)

subsection \<open>Searching\<close>

lemma wf_map_Nil [simp]: "wf_map []"
  by (simp add: wf_map_def)

lemma wf_map_Cons:
  "wf_map (p # xs) \<longleftrightarrow> wf_map xs \<and> (\<forall>q \<in> set xs. fst p < fst q)"
  by (auto simp: wf_map_def less_le)

lemma map_of_above: "\<forall>q \<in> set xs. a < fst q \<Longrightarrow> k \<le> a \<Longrightarrow> map_of xs k = None"
  for a :: "'a::linorder"
  by (induction xs) auto

lemma lower_bound_found_iff [container_lems]:
  "wf_map xs \<Longrightarrow>
     (lower_bound k xs \<noteq> length xs \<and> fst (xs ! lower_bound k xs) = k) \<longleftrightarrow> map_of xs k \<noteq> None"
proof (induction xs)
  case (Cons p xs)
  then show ?case
    by (cases p) (auto simp: wf_map_Cons map_of_above dest: map_of_above [of xs "fst p" k])
qed simp

lemma lower_bound_found_snd [container_lems]:
  "wf_map xs \<Longrightarrow> map_of xs k = Some v \<Longrightarrow> snd (xs ! lower_bound k xs) = v"
proof (induction xs)
  case (Cons p xs)
  then show ?case
    using map_of_above [of xs "fst p" k]
    by (cases p) (auto simp: wf_map_Cons not_less split: if_splits)
qed simp

lemma find_key_found_iff [container_lems]:
  "wf_map xs \<Longrightarrow> find_key k xs = length xs \<longleftrightarrow> map_of xs k = None"
  using lower_bound_found_iff [of xs k] by (auto simp: find_key_def Let_def)

lemma find_key_found_snd [container_lems]:
  "wf_map xs \<Longrightarrow> map_of xs k = Some v \<Longrightarrow> snd (xs ! find_key k xs) = v"
  using lower_bound_found_iff [of xs k] lower_bound_found_snd [of xs k v]
  by (auto simp: find_key_def Let_def)

subsection \<open>Updating\<close>

lemma map_of_insert_or_assign:
  "wf_map xs \<Longrightarrow> map_of (insert_or_assign k v xs) = (map_of xs)(k \<mapsto> v)"
proof (induction xs)
  case (Cons p xs)
  then show ?case by (cases p) (auto simp: wf_map_Cons fun_eq_iff)
qed simp

lemma set_insert_or_assign:
  "set (insert_or_assign k v xs) \<subseteq> insert (k, v) (set xs)"
  by (induction xs) auto

lemma wf_insert_or_assign:
  "wf_map xs \<Longrightarrow> wf_map (insert_or_assign k v xs)"
proof (induction xs)
  case (Cons p xs)
  then show ?case
    using set_insert_or_assign [of k v xs] by (auto simp: wf_map_Cons)
qed (simp add: wf_map_def)

lemma map_of_map_insert:
  "wf_map xs \<Longrightarrow>
     map_of (map_insert k v xs) = (if map_of xs k = None then (map_of xs)(k \<mapsto> v) else map_of xs)"
proof (induction xs)
  case (Cons p xs)
  then show ?case
    by (cases p) (auto simp: wf_map_Cons fun_eq_iff map_of_above dest: map_of_above [of xs "fst p" k])
qed simp

lemma set_map_insert: "set (map_insert k v xs) \<subseteq> insert (k, v) (set xs)"
  by (induction xs) auto

lemma wf_map_insert: "wf_map xs \<Longrightarrow> wf_map (map_insert k v xs)"
proof (induction xs)
  case (Cons p xs)
  then show ?case
    using set_map_insert [of k v xs] by (auto simp: wf_map_Cons)
qed (simp add: wf_map_def)

lemma mset_multimap_insert: "mset (multimap_insert k v xs) = add_mset (k, v) (mset xs)"
  by (induction xs) auto

lemma sorted_multimap_insert:
  "sorted (map fst xs) \<Longrightarrow> sorted (map fst (multimap_insert k v xs))"
proof (induction xs)
  case (Cons p xs)
  have "set (multimap_insert k v xs) = insert (k, v) (set xs)"
    using arg_cong [OF mset_multimap_insert [of k v xs], of set_mset] by simp
  with Cons show ?case by (auto dest: order.trans)
qed simp

lemma erase_at_0 [simp]: "erase_at 0 xs = tl xs"
  by (simp add: erase_at_def drop_Suc)

interpretation std_map: unique_map "map_of" insert_or_assign map_insert "[]" wf_map
  by unfold_locales
    (simp_all add: map_of_insert_or_assign wf_insert_or_assign map_of_map_insert wf_map_insert)

interpretation std_multimap: ranking multimap_insert "erase_at 0" "\<lambda>r. r"
  by unfold_locales (simp_all add: mset_multimap_insert sorted_multimap_insert)

subsection \<open>Maps are determined by their lookups\<close>

lemma pairs_from_map_of:
  "distinct (map fst xs) \<Longrightarrow> xs = map (\<lambda>k. (k, the (map_of xs k))) (map fst xs)"
  by (auto intro!: map_idI [symmetric])

lemma wf_map_eqI: "wf_map xs \<Longrightarrow> wf_map ys \<Longrightarrow> map_of xs = map_of ys \<Longrightarrow> xs = ys"
proof -
  assume wf: "wf_map xs" "wf_map ys" and eq: "map_of xs = map_of ys"
  have "map fst xs = map fst ys"
    using wf arg_cong [OF eq, of dom]
    by (intro sorted_distinct_set_unique) (auto simp: wf_map_def dom_map_of_conv_image_fst)
  then show ?thesis
    using wf eq pairs_from_map_of [of xs] pairs_from_map_of [of ys] by (simp add: wf_map_def)
qed

lemma fold_map_insert_id:
  assumes "wf_map xs"
  shows "fold (\<lambda>(k, v). map_insert k v) xs [] = xs"
proof (rule wf_map_eqI)
  show "wf_map (fold (\<lambda>(k, v). map_insert k v) xs [])" by (rule std_map.fold_add_new_ok) simp
  show "map_of (fold (\<lambda>(k, v). map_insert k v) xs []) = map_of xs"
    using assms by (intro std_map.fold_add_new_from_nothing) (simp add: wf_map_def)
qed (rule assms)

lemma multimap_insert_last:
  "(\<And>p. p \<in> set xs \<Longrightarrow> fst p \<le> k) \<Longrightarrow> multimap_insert k v xs = xs @ [(k, v)]"
  by (induction xs) auto

lemma fold_multimap_insert_id:
  "sorted (map fst (ys @ xs)) \<Longrightarrow> fold (\<lambda>(k, v). multimap_insert k v) xs ys = ys @ xs"
proof (induction xs arbitrary: ys)
  case (Cons p xs)
  obtain k v where p: "p = (k, v)" by (cases p)
  have "multimap_insert k v ys = ys @ [(k, v)]"
    using Cons.prems p by (intro multimap_insert_last) (auto simp: sorted_append)
  moreover have "fold (\<lambda>(k, v). multimap_insert k v) xs (ys @ [p]) = (ys @ [p]) @ xs"
    using Cons.prems by (intro Cons.IH) simp
  ultimately show ?case using p by simp
qed simp

end
