(* ===== verification/VerbosityLevel.thy ===== *)
theory VerbosityLevel
  imports Prelude
begin

section \<open>Verbosity (include/verbosity.h)\<close>

text \<open>
  The log level shared by all components. The enumeration is a datatype ordered by its numeric
  value, so the comparison operators of the class are the order of the type. A conversion from an
  integer takes the previous value of \<open>m_e\<close> as an argument, because the \<open>switch\<close> statements of the
  class assign it only in the listed cases.
\<close>

datatype level = Error | Info | Trace | Debug

primrec level_code :: "level \<Rightarrow> nat" where
  "level_code Error = 0"
| "level_code Info = 1"
| "level_code Trace = 2"
| "level_code Debug = 3"

instantiation level :: linorder
begin

definition less_eq_level :: "level \<Rightarrow> level \<Rightarrow> bool" where
  "less_eq_level a b \<longleftrightarrow> level_code a \<le> level_code b"

definition less_level :: "level \<Rightarrow> level \<Rightarrow> bool" where
  "less_level a b \<longleftrightarrow> level_code a < level_code b"

instance
proof
  fix a b :: level
  show "a \<le> b \<Longrightarrow> b \<le> a \<Longrightarrow> a = b"
    by (cases a; cases b) (simp_all add: less_eq_level_def)
qed (auto simp: less_eq_level_def less_level_def)

end

definition fromInt :: "int \<Rightarrow> level \<Rightarrow> level" where
  "fromInt i old =
     (if i \<le> 0 then Error
      else if int (level_code Debug) \<le> i then Debug
      else if i = 1 then Info
      else if i = 2 then Trace
      else old)"

definition fromUint :: "uint \<Rightarrow> level \<Rightarrow> level" where
  "fromUint u old =
     (if word_of_nat (level_code Debug) \<le> u then Debug
      else if u = 0 then Error
      else if u = 1 then Info
      else if u = 2 then Trace
      else old)"

definition toInt :: "level \<Rightarrow> int" where
  "toInt e = int (level_code e)"

definition toUint :: "level \<Rightarrow> uint" where
  "toUint e = word_of_nat (level_code e)"

lemma fromInt_clamps: "toInt (fromInt i old) = max 0 (min 3 i)"
  by (auto simp: fromInt_def toInt_def)

lemma fromInt_old: "fromInt i old = fromInt i old'"
  by (auto simp: fromInt_def)

lemma uint_cases_three: "u = 0 \<or> u = 1 \<or> u = 2 \<or> (3 :: uint) \<le> u"
  by unat_arith

lemma fromUint_old: "fromUint u old = fromUint u old'"
  using uint_cases_three [of u] by (elim disjE) (simp_all add: fromUint_def)

lemma toUint_fromUint: "toUint (fromUint u old) = min 3 u"
  using uint_cases_three [of u]
  by (elim disjE) (simp_all add: fromUint_def toUint_def min_def word_le_unat)

lemma fromInt_toInt: "fromInt (toInt e) old = e"
  by (cases e) (simp_all add: fromInt_def toInt_def)

lemma fromUint_toUint: "fromUint (toUint e) old = e"
  by (cases e) (simp_all add: fromUint_def toUint_def word_le_unat)

subsection \<open>The members of the class\<close>

text \<open>The constructors; the member is not initialised before a conversion, so \<open>old\<close> is any value.\<close>

definition Verbosity_default :: level where
  "Verbosity_default = Error"

definition Verbosity_int :: "int \<Rightarrow> level \<Rightarrow> level" where
  "Verbosity_int i old = fromInt i old"

definition Verbosity_uint :: "uint \<Rightarrow> level \<Rightarrow> level" where
  "Verbosity_uint u old = fromUint u old"

definition Verbosity_copy :: "level \<Rightarrow> level" where
  "Verbosity_copy v = v"

text \<open>The assignments return their argument, not the value stored.\<close>

definition assign_int :: "int \<Rightarrow> level \<Rightarrow> int \<times> level" where
  "assign_int i old = (i, fromInt i old)"

definition assign_uint :: "uint \<Rightarrow> level \<Rightarrow> uint \<times> level" where
  "assign_uint u old = (u, fromUint u old)"

text \<open>The comparison operators compare the numbers of the enumeration.\<close>

definition verbosity_less :: "level \<Rightarrow> level \<Rightarrow> bool" where
  "verbosity_less m_e l \<longleftrightarrow> level_code m_e < level_code l"

definition verbosity_less_eq :: "level \<Rightarrow> level \<Rightarrow> bool" where
  "verbosity_less_eq m_e l \<longleftrightarrow> level_code m_e \<le> level_code l"

definition verbosity_eq :: "level \<Rightarrow> level \<Rightarrow> bool" where
  "verbosity_eq m_e l \<longleftrightarrow> level_code m_e = level_code l"

definition verbosity_greater_eq :: "level \<Rightarrow> level \<Rightarrow> bool" where
  "verbosity_greater_eq m_e l \<longleftrightarrow> level_code l \<le> level_code m_e"

definition verbosity_greater :: "level \<Rightarrow> level \<Rightarrow> bool" where
  "verbosity_greater m_e l \<longleftrightarrow> level_code l < level_code m_e"

definition toLevel :: "level \<Rightarrow> level" where
  "toLevel m_e = m_e"

lemma level_code_inj: "level_code a = level_code b \<longleftrightarrow> a = b"
  by (cases a; cases b) simp_all

lemma comparisons:
  "verbosity_less a b = (a < b)" "verbosity_less_eq a b = (a \<le> b)" "verbosity_eq a b = (a = b)"
  "verbosity_greater_eq a b = (b \<le> a)" "verbosity_greater a b = (b < a)"
  by (simp_all add: verbosity_less_def verbosity_less_eq_def verbosity_eq_def verbosity_greater_eq_def
      verbosity_greater_def less_eq_level_def less_level_def level_code_inj)

text \<open>The two conversions agree on the numbers both can take, and are monotone.\<close>

lemma conversions_agree: "Verbosity_uint u old = Verbosity_int (uint u) old"
  using uint_cases_three [of u]
  by (elim disjE) (simp_all add: Verbosity_uint_def Verbosity_int_def fromUint_def fromInt_def word_le_def)

lemma Verbosity_int_mono: "i \<le> j \<Longrightarrow> verbosity_less_eq (Verbosity_int i old) (Verbosity_int j old')"
  by (auto simp: verbosity_less_eq_def Verbosity_int_def fromInt_def)

end
