(* ===== verification/MapManager.thy ===== *)
theory MapManager
  imports StdString StdContainers VerbosityLevel
begin

section \<open>MapManager (include/MapManager.h, src/MapManager.cpp)\<close>

text \<open>
  The core of the tracker: a map from keys to their details (\<open>m_pKeyMap\<close>) and a bounded multimap from
  frequencies to keys (\<open>m_pFrequencyMap\<close>, the ranking). Every operation holds \<open>m_mapMutex\<close> for its
  whole body, so it is one function on the state. \<open>m_writingData\<close> is the flag the condition variable
  is about; a reader called while it is not 0 stays in \<open>wait\<close> (\<^const>\<open>Waits\<close>). The field
  \<open>m_mapCondition\<close> counts the calls of \<open>notify_one\<close>. Output to \<open>std::cout\<close> under
  \<open>m_verbosity\<close> is not part of the state.
\<close>

subsection \<open>State\<close>

record key_details =
  kd_url :: string
  kd_port :: uint
  kd_frequency :: ulong

record key_frequency =
  kf_key :: string
  kf_frequency :: string

type_synonym strdetailsMap = "(string \<times> key_details) list"
type_synonym ulongstrMap = "(ulong \<times> string) list"

record map_manager =
  m_verbosity :: level
  m_baseReportElementNumber :: ushort
  m_maxReportElementNumber :: ushort
  m_pKeyMap :: strdetailsMap
  m_pFrequencyMap :: ulongstrMap
  m_writingData :: int
  m_mapCondition :: nat

subsection \<open>Construction and the getters\<close>

definition MapManager_default :: map_manager where
  "MapManager_default =
     \<lparr>m_verbosity = fromInt 0 Error, m_baseReportElementNumber = 10,
      m_maxReportElementNumber = 20, m_pKeyMap = [], m_pFrequencyMap = [],
      m_writingData = 0, m_mapCondition = 0\<rparr>"

definition MapManager_new :: "uint \<Rightarrow> uint \<Rightarrow> uint \<Rightarrow> map_manager" where
  "MapManager_new n m logLevel =
     \<lparr>m_verbosity = fromUint logLevel Error, m_baseReportElementNumber = ucast n,
      m_maxReportElementNumber = ucast (if n + 4 < m then m else n + 4),
      m_pKeyMap = [], m_pFrequencyMap = [], m_writingData = 0, m_mapCondition = 0\<rparr>"

definition getTopKeyReportBaseSize :: "map_manager \<Rightarrow> uint" where
  "getTopKeyReportBaseSize mm = ucast (m_baseReportElementNumber mm)"

definition getTopKeyReportActualSize :: "map_manager \<Rightarrow> uint" where
  "getTopKeyReportActualSize mm = word_of_nat (length (m_pFrequencyMap mm))"

definition getTopKeyReportMaxSize :: "map_manager \<Rightarrow> uint" where
  "getTopKeyReportMaxSize mm = ucast (m_maxReportElementNumber mm)"

definition getTotalKeyNumber :: "map_manager \<Rightarrow> uint" where
  "getTotalKeyNumber mm = word_of_nat (length (m_pKeyMap mm))"

definition notify_one :: "map_manager \<Rightarrow> map_manager" where
  "notify_one mm = mm\<lparr>m_mapCondition := Suc (m_mapCondition mm)\<rparr>"

subsection \<open>addOrUpdateKey\<close>

text \<open>The scan through the ranking's pairs of one frequency, shared with \<open>isHotKey\<close>.\<close>

function rank_scan :: "ulongstrMap \<Rightarrow> string \<Rightarrow> ulong \<Rightarrow> nat \<Rightarrow> nat" where
  "rank_scan fm key orderNo it =
     (if it < length fm \<and> snd (fm ! it) \<noteq> key \<and> fst (fm ! it) = orderNo
      then rank_scan fm key orderNo (Suc it) else it)"
  by pat_completeness auto
termination
  by (relation "measure (\<lambda>(fm, key, orderNo, it). length fm - it)") auto

declare rank_scan.simps [simp del]

text \<open>The size maintenance loop: \<open>erase(begin)\<close> while the ranking is longer than the maximum.\<close>

function trim_ranking :: "nat \<Rightarrow> ulongstrMap \<Rightarrow> ulongstrMap" where
  "trim_ranking mx fm = (if mx < length fm then trim_ranking mx (erase_at 0 fm) else fm)"
  by pat_completeness auto
termination
  by (relation "measure (\<lambda>(mx, fm). length fm)") auto

declare trim_ranking.simps [simp del]

definition remove_ranked :: "ulong \<Rightarrow> string \<Rightarrow> ulongstrMap \<Rightarrow> ulongstrMap" where
  "remove_ranked prevOrderNo key fm =
     (let itRanking = rank_scan fm key prevOrderNo (find_key prevOrderNo fm)
      in if itRanking \<noteq> length fm \<and> fst (fm ! itRanking) = prevOrderNo
         then erase_at itRanking fm else fm)"

definition addOrUpdateKey :: "string \<Rightarrow> string \<Rightarrow> uint \<Rightarrow> map_manager \<Rightarrow> map_manager" where
  "addOrUpdateKey key url nPort mm =
     (let km = m_pKeyMap mm;
          itKeys = lower_bound key km;
          found = (itKeys \<noteq> length km \<and> fst (km ! itKeys) = key);
          prevOrderNo = (if found then kd_frequency (snd (km ! itKeys)) else 0);
          orderNo = (if found then 1 + prevOrderNo else 1);
          details = \<lparr>kd_url = url, kd_port = nPort, kd_frequency = orderNo\<rparr>;
          mm1 = mm\<lparr>m_writingData := 1, m_pKeyMap := insert_or_assign key details km\<rparr>;
          fm = m_pFrequencyMap mm;
          lowestInTopRank = (if fm = [] then 1 else fst (fm ! 0));
          actualSize = (word_of_nat (length fm) :: uint)
      in if orderNo \<le> lowestInTopRank \<and> ucast (m_maxReportElementNumber mm) \<le> actualSize
         then notify_one (mm1\<lparr>m_writingData := 0\<rparr>)
         else
           let fm1 = (if 0 < prevOrderNo then remove_ranked prevOrderNo key fm else fm);
               fm2 = multimap_insert orderNo key fm1;
               fm3 = trim_ranking (unat (m_maxReportElementNumber mm)) fm2
           in notify_one (mm1\<lparr>m_pFrequencyMap := fm3, m_writingData := 0\<rparr>))"

subsection \<open>setTopKeyReportBaseSize\<close>

definition setTopKeyReportBaseSize :: "ushort \<Rightarrow> map_manager \<Rightarrow> map_manager" where
  "setTopKeyReportBaseSize newBase mm =
     (let mm1 = mm\<lparr>m_writingData := 1\<rparr>;
          mm2 = (if m_maxReportElementNumber mm < newBase
                 then mm1\<lparr>m_baseReportElementNumber := m_maxReportElementNumber mm\<rparr>
                 else mm1\<lparr>m_baseReportElementNumber := newBase\<rparr>)
      in mm2\<lparr>m_writingData := 0\<rparr>)"

subsection \<open>The readers\<close>

definition isHotKey :: "string \<Rightarrow> map_manager \<Rightarrow> bool outcome" where
  "isHotKey key mm =
     (if m_writingData mm \<noteq> 0 then Waits
      else
        let km = m_pKeyMap mm; itKeys = find_key key km
        in if itKeys = length km then Returns False
           else
             let orderNo = kd_frequency (snd (km ! itKeys));
                 fm = m_pFrequencyMap mm;
                 lowestInTopRank = (if fm = [] then 0 else fst (fm ! 0))
             in if orderNo < lowestInTopRank then Returns False
                else
                  let itRanking = find_key orderNo fm
                  in if itRanking = length fm then Returns False
                     else
                       let it = rank_scan fm key orderNo itRanking
                       in Returns (it \<noteq> length fm \<and> fst (fm ! it) = orderNo))"

text \<open>
  A reverse iterator is the number of pairs before its base: \<open>rbegin\<close> is the length, \<open>rend\<close> is 0, and it
  refers to the pair just before the base.
\<close>

fun report_loop :: "ulongstrMap \<Rightarrow> ushort \<Rightarrow> nat \<Rightarrow> uint \<Rightarrow> key_frequency list \<Rightarrow> key_frequency list" where
  "report_loop fm base 0 index vec = vec"
| "report_loop fm base (Suc pos) index vec =
     (if index < ucast base
      then report_loop fm base pos (index + 1)
             (vec @ [\<lparr>kf_key = snd (fm ! pos), kf_frequency = to_string (unat (fst (fm ! pos)))\<rparr>])
      else vec)"

definition getTopHotkeys :: "map_manager \<Rightarrow> key_frequency list \<Rightarrow> key_frequency list outcome" where
  "getTopHotkeys mm vec =
     (if m_writingData mm \<noteq> 0 then Waits
      else Returns (report_loop (m_pFrequencyMap mm) (m_baseReportElementNumber mm)
                      (length (m_pFrequencyMap mm)) 0 vec))"

subsection \<open>purge and zap\<close>

text \<open>
  The loop of \<open>purge\<close>. Erasing the pair the reverse iterator refers to moves the pairs behind it one
  place down, so the iterator then refers to the pair before the erased one, and the increment skips
  that pair. When the erased pair was the first one, \<open>rend\<close> was built on it and the increment leaves the
  sequence: the behaviour is undefined.
\<close>

function purge_loop ::
  "nat \<Rightarrow> strdetailsMap \<Rightarrow> nat \<Rightarrow> nat \<Rightarrow> ulongstrMap \<Rightarrow> strdetailsMap
     \<Rightarrow> (nat \<times> ulongstrMap \<times> strdetailsMap) outcome" where
  "purge_loop n km i itRev fm newKm =
     (if itRev \<noteq> 0 \<and> i < n then
        let key = snd (fm ! (itRev - 1)); itKeys = find_key key km
        in if itKeys = length km
           then (if itRev = 1 then Undefined
                 else purge_loop n km (Suc i) (itRev - 2) (erase_at (itRev - 1) fm) newKm)
           else purge_loop n km (Suc i) (itRev - 1) fm (map_insert key (snd (km ! itKeys)) newKm)
      else Returns (itRev, fm, newKm))"
  by pat_completeness auto
termination
  by (relation "measure (\<lambda>(n, km, i, itRev, fm, newKm). itRev)") auto

declare purge_loop.simps [simp del]

definition purge_length :: "ushort \<Rightarrow> map_manager \<Rightarrow> nat" where
  "purge_length newFrequencyMapLength mm =
     (if m_maxReportElementNumber mm < newFrequencyMapLength then unat (m_maxReportElementNumber mm)
      else if newFrequencyMapLength < m_baseReportElementNumber mm
      then unat (m_baseReportElementNumber mm)
      else unat newFrequencyMapLength)"

definition purge :: "ushort \<Rightarrow> map_manager \<Rightarrow> map_manager outcome" where
  "purge newFrequencyMapLength mm =
     (case purge_loop (purge_length newFrequencyMapLength mm) (m_pKeyMap mm) 0
             (length (m_pFrequencyMap mm)) (m_pFrequencyMap mm) [] of
        Returns (itRev, fm, newKm) \<Rightarrow>
          Returns (notify_one (mm\<lparr>
            m_pFrequencyMap := (if itRev \<noteq> 0 then erase_range 0 (itRev - 1) fm else fm),
            m_pKeyMap := newKm,
            m_writingData := 0\<rparr>))
      | Throws e \<Rightarrow> Throws e
      | Waits \<Rightarrow> Waits
      | Undefined \<Rightarrow> Undefined
      | Terminates \<Rightarrow> Terminates)"

definition zap :: "map_manager \<Rightarrow> map_manager" where
  "zap mm = notify_one (mm\<lparr>m_pFrequencyMap := [], m_pKeyMap := [], m_writingData := 0\<rparr>)"

end
