(* ===== verification/MapManagerRank.thy ===== *)
theory MapManagerRank
  imports MapManager
begin

section \<open>The ranking operations and the ranking invariant\<close>

text \<open>
  The two loops of \<open>addOrUpdateKey\<close> in closed form, the invariant that ties the ranking to the key map,
  and its preservation by every operation that keeps it.
\<close>

definition frequency_of :: "map_manager \<Rightarrow> string \<Rightarrow> nat" where
  "frequency_of mm k =
     (case map_of (m_pKeyMap mm) k of None \<Rightarrow> 0 | Some d \<Rightarrow> unat (kd_frequency d))"

text \<open>The frequency word of a key, 0 for a key that is not in the map.\<close>

definition prev_order :: "string \<Rightarrow> map_manager \<Rightarrow> ulong" where
  "prev_order key mm =
     (case map_of (m_pKeyMap mm) key of None \<Rightarrow> 0 | Some d \<Rightarrow> kd_frequency d)"

text \<open>
  The ranking agrees with a frequency function: it is sorted, ranks no key twice, carries each key's
  frequency, holds at most \<open>mx\<close> pairs, and leaves a counted key out only when it is full and ranks
  nothing below that key.
\<close>

definition ranked :: "nat \<Rightarrow> (string \<Rightarrow> ulong) \<Rightarrow> ulongstrMap \<Rightarrow> bool" where
  "ranked mx c fm \<longleftrightarrow>
     sorted (map fst fm) \<and> distinct (map snd fm)
   \<and> (\<forall>p \<in> set fm. c (snd p) = fst p \<and> 0 < fst p)
   \<and> length fm \<le> mx
   \<and> (\<forall>k. 0 < c k \<longrightarrow> k \<notin> snd ` set fm \<longrightarrow> length fm = mx \<and> (\<forall>p \<in> set fm. c k \<le> fst p))"

text \<open>The invariant of the manager between calls.\<close>

definition rank_inv :: "map_manager \<Rightarrow> bool" where
  "rank_inv mm \<longleftrightarrow>
     wf_map (m_pKeyMap mm)
   \<and> (\<forall>q \<in> set (m_pKeyMap mm). 0 < kd_frequency (snd q))
   \<and> ranked (unat (m_maxReportElementNumber mm)) (\<lambda>k. prev_order k mm) (m_pFrequencyMap mm)
   \<and> m_writingData mm = 0"

subsection \<open>Closed forms of the loops\<close>

lemma trim_ranking_drop: "trim_ranking mx fm = drop (length fm - mx) fm"
proof (induction mx fm rule: trim_ranking.induct)
  case (1 mx fm)
  show ?case
  proof (cases "mx < length fm")
    case True
    then have "trim_ranking mx fm = drop (length (tl fm) - mx) (tl fm)"
      using 1 by (simp add: trim_ranking.simps [of mx fm])
    also have "\<dots> = drop (Suc (length (tl fm) - mx)) fm" by (simp add: drop_Suc)
    also have "Suc (length (tl fm) - mx) = length fm - mx" using True by (cases fm) auto
    finally show ?thesis .
  qed (simp add: trim_ranking.simps [of mx fm])
qed

lemma rank_scan_takeWhile:
  "rank_scan fm key ord i = i + length (takeWhile (\<lambda>p. snd p \<noteq> key \<and> fst p = ord) (drop i fm))"
proof (induction fm key ord i rule: rank_scan.induct)
  case (1 fm key ord i)
  show ?case
  proof (cases "i < length fm \<and> snd (fm ! i) \<noteq> key \<and> fst (fm ! i) = ord")
    case True
    then have "rank_scan fm key ord i =
        Suc i + length (takeWhile (\<lambda>p. snd p \<noteq> key \<and> fst p = ord) (drop (Suc i) fm))"
      using 1 by (simp add: rank_scan.simps [of fm key ord i])
    moreover have "drop i fm = fm ! i # drop (Suc i) fm" using True by (simp add: Cons_nth_drop_Suc)
    ultimately show ?thesis using True by simp
  next
    case False
    then have "takeWhile (\<lambda>p. snd p \<noteq> key \<and> fst p = ord) (drop i fm) = []"
      by (cases "i < length fm") (auto simp: Cons_nth_drop_Suc [symmetric])
    with False show ?thesis by (auto simp: rank_scan.simps [of fm key ord i])
  qed
qed

text \<open>A sorted list falls into the pairs below, at and above a frequency.\<close>

lemma sorted_split3:
  fixes ord :: "'f::linorder"
  assumes "sorted (map fst fm)"
  obtains A M C where "fm = A @ M @ C" "\<forall>p \<in> set A. fst p < ord" "\<forall>p \<in> set M. fst p = ord"
    "\<forall>p \<in> set C. ord < fst p"
proof
  let ?A = "takeWhile (\<lambda>p. fst p < ord) fm" and ?B = "dropWhile (\<lambda>p. fst p < ord) fm"
  let ?M = "takeWhile (\<lambda>p. fst p \<le> ord) ?B" and ?C = "dropWhile (\<lambda>p. fst p \<le> ord) ?B"
  have above: "\<forall>p \<in> set D. a \<le> fst p"
    if "sorted (map fst D)" "D \<noteq> [] \<Longrightarrow> a \<le> fst (hd D)" for D :: "('f \<times> 'b) list" and a
    using that by (cases D) auto
  have sB: "sorted (map fst ?B)" using assms by (rule sorted_map_dropWhile)
  then have B: "\<forall>p \<in> set ?B. ord \<le> fst p"
    by (rule above) (metis hd_dropWhile not_less)
  show "fm = ?A @ ?M @ ?C" by simp
  show "\<forall>p \<in> set ?A. fst p < ord" by (auto dest: set_takeWhileD)
  show "\<forall>p \<in> set ?M. fst p = ord"
    using B by (auto dest!: set_takeWhileD intro: order.antisym)
  show "\<forall>p \<in> set ?C. ord < fst p"
  proof (cases ?C)
    case (Cons c cs)
    then have "ord < fst c" using hd_dropWhile [of "\<lambda>p. fst p \<le> ord" ?B] by simp
    moreover have "sorted (map fst ?C)" using sB by (rule sorted_map_dropWhile)
    then have "\<forall>p \<in> set ?C. fst c \<le> fst p" by (rule above) (simp add: Cons)
    ultimately show ?thesis by auto
  next
    case Nil
    then show ?thesis by (metis empty_iff list.set(1))
  qed
qed

lemma find_key_split3:
  assumes "\<forall>p \<in> set A. fst p < ord" "\<forall>p \<in> set M. fst p = ord" "\<forall>p \<in> set C. ord < fst p"
  shows "find_key ord (A @ M @ C) = (if M = [] then length (A @ M @ C) else length A)"
proof -
  have "takeWhile (\<lambda>p. fst p < ord) (A @ M @ C) = A"
    using assms by (cases M; cases C) (auto simp: takeWhile_append)
  then have "lower_bound ord (A @ M @ C) = length A" by (simp add: lower_bound_def)
  then show ?thesis
    using assms by (cases M; cases C) (auto simp: find_key_def nth_append)
qed

text \<open>
  The search for a pair: it stops on the first pair with this frequency and key, and nowhere if there
  is none.
\<close>

lemma rank_search:
  fixes ord :: ulong and key :: string
  assumes "sorted (map fst fm)"
  defines "it \<equiv> rank_scan fm key ord (find_key ord fm)"
  shows "if (ord, key) \<in> set fm
         then it \<noteq> length fm \<and> fst (fm ! it) = ord \<and> erase_at it fm = remove1 (ord, key) fm
         else it = length fm \<or> fst (fm ! it) \<noteq> ord"
proof -
  let ?Q = "\<lambda>p. snd p \<noteq> key \<and> fst p = ord"
  obtain A M C where fm: "fm = A @ M @ C" and A: "\<forall>p \<in> set A. fst p < ord"
    and M: "\<forall>p \<in> set M. fst p = ord" and C: "\<forall>p \<in> set C. ord < fst p"
    using assms(1) by (rule sorted_split3)
  have it: "it = (if M = [] then length fm else length A + length (takeWhile ?Q (M @ C)))"
    using find_key_split3 [OF A M C] by (simp add: it_def fm rank_scan_takeWhile)
  show ?thesis
  proof (cases "(ord, key) \<in> set M")
    case True
    then obtain M1 M2 where split: "M = M1 @ (ord, key) # M2" and M1: "(ord, key) \<notin> set M1"
      by (meson split_list_first)
    have "takeWhile ?Q (M @ C) = M1"
      using M M1 by (force simp: split takeWhile_append takeWhile_eq_all_conv)
    then have "it = length (A @ M1)" using it split by simp
    moreover have "fm = (A @ M1) @ (ord, key) # (M2 @ C)" by (simp add: fm split)
    moreover have "(ord, key) \<notin> set (A @ M1)" using A M1 by auto
    ultimately show ?thesis by (simp add: erase_at_def remove1_append nth_append)
  next
    case False
    have "takeWhile ?Q (M @ C) = M"
      using M C False by (cases C) (auto simp: takeWhile_append takeWhile_eq_all_conv)
    then have "it = length fm \<or> it = length (A @ M) \<and> C \<noteq> []" using it fm by auto
    moreover have "C \<noteq> [] \<Longrightarrow> ord < fst (fm ! length (A @ M))"
      using C by (cases C) (auto simp: fm nth_append)
    moreover have "(ord, key) \<notin> set fm" using A C False by (auto simp: fm)
    ultimately show ?thesis by auto
  qed
qed

lemma remove_ranked_remove1:
  "sorted (map fst fm) \<Longrightarrow> remove_ranked ord key fm = remove1 (ord, key) fm"
  using rank_search [where fm = fm and ord = ord and key = key] by (auto simp: remove_ranked_def Let_def remove1_idem split: if_splits)

subsection \<open>addOrUpdateKey, read off the key map\<close>

definition kept_out :: "string \<Rightarrow> map_manager \<Rightarrow> bool" where
  "kept_out key mm \<longleftrightarrow>
     (let fm = m_pFrequencyMap mm
      in 1 + prev_order key mm \<le> (if fm = [] then 1 else fst (fm ! 0))
         \<and> ucast (m_maxReportElementNumber mm) \<le> (word_of_nat (length fm) :: uint))"

definition ranking_after :: "string \<Rightarrow> map_manager \<Rightarrow> ulongstrMap" where
  "ranking_after key mm =
     (let fm = m_pFrequencyMap mm; prev = prev_order key mm;
          fm2 = multimap_insert (1 + prev) key (if 0 < prev then remove1 (prev, key) fm else fm)
      in if kept_out key mm then fm
         else drop (length fm2 - unat (m_maxReportElementNumber mm)) fm2)"

lemma addOrUpdateKey_eq:
  assumes "wf_map (m_pKeyMap mm)" "wf_multimap (m_pFrequencyMap mm)"
  shows "addOrUpdateKey key url nPort mm =
    mm\<lparr>m_pKeyMap := insert_or_assign key
          \<lparr>kd_url = url, kd_port = nPort, kd_frequency = 1 + prev_order key mm\<rparr> (m_pKeyMap mm),
       m_pFrequencyMap := ranking_after key mm, m_writingData := 0,
       m_mapCondition := Suc (m_mapCondition mm)\<rparr>"
proof -
  let ?km = "m_pKeyMap mm"
  let ?i = "lower_bound key ?km"
  have found: "(?i \<noteq> length ?km \<and> fst (?km ! ?i) = key) \<longleftrightarrow> map_of ?km key \<noteq> None"
    by (rule lower_bound_found_iff [OF assms(1)])
  have prev: "(if ?i \<noteq> length ?km \<and> fst (?km ! ?i) = key then kd_frequency (snd (?km ! ?i)) else 0)
      = prev_order key mm"
    unfolding found using lower_bound_found_snd [OF assms(1), of key]
    by (auto simp: prev_order_def)
  have ord: "(if ?i \<noteq> length ?km \<and> fst (?km ! ?i) = key then 1 + prev_order key mm else 1)
      = 1 + prev_order key mm"
    unfolding found by (auto simp: prev_order_def)
  have sorted: "sorted (map fst (m_pFrequencyMap mm))" using assms(2) by (simp add: wf_multimap_def)
  have kept: "(1 + prev_order key mm \<le> (if m_pFrequencyMap mm = [] then 1 else fst (m_pFrequencyMap mm ! 0))
      \<and> ucast (m_maxReportElementNumber mm) \<le> (word_of_nat (length (m_pFrequencyMap mm)) :: uint))
      = kept_out key mm"
    by (simp add: kept_out_def Let_def)
  show ?thesis
    unfolding addOrUpdateKey_def Let_def prev ord kept remove_ranked_remove1 [OF sorted]
      trim_ranking_drop
    by (simp add: ranking_after_def notify_one_def Let_def)
qed

end
