(* ===== verification/MapManagerInv.thy ===== *)
theory MapManagerInv
  imports MapManagerRank
begin

section \<open>Every update keeps the ranking invariant\<close>

text \<open>
  The relation \<open>ranked\<close> between the ranking and the frequencies is preserved by the ranking step of
  \<open>addOrUpdateKey\<close>; the invariant of the whole state follows.
\<close>

lemma rankedI:
  assumes "sorted (map fst fm)" "distinct (map snd fm)" "length fm \<le> mx"
    and "\<And>f k. (f, k) \<in> set fm \<Longrightarrow> c k = f \<and> 0 < f"
    and "\<And>k f k'. 0 < c k \<Longrightarrow> k \<notin> snd ` set fm \<Longrightarrow> length fm = mx"
    and "\<And>k f k'. 0 < c k \<Longrightarrow> k \<notin> snd ` set fm \<Longrightarrow> (f, k') \<in> set fm \<Longrightarrow> c k \<le> f"
  shows "ranked mx c fm"
  using assms unfolding ranked_def by fastforce

lemma rankedD:
  assumes "ranked mx c fm"
  shows "sorted (map fst fm)" "distinct (map snd fm)" "length fm \<le> mx"
    and "(f, k) \<in> set fm \<Longrightarrow> c k = f" "(f, k) \<in> set fm \<Longrightarrow> 0 < f"
    and "0 < c k \<Longrightarrow> k \<notin> snd ` set fm \<Longrightarrow> length fm = mx"
    and "0 < c k \<Longrightarrow> k \<notin> snd ` set fm \<Longrightarrow> (f, k') \<in> set fm \<Longrightarrow> c k \<le> f"
  using assms unfolding ranked_def by fastforce+

lemma rank_invD:
  assumes "rank_inv mm"
  shows "wf_map (m_pKeyMap mm)"
    and "ranked (unat (m_maxReportElementNumber mm)) (\<lambda>k. prev_order k mm) (m_pFrequencyMap mm)"
    and "m_writingData mm = 0"
    and "wf_multimap (m_pFrequencyMap mm)"
  using assms by (auto simp: rank_inv_def wf_multimap_def ranked_def)

lemma prev_order_known:
  assumes "rank_inv mm"
  shows "map_of (m_pKeyMap mm) k \<noteq> None \<longleftrightarrow> 0 < prev_order k mm"
proof (cases "map_of (m_pKeyMap mm) k")
  case (Some d)
  then have "(k, d) \<in> set (m_pKeyMap mm)" by (rule map_of_SomeD)
  with assms have "0 < kd_frequency d" by (auto simp: rank_inv_def)
  with Some show ?thesis by (simp add: prev_order_def)
qed (simp add: prev_order_def)

subsection \<open>The ranking step\<close>

text \<open>Removing a key's old pair.\<close>

lemma remove_old_pair:
  assumes "ranked mx c fm"
  shows "(if 0 < c key then remove1 (c key, key) fm else fm) = filter (\<lambda>p. snd p \<noteq> key) fm"
proof -
  have d: "distinct (map snd fm)" using assms by (rule rankedD)
  have "remove1 (c key, key) fm = filter (\<lambda>p. snd p \<noteq> key) fm"
  proof (cases "(c key, key) \<in> set fm")
    case True
    then obtain xs ys where fm: "fm = xs @ (c key, key) # ys" and x: "(c key, key) \<notin> set xs"
      by (meson split_list_first)
    then have "key \<notin> snd ` set xs" "key \<notin> snd ` set ys" using d by auto
    then have "filter (\<lambda>p. snd p \<noteq> key) xs = xs" "filter (\<lambda>p. snd p \<noteq> key) ys = ys"
      by (auto simp: filter_id_conv)
    with fm x show ?thesis by (simp add: remove1_append)
  next
    case False
    then have "key \<notin> snd ` set fm" using rankedD(4) [OF assms] by auto
    then have "filter (\<lambda>p. snd p \<noteq> key) fm = fm" by (auto simp: filter_id_conv)
    with False show ?thesis by (simp add: remove1_idem)
  qed
  moreover have "filter (\<lambda>p. snd p \<noteq> key) fm = fm" if "\<not> 0 < c key"
    using rankedD(4,5) [OF assms] that by (fastforce simp: filter_id_conv)
  ultimately show ?thesis by simp
qed

lemma not_ranked_below:
  assumes "ranked mx c fm" "c key \<noteq> - 1" "1 + c key \<le> fst (fm ! 0)" "fm \<noteq> []"
  shows "key \<notin> snd ` set fm"
proof
  assume "key \<in> snd ` set fm"
  then have p: "(c key, key) \<in> set fm" using rankedD(4) [OF assms(1)] by auto
  have "fst (fm ! 0) \<le> fst (c key, key)"
    using rankedD(1) [OF assms(1)] p by (rule sorted_hd_le)
  then have "1 + c key \<le> c key" using assms(3) by simp
  with less_inc_no_wrap [OF assms(2)] show False by simp
qed

text \<open>The early return: the ranking is full and the new frequency does not beat its lowest one.\<close>

lemma ranked_kept_out:
  assumes r: "ranked mx c fm" and nw: "c key \<noteq> - 1"
    and low: "1 + c key \<le> (if fm = [] then 1 else fst (fm ! 0))" and full: "mx \<le> length fm"
  shows "ranked mx (c(key := 1 + c key)) fm"
proof -
  have out: "key \<notin> snd ` set fm"
    using not_ranked_below [OF r nw] low by (cases "fm = []") auto
  have len: "length fm = mx" using rankedD(3) [OF r] full by simp
  have below: "1 + c key \<le> f" if "(f, k) \<in> set fm" for f k
  proof -
    have "1 + c key \<le> fst (fm ! 0)" using low that by (cases "fm = []") auto
    also have "\<dots> \<le> f" using sorted_hd_le [OF rankedD(1) [OF r] that] by simp
    finally show ?thesis .
  qed
  show ?thesis
  proof (rule rankedI)
    fix f k assume "(f, k) \<in> set fm"
    then show "(c(key := 1 + c key)) k = f \<and> 0 < f"
      using out rankedD(4,5) [OF r] by (cases "k = key") force+
  next
    fix k f k' assume "0 < (c(key := 1 + c key)) k" "k \<notin> snd ` set fm" "(f, k') \<in> set fm"
    then show "(c(key := 1 + c key)) k \<le> f"
      using below rankedD(7) [OF r] by (cases "k = key") auto
  qed (use rankedD(1-3) [OF r] len in auto)
qed

text \<open>Inserting the key with its new frequency, before the size maintenance.\<close>

lemma ranked_insert:
  assumes r: "ranked mx c fm" and nw: "c key \<noteq> - 1"
  defines "fm2 \<equiv> multimap_insert (1 + c key) key (filter (\<lambda>p. snd p \<noteq> key) fm)"
  shows "sorted (map fst fm2)" "distinct (map snd fm2)"
    and "set fm2 = insert (1 + c key, key) {p \<in> set fm. snd p \<noteq> key}"
    and "length fm2 = (if key \<in> snd ` set fm then length fm else Suc (length fm))"
    and "(f, k) \<in> set fm2 \<Longrightarrow> (c(key := 1 + c key)) k = f \<and> 0 < f"
proof -
  let ?fm1 = "filter (\<lambda>p. snd p \<noteq> key) fm"
  have "sorted (map fst ?fm1)" using rankedD(1) [OF r] by (rule sorted_filter)
  then show "sorted (map fst fm2)" unfolding fm2_def by (rule std_multimap.put_sorted)
  have d1: "distinct (map snd ?fm1)" using rankedD(2) [OF r] by (rule distinct_map_filter)
  then show d2: "distinct (map snd fm2)"
    unfolding fm2_def by (rule std_multimap.put_distinct_keys) auto
  show set2: "set fm2 = insert (1 + c key, key) {p \<in> set fm. snd p \<noteq> key}"
    by (auto simp: fm2_def std_multimap.put_set)
  show "length fm2 = (if key \<in> snd ` set fm then length fm else Suc (length fm))"
  proof -
    have "length fm2 = card (snd ` set fm2)" using d2 by (metis distinct_card length_map set_map)
    also have "snd ` set fm2 = insert key (snd ` set fm)" unfolding set2 by force
    also have "card \<dots> = (if key \<in> snd ` set fm then length fm else Suc (length fm))"
      using rankedD(2) [OF r] by (auto simp: card_insert_if dest: distinct_card)
    finally show ?thesis .
  qed
  assume p: "(f, k) \<in> set fm2"
  have "0 < 1 + c key" using less_inc_no_wrap [OF nw] by (rule order.strict_trans1 [OF word_zero_le])
  then show "(c(key := 1 + c key)) k = f \<and> 0 < f"
    using p rankedD(4,5) [OF r] by (auto simp: set2)
qed

text \<open>The ranking after the insertion, when it still fits and when its first pair is cut off.\<close>

lemma ranked_inserted_fits:
  assumes r: "ranked mx c fm" and nw: "c key \<noteq> - 1"
  defines "fm2 \<equiv> multimap_insert (1 + c key) key (filter (\<lambda>p. snd p \<noteq> key) fm)"
  assumes fits: "length fm2 \<le> mx"
  shows "ranked mx (c(key := 1 + c key)) (drop (length fm2 - mx) fm2)"
proof -
  note ins = ranked_insert [OF r nw, folded fm2_def]
  have drop0: "drop (length fm2 - mx) fm2 = fm2" using fits by simp
  have old: "length fm = mx \<and> key \<in> snd ` set fm \<and> (\<forall>(f, k') \<in> set fm. c k \<le> f)"
    if "0 < c k" "k \<noteq> key" "k \<notin> snd ` set fm2" for k
  proof -
    have "k \<notin> snd ` set fm" using that(2,3) by (auto simp: ins(3))
    then have "length fm = mx" "\<forall>(f, k') \<in> set fm. c k \<le> f"
      using rankedD(6,7) [OF r that(1)] by auto
    with fits ins(4) show ?thesis by (auto split: if_splits)
  qed
  show ?thesis unfolding drop0
  proof (rule rankedI)
    fix k f k' assume k: "0 < (c(key := 1 + c key)) k" "k \<notin> snd ` set fm2"
    then have "k \<noteq> key" by (auto simp: ins(3))
    note o = old [OF _ this k(2)]
    show "length fm2 = mx" using k \<open>k \<noteq> key\<close> o ins(4) by simp
    assume "(f, k') \<in> set fm2"
    moreover have "c k \<le> 1 + c key"
    proof -
      obtain f' where "(f', key) \<in> set fm" using k \<open>k \<noteq> key\<close> o by auto
      then have "c k \<le> c key" using k \<open>k \<noteq> key\<close> o rankedD(4) [OF r] by fastforce
      then show ?thesis using less_inc_no_wrap [OF nw] by simp
    qed
    ultimately show "(c(key := 1 + c key)) k \<le> f" using k \<open>k \<noteq> key\<close> o by (auto simp: ins(3))
  qed (use ins fits in auto)
qed

lemma ranked_inserted_full:
  assumes r: "ranked mx c fm" and nw: "c key \<noteq> - 1"
    and beats: "\<not> (1 + c key \<le> (if fm = [] then 1 else fst (fm ! 0)) \<and> mx \<le> length fm)"
  defines "fm2 \<equiv> multimap_insert (1 + c key) key (filter (\<lambda>p. snd p \<noteq> key) fm)"
  assumes full: "\<not> length fm2 \<le> mx"
  shows "ranked mx (c(key := 1 + c key)) (drop (length fm2 - mx) fm2)"
proof -
  note ins = ranked_insert [OF r nw, folded fm2_def]
  have out: "key \<notin> snd ` set fm" and len2: "length fm2 = Suc mx" and len: "length fm = mx"
    using full ins(4) rankedD(3) [OF r] by (auto split: if_splits)
  have tl: "drop (length fm2 - mx) fm2 = tl fm2" by (simp add: len2 drop_Suc)
  have fm1: "filter (\<lambda>p. snd p \<noteq> key) fm = fm" using out by (auto simp: filter_id_conv)
  show ?thesis
  proof (cases fm)
    case Nil
    then have "tl fm2 = []" "mx = 0" using len len2 by (cases fm2; simp)+
    then show ?thesis unfolding tl by (simp add: ranked_def)
  next
    case (Cons p fm')
    have beat: "fst p < 1 + c key" using beats len Cons by auto
    have "fm2 = multimap_insert (1 + c key) key fm" by (simp only: fm2_def fm1)
    with order.strict_implies_order [OF beat] Cons have fm2: "fm2 = p # multimap_insert (1 + c key) key fm'" by simp
    have tl2: "tl fm2 = multimap_insert (1 + c key) key fm'" using fm2 by simp
    have above: "fst p \<le> f" if "(f, k') \<in> set (tl fm2)" for f k'
      using ins(1) fm2 that by (cases fm2) auto
    show ?thesis unfolding tl
    proof (rule rankedI)
      fix k f k' assume k: "0 < (c(key := 1 + c key)) k" "k \<notin> snd ` set (tl fm2)"
      have "k \<noteq> key" using k(2) by (auto simp: tl2 std_multimap.put_set)
      have "c k \<le> fst p"
      proof (cases "k = snd p")
        case True
        then show ?thesis using rankedD(4) [OF r, of "fst p" k] Cons by simp
      next
        case False
        then have "k \<notin> snd ` set fm" using k(2) Cons by (auto simp: tl2 std_multimap.put_set)
        then show ?thesis using rankedD(7) [OF r, of k "fst p" "snd p"] k \<open>k \<noteq> key\<close> Cons by simp
      qed
      then show "(c(key := 1 + c key)) k \<le> f" if "(f, k') \<in> set (tl fm2)"
        using above [OF that] \<open>k \<noteq> key\<close> by simp
      show "length (tl fm2) = mx" using len2 by simp
    next
      fix f k assume "(f, k) \<in> set (tl fm2)"
      then have "(f, k) \<in> set fm2" using fm2 by (cases fm2) auto
      then show "(c(key := 1 + c key)) k = f \<and> 0 < f" by (rule ins(5))
    next
      show "sorted (map fst (tl fm2))" "distinct (map snd (tl fm2))" "length (tl fm2) \<le> mx"
        using ins(1,2) len2 fm2 by (cases fm2; simp)+
    qed
  qed
qed

lemma ranked_inserted:
  assumes r: "ranked mx c fm" and nw: "c key \<noteq> - 1"
    and beats: "\<not> (1 + c key \<le> (if fm = [] then 1 else fst (fm ! 0)) \<and> mx \<le> length fm)"
  defines "fm2 \<equiv> multimap_insert (1 + c key) key (filter (\<lambda>p. snd p \<noteq> key) fm)"
  shows "ranked mx (c(key := 1 + c key)) (drop (length fm2 - mx) fm2)"
  unfolding fm2_def
  using ranked_inserted_fits [where mx = mx and c = c and fm = fm and key = key, OF r nw]
    ranked_inserted_full [where mx = mx and c = c and fm = fm and key = key, OF r nw beats] by blast

subsection \<open>Operations on the whole state\<close>

lemma ranking_after_ranked:
  assumes inv: "rank_inv mm" and nw: "prev_order key mm \<noteq> - 1"
  shows "ranked (unat (m_maxReportElementNumber mm))
    ((\<lambda>k. prev_order k mm)(key := 1 + prev_order key mm)) (ranking_after key mm)"
proof -
  let ?mx = "unat (m_maxReportElementNumber mm)" and ?fm = "m_pFrequencyMap mm"
  have r: "ranked ?mx (\<lambda>k. prev_order k mm) ?fm" using inv by (rule rank_invD)
  have len: "length ?fm \<le> ?mx" using r by (rule rankedD)
  also have "?mx < 2 ^ 16" using unsigned_less [of "m_maxReportElementNumber mm"] by simp
  finally have "unat (word_of_nat (length ?fm) :: uint) = length ?fm"
    by (intro unat_of_nat_small) simp
  then have "ucast (m_maxReportElementNumber mm) \<le> (word_of_nat (length ?fm) :: uint)
      \<longleftrightarrow> ?mx \<le> length ?fm"
    by (simp add: word_le_unat unat_ucast_up)
  then have kept: "kept_out key mm \<longleftrightarrow>
      1 + prev_order key mm \<le> (if ?fm = [] then 1 else fst (?fm ! 0)) \<and> ?mx \<le> length ?fm"
    by (simp add: kept_out_def Let_def)
  show ?thesis
  proof (cases "kept_out key mm")
    case True
    then show ?thesis using ranked_kept_out [OF r nw] kept by (simp add: ranking_after_def)
  next
    case False
    then have "ranked ?mx ((\<lambda>k. prev_order k mm)(key := 1 + prev_order key mm))
        (drop (length (multimap_insert (1 + prev_order key mm) key (filter (\<lambda>p. snd p \<noteq> key) ?fm)) - ?mx)
          (multimap_insert (1 + prev_order key mm) key (filter (\<lambda>p. snd p \<noteq> key) ?fm)))"
      using kept by (intro ranked_inserted [OF r nw]) blast
    then show ?thesis
      using False remove_old_pair [OF r, of key] by (simp add: ranking_after_def Let_def)
  qed
qed

lemma prev_order_addOrUpdateKey:
  assumes "rank_inv mm"
  shows "prev_order k (addOrUpdateKey key url nPort mm)
    = ((\<lambda>k. prev_order k mm)(key := 1 + prev_order key mm)) k"
  using rank_invD(1,4) [OF assms]
  by (simp add: addOrUpdateKey_eq prev_order_def map_of_insert_or_assign)

lemma rank_inv_addOrUpdateKey:
  assumes inv: "rank_inv mm" and nw: "prev_order key mm \<noteq> - 1"
  shows "rank_inv (addOrUpdateKey key url nPort mm)"
proof -
  have eq: "m_pFrequencyMap (addOrUpdateKey key url nPort mm) = ranking_after key mm"
    "m_maxReportElementNumber (addOrUpdateKey key url nPort mm) = m_maxReportElementNumber mm"
    "m_writingData (addOrUpdateKey key url nPort mm) = 0"
    using rank_invD(1,4) [OF inv] by (simp_all add: addOrUpdateKey_eq)
  have km: "m_pKeyMap (addOrUpdateKey key url nPort mm) = insert_or_assign key
      \<lparr>kd_url = url, kd_port = nPort, kd_frequency = 1 + prev_order key mm\<rparr> (m_pKeyMap mm)"
    using rank_invD(1,4) [OF inv] by (simp add: addOrUpdateKey_eq)
  have "0 < 1 + prev_order key mm"
    using less_inc_no_wrap [OF nw] by (rule order.strict_trans1 [OF word_zero_le])
  then have "\<forall>q \<in> set (m_pKeyMap (addOrUpdateKey key url nPort mm)). 0 < kd_frequency (snd q)"
    using inv set_insert_or_assign unfolding km by (fastforce simp: rank_inv_def)
  moreover have "(\<lambda>k. prev_order k (addOrUpdateKey key url nPort mm))
      = (\<lambda>k. prev_order k mm)(key := 1 + prev_order key mm)"
    by (rule ext) (rule prev_order_addOrUpdateKey [OF inv])
  ultimately show ?thesis
    using ranking_after_ranked [OF inv nw] wf_insert_or_assign [OF rank_invD(1) [OF inv]]
    by (simp add: rank_inv_def eq km)
qed

lemma ranked_nothing: "ranked mx (\<lambda>k. 0) []"
  by (simp add: ranked_def)

lemma rank_inv_new: "rank_inv (MapManager_new n m logLevel)"
  by (simp add: MapManager_new_def rank_inv_def prev_order_def ranked_nothing)

lemma rank_inv_default: "rank_inv MapManager_default"
  by (simp add: MapManager_default_def rank_inv_def prev_order_def ranked_nothing)

lemma setTopKeyReportBaseSize_frame [simp]:
  "m_pKeyMap (setTopKeyReportBaseSize b mm) = m_pKeyMap mm"
  "m_pFrequencyMap (setTopKeyReportBaseSize b mm) = m_pFrequencyMap mm"
  "m_maxReportElementNumber (setTopKeyReportBaseSize b mm) = m_maxReportElementNumber mm"
  "m_writingData (setTopKeyReportBaseSize b mm) = 0"
  "m_mapCondition (setTopKeyReportBaseSize b mm) = m_mapCondition mm"
  "prev_order k (setTopKeyReportBaseSize b mm) = prev_order k mm"
  by (simp_all add: setTopKeyReportBaseSize_def prev_order_def Let_def)

lemma setTopKeyReportBaseSize_base:
  "m_baseReportElementNumber (setTopKeyReportBaseSize b mm) = min b (m_maxReportElementNumber mm)"
  by (auto simp: setTopKeyReportBaseSize_def Let_def min_def not_less)

lemma rank_inv_setTopKeyReportBaseSize: "rank_inv mm \<Longrightarrow> rank_inv (setTopKeyReportBaseSize b mm)"
  by (simp add: rank_inv_def)

lemma zap_frame [simp]:
  "m_pKeyMap (zap mm) = []" "m_pFrequencyMap (zap mm) = []" "m_writingData (zap mm) = 0"
  "m_maxReportElementNumber (zap mm) = m_maxReportElementNumber mm"
  "m_baseReportElementNumber (zap mm) = m_baseReportElementNumber mm"
  by (simp_all add: zap_def notify_one_def)

lemma rank_inv_zap: "rank_inv (zap mm)"
  by (simp add: rank_inv_def prev_order_def ranked_nothing)

subsection \<open>The readers under the invariant\<close>

lemma isHotKey_iff:
  assumes inv: "rank_inv mm"
  shows "isHotKey key mm = Returns (key \<in> snd ` set (m_pFrequencyMap mm))"
proof -
  let ?km = "m_pKeyMap mm" and ?fm = "m_pFrequencyMap mm"
  note wf = rank_invD(1) [OF inv] and r = rank_invD(2) [OF inv]
  have mem: "key \<in> snd ` set ?fm \<longleftrightarrow> (prev_order key mm, key) \<in> set ?fm"
    using rankedD(4) [OF r] by force
  show ?thesis
  proof (cases "map_of ?km key")
    case None
    then have "(prev_order key mm, key) \<notin> set ?fm"
      using rankedD(5) [OF r] by (fastforce simp: prev_order_def)
    then show ?thesis
      using None wf rank_invD(3) [OF inv] mem by (simp add: isHotKey_def find_key_found_iff)
  next
    case (Some d)
    then have found: "find_key key ?km \<noteq> length ?km" and d: "snd (?km ! find_key key ?km) = d"
      using wf by (auto simp: find_key_found_iff find_key_found_snd)
    have ord: "kd_frequency d = prev_order key mm" using Some by (simp add: prev_order_def)
    let ?it = "rank_scan ?fm key (prev_order key mm) (find_key (prev_order key mm) ?fm)"
    have search: "if (prev_order key mm, key) \<in> set ?fm
        then ?it \<noteq> length ?fm \<and> fst (?fm ! ?it) = prev_order key mm
        else ?it = length ?fm \<or> fst (?fm ! ?it) \<noteq> prev_order key mm"
      using rank_search [OF rankedD(1) [OF r], of "prev_order key mm" key]
      by (simp split: if_splits)
    have "(prev_order key mm, key) \<notin> set ?fm"
      if "prev_order key mm < (if ?fm = [] then 0 else fst (?fm ! 0))"
      using that sorted_hd_le [OF rankedD(1) [OF r], of "(prev_order key mm, key)"]
      by (auto split: if_splits)
    moreover have "?it = length ?fm" if "find_key (prev_order key mm) ?fm = length ?fm"
      using that by (simp add: rank_scan_takeWhile)
    ultimately show ?thesis
      using found search rank_invD(3) [OF inv]
      by (auto simp: isHotKey_def Let_def d ord mem split: if_splits)
  qed
qed

lemma report_loop_eq:
  assumes "pos \<le> length fm" "unat index + pos < 2 ^ 32"
  shows "report_loop fm base pos index vec =
    vec @ map (\<lambda>p. \<lparr>kf_key = snd p, kf_frequency = to_string (unat (fst p))\<rparr>)
            (take (unat base - unat index) (rev (take pos fm)))"
  using assms
proof (induction pos arbitrary: index vec)
  case (Suc pos)
  have b: "index < ucast base \<longleftrightarrow> unat index < unat base"
    by (simp add: word_less_unat unat_ucast_up)
  show ?case
  proof (cases "unat index < unat base")
    case True
    have i: "unat (1 + index) = Suc (unat index)" using Suc.prems by (intro unat_inc) simp
    have "unat base - unat index = Suc (unat base - Suc (unat index))" using True by simp
    moreover have "take (Suc pos) fm = take pos fm @ [fm ! pos]"
      using Suc.prems by (simp add: take_Suc_conv_app_nth)
    ultimately show ?thesis
      using Suc True i by (simp add: b add.commute [of index 1])
  qed (simp add: b)
qed simp

lemma getTopHotkeys_eq:
  assumes inv: "rank_inv mm"
  shows "getTopHotkeys mm vec = Returns (vec @
    map (\<lambda>p. \<lparr>kf_key = snd p, kf_frequency = to_string (unat (fst p))\<rparr>)
      (take (unat (m_baseReportElementNumber mm)) (rev (m_pFrequencyMap mm))))"
proof -
  have "length (m_pFrequencyMap mm) \<le> unat (m_maxReportElementNumber mm)"
    using rank_invD(2) [OF inv] by (rule rankedD)
  also have "\<dots> < 2 ^ 16" using unsigned_less [of "m_maxReportElementNumber mm"] by simp
  finally show ?thesis
    using rank_invD(3) [OF inv] by (simp add: getTopHotkeys_def report_loop_eq)
qed

end
