(* ===== verification/MapManagerSpec.thy ===== *)
theory MapManagerSpec
  imports MapManagerInv
begin

section \<open>What MapManager promises\<close>

text \<open>
  The contract of \<open>IMapManager\<close> (include/IMapManager.h) as locales, its interpretation on the model of
  \<open>MapManager\<close>, and the properties of the manager over whole sequences of calls: the counts it keeps, the
  report of the most frequent keys, the test for a hot key, the configuration and the purge.
\<close>

subsection \<open>Interfaces\<close>

text \<open>A component that counts keys exactly as long as no count reaches its limit.\<close>

locale key_counter =
  fixes record_key :: "'k \<Rightarrow> 'i \<Rightarrow> 's \<Rightarrow> 's"
    and count_of :: "'s \<Rightarrow> 'k \<Rightarrow> nat"
    and good :: "'s \<Rightarrow> bool"
    and limit :: nat
  assumes good_record: "good s \<Longrightarrow> count_of s k < limit \<Longrightarrow> good (record_key k i s)"
    and count_record: "good s \<Longrightarrow> count_of s k < limit \<Longrightarrow>
      count_of (record_key k i s) = (count_of s)(k := Suc (count_of s k))"
begin

lemma run_counts:
  assumes "good s" "\<And>k. count_of s k + count_list (map fst evs) k \<le> limit"
  shows "good (fold (\<lambda>(k, i). record_key k i) evs s)
    \<and> count_of (fold (\<lambda>(k, i). record_key k i) evs s) k = count_of s k + count_list (map fst evs) k"
  using assms
proof (induction evs arbitrary: s)
  case (Cons e evs)
  obtain x i where e: "e = (x, i)" by (cases e)
  have lt: "count_of s x < limit" using Cons.prems(2) [of x] e by simp
  note step = good_record [OF Cons.prems(1) lt, of i] count_record [OF Cons.prems(1) lt, of i]
  have "count_of (record_key x i s) k + count_list (map fst evs) k \<le> limit" for k
    using Cons.prems(2) [of k] e step(2) by (cases "k = x") auto
  with Cons.IH [OF step(1)] show ?case using e step(2) by (cases "k = x") auto
qed simp

end

text \<open>The part of the interface the message queue drives: counting keys and resizing the report.\<close>

locale map_service = key_counter record_key count_of good limit
  for record_key :: "'k \<Rightarrow> 'i \<Rightarrow> 's \<Rightarrow> 's" and count_of :: "'s \<Rightarrow> 'k \<Rightarrow> nat"
    and good :: "'s \<Rightarrow> bool" and limit :: nat +
  fixes resize :: "'b \<Rightarrow> 's \<Rightarrow> 's"
  assumes good_resize: "good s \<Longrightarrow> good (resize b s)"
    and count_resize: "count_of (resize b s) = count_of s"
begin

lemma resize_then_record:
  assumes "good s" "count_of s k < limit"
  shows "good (record_key k i (resize b s))"
    and "count_of (record_key k i (resize b s)) = count_of (record_key k i s)"
  using assms by (simp_all add: good_resize count_resize good_record count_record)

end

subsection \<open>The model implements the interface\<close>

lemma frequency_of_prev_order: "frequency_of mm k = unat (prev_order k mm)"
  by (simp add: frequency_of_def prev_order_def split: option.splits)

lemma prev_order_below: "frequency_of mm k < 2 ^ 64 - 1 \<Longrightarrow> prev_order k mm \<noteq> - 1"
  by (simp add: frequency_of_prev_order no_wrap_iff)

lemma frequency_of_addOrUpdateKey:
  assumes "rank_inv mm" "frequency_of mm key < 2 ^ 64 - 1"
  shows "frequency_of (addOrUpdateKey key url nPort mm)
    = (frequency_of mm)(key := Suc (frequency_of mm key))"
  using prev_order_addOrUpdateKey [OF assms(1), of _ key url nPort]
    unat_inc_no_wrap [OF prev_order_below [OF assms(2)]]
  by (auto simp: fun_eq_iff frequency_of_prev_order)

lemma frequency_of_setTopKeyReportBaseSize:
  "frequency_of (setTopKeyReportBaseSize b mm) = frequency_of mm"
  by (auto simp: fun_eq_iff frequency_of_prev_order)

interpretation manager: map_service "\<lambda>k (url, port). addOrUpdateKey k url port" frequency_of rank_inv
  "2 ^ 64 - 1" setTopKeyReportBaseSize
  by unfold_locales
    (auto simp: rank_inv_addOrUpdateKey prev_order_below frequency_of_addOrUpdateKey
      rank_inv_setTopKeyReportBaseSize frequency_of_setTopKeyReportBaseSize)

text \<open>A sequence of reported keys, as the server and the insertion tests produce it.\<close>

definition run_keys :: "(string \<times> string \<times> uint) list \<Rightarrow> map_manager \<Rightarrow> map_manager" where
  "run_keys evs mm = fold (\<lambda>(key, url, port). addOrUpdateKey key url port) evs mm"

lemma frequency_of_new [simp]: "frequency_of (MapManager_new n m l) k = 0"
  by (simp add: frequency_of_def MapManager_new_def)

lemma count_list_le_length: "count_list xs x \<le> length xs"
  by (induction xs) (auto simp: le_Suc_eq)

lemma run_keys_counts:
  assumes "length evs < 2 ^ 64 - 1"
  shows "rank_inv (run_keys evs (MapManager_new n m l))"
    and "frequency_of (run_keys evs (MapManager_new n m l)) k = count_list (map fst evs) k"
proof -
  have fold: "run_keys evs (MapManager_new n m l) =
      fold (\<lambda>(k, i). (\<lambda>k (url, port). addOrUpdateKey k url port) k i) evs (MapManager_new n m l)"
    by (auto simp: run_keys_def intro: arg_cong [where f = "\<lambda>f. fold f evs _"])
  have "count_list (map fst evs) k \<le> 2 ^ 64 - 1" for k
    using count_list_le_length [of "map fst evs" k] assms by simp
  then show "rank_inv (run_keys evs (MapManager_new n m l))"
    and "frequency_of (run_keys evs (MapManager_new n m l)) k = count_list (map fst evs) k"
    unfolding fold using manager.run_counts [OF rank_inv_new, where evs = evs and k = k] by simp_all
qed

subsection \<open>The ranking holds the most frequent keys\<close>

lemma ranked_frequency:
  assumes "rank_inv mm" "(f, k) \<in> set (m_pFrequencyMap mm)"
  shows "frequency_of mm k = unat f" "0 < frequency_of mm k"
  using rankedD(4,5) [OF rank_invD(2) [OF assms(1)] assms(2)]
  by (auto simp: frequency_of_prev_order word_less_unat)

lemma unranked_frequency:
  assumes "rank_inv mm" "0 < frequency_of mm k" "k \<notin> snd ` set (m_pFrequencyMap mm)"
  shows "length (m_pFrequencyMap mm) = unat (m_maxReportElementNumber mm)"
    and "k' \<in> snd ` set (m_pFrequencyMap mm) \<Longrightarrow> frequency_of mm k \<le> frequency_of mm k'"
proof -
  note r = rank_invD(2) [OF assms(1)]
  have p: "0 < prev_order k mm" using assms(2) by (simp add: frequency_of_prev_order word_less_unat)
  show "length (m_pFrequencyMap mm) = unat (m_maxReportElementNumber mm)"
    using rankedD(6) [OF r p assms(3)] .
  assume "k' \<in> snd ` set (m_pFrequencyMap mm)"
  then obtain f where f: "(f, k') \<in> set (m_pFrequencyMap mm)" by auto
  show "frequency_of mm k \<le> frequency_of mm k'"
    using rankedD(7) [OF r p assms(3) f] ranked_frequency(1) [OF assms(1) f]
    by (simp add: frequency_of_prev_order word_le_unat)
qed

lemma ranking_size:
  assumes inv: "rank_inv mm" and keys: "{k. 0 < frequency_of mm k} = K" "finite K"
  shows "length (m_pFrequencyMap mm) = min (unat (m_maxReportElementNumber mm)) (card K)"
proof -
  let ?R = "snd ` set (m_pFrequencyMap mm)"
  have sub: "?R \<subseteq> K" using ranked_frequency(2) [OF inv] keys(1) by auto
  have card: "card ?R = length (m_pFrequencyMap mm)"
    using rankedD(2) [OF rank_invD(2) [OF inv]] by (metis distinct_card length_map set_map)
  have "card ?R \<le> card K" using sub keys(2) by (rule card_mono [rotated])
  moreover have "length (m_pFrequencyMap mm) \<le> unat (m_maxReportElementNumber mm)"
    using rankedD(3) [OF rank_invD(2) [OF inv]] .
  moreover have "length (m_pFrequencyMap mm) = unat (m_maxReportElementNumber mm)" if "?R \<noteq> K"
    using that sub keys(1) unranked_frequency(1) [OF inv] by blast
  ultimately show ?thesis using card by (cases "?R = K") auto
qed

text \<open>The counted keys are the keys of the map.\<close>

lemma counted_keys:
  assumes inv: "rank_inv mm"
  shows "{k. 0 < frequency_of mm k} = fst ` set (m_pKeyMap mm)"
    and "card {k. 0 < frequency_of mm k} = length (m_pKeyMap mm)"
proof -
  have dist: "distinct (map fst (m_pKeyMap mm))" using rank_invD(1) [OF inv] by (simp add: wf_map_def)
  have pos: "0 < unat (kd_frequency d)" if "(k, d) \<in> set (m_pKeyMap mm)" for k d
    using inv that by (force simp: rank_inv_def word_less_unat)
  show keys: "{k. 0 < frequency_of mm k} = fst ` set (m_pKeyMap mm)"
  proof (intro set_eqI)
    fix k show "k \<in> {k. 0 < frequency_of mm k} \<longleftrightarrow> k \<in> fst ` set (m_pKeyMap mm)"
      using pos map_of_eq_None_iff [of "m_pKeyMap mm" k]
      by (auto simp: frequency_of_def dest!: map_of_SomeD split: option.splits intro: rev_image_eqI)
  qed
  show "card {k. 0 < frequency_of mm k} = length (m_pKeyMap mm)"
    unfolding keys using distinct_card [OF dist] by simp
qed

text \<open>A ranked key is one of the most frequent, and one that few keys reach is ranked.\<close>

lemma hot_properties:
  assumes inv: "rank_inv mm"
  defines "R \<equiv> snd ` set (m_pFrequencyMap mm)" and "mx \<equiv> unat (m_maxReportElementNumber mm)"
  shows "key \<in> R \<Longrightarrow> 0 < frequency_of mm key \<and> card {k. frequency_of mm key < frequency_of mm k} < mx"
    and "0 < frequency_of mm key \<Longrightarrow> card {k. frequency_of mm key \<le> frequency_of mm k} \<le> mx \<Longrightarrow> key \<in> R"
proof -
  have cardR: "card R = length (m_pFrequencyMap mm)" "finite R"
    using rankedD(2) [OF rank_invD(2) [OF inv]] unfolding R_def by (metis distinct_card length_map set_map) simp
  note unranked = unranked_frequency [OF inv, folded R_def mx_def]
  show "0 < frequency_of mm key \<and> card {k. frequency_of mm key < frequency_of mm k} < mx" if key: "key \<in> R"
  proof
    show "0 < frequency_of mm key" using key ranked_frequency(2) [OF inv] by (auto simp: R_def)
    have "x \<in> R" if "frequency_of mm key < frequency_of mm x" for x
      using unranked(2) [OF _ _ key, of x] that by fastforce
    then have "{k. frequency_of mm key < frequency_of mm k} \<subseteq> R - {key}" by auto
    then have "card {k. frequency_of mm key < frequency_of mm k} \<le> card (R - {key})"
      using cardR(2) by (intro card_mono) auto
    also have "\<dots> < card R" using key cardR(2) by (intro card_Diff1_less) auto
    also have "\<dots> \<le> mx" using rankedD(3) [OF rank_invD(2) [OF inv]] cardR by (simp add: mx_def)
    finally show "card {k. frequency_of mm key < frequency_of mm k} < mx" .
  qed
  show "key \<in> R" if key: "0 < frequency_of mm key" and few: "card {k. frequency_of mm key \<le> frequency_of mm k} \<le> mx"
  proof (rule ccontr)
    assume out: "key \<notin> R"
    have "{k. frequency_of mm key \<le> frequency_of mm k} \<subseteq> fst ` set (m_pKeyMap mm)"
      using key counted_keys(1) [OF inv] by auto
    then have "finite {k. frequency_of mm key \<le> frequency_of mm k}" by (rule finite_subset) simp
    moreover have "insert key R \<subseteq> {k. frequency_of mm key \<le> frequency_of mm k}"
      using unranked(2) [OF key out] by auto
    ultimately have "card (insert key R) \<le> card {k. frequency_of mm key \<le> frequency_of mm k}" by (intro card_mono)
    moreover have "card R = mx" using unranked(1) [OF key out] cardR by simp
    ultimately show False using few out cardR(2) by simp
  qed
qed

text \<open>The report in terms of the ranking: the last pairs, in descending order.\<close>

lemma report_properties:
  assumes inv: "rank_inv mm"
  obtains vec where "getTopHotkeys mm [] = Returns vec"
    and "length vec = min (unat (m_baseReportElementNumber mm)) (length (m_pFrequencyMap mm))"
    and "distinct (map kf_key vec)"
    and "\<And>e. e \<in> set vec \<Longrightarrow> 0 < frequency_of mm (kf_key e)
            \<and> kf_frequency e = to_string (frequency_of mm (kf_key e))"
    and "sorted (rev (map (\<lambda>e. frequency_of mm (kf_key e)) vec))"
    and "\<And>k e. 0 < frequency_of mm k \<Longrightarrow> k \<notin> kf_key ` set vec \<Longrightarrow> e \<in> set vec \<Longrightarrow>
            frequency_of mm k \<le> frequency_of mm (kf_key e)"
proof -
  let ?fm = "m_pFrequencyMap mm" and ?b = "unat (m_baseReportElementNumber mm)"
  let ?entry = "\<lambda>p. \<lparr>kf_key = snd p, kf_frequency = to_string (unat (fst p))\<rparr>"
  let ?top = "take ?b (rev ?fm)"
  let ?vec = "map ?entry ?top"
  note r = rank_invD(2) [OF inv]
  have fr: "frequency_of mm (snd p) = unat (fst p) \<and> 0 < frequency_of mm (snd p)"
    if "p \<in> set ?fm" for p
    using ranked_frequency [OF inv, of "fst p" "snd p"] that by simp
  have top: "set ?top \<subseteq> set ?fm" using set_take_subset [of ?b "rev ?fm"] by simp
  have sorted: "sorted (map fst (rev ?top))"
  proof -
    have "rev ?top = drop (length ?fm - ?b) ?fm" by (simp add: rev_take)
    then show ?thesis using sorted_map_drop [OF rankedD(1) [OF r]] by simp
  qed
  have keys: "map kf_key ?vec = map snd ?top" by simp
  show ?thesis
  proof (rule that [of ?vec])
    show "getTopHotkeys mm [] = Returns ?vec" using getTopHotkeys_eq [OF inv] by simp
    show "length ?vec = min ?b (length ?fm)" by simp
    show "distinct (map kf_key ?vec)"
      using rankedD(2) [OF r] unfolding keys by (metis distinct_rev distinct_take rev_map take_map)
    show "0 < frequency_of mm (kf_key e) \<and> kf_frequency e = to_string (frequency_of mm (kf_key e))"
      if "e \<in> set ?vec" for e
    proof -
      obtain p where "p \<in> set ?fm" "e = ?entry p" using \<open>e \<in> set ?vec\<close> top by auto
      then show ?thesis using fr [of p] by simp
    qed
    have "rev (map (\<lambda>e. frequency_of mm (kf_key e)) ?vec) = map unat (map fst (rev ?top))"
      using top fr by (auto simp: rev_map)
    then show "sorted (rev (map (\<lambda>e. frequency_of mm (kf_key e)) ?vec))"
      using sorted by (auto simp: sorted_map word_le_unat elim: sorted_wrt_mono_rel [rotated])
    fix k e assume k: "0 < frequency_of mm k" "k \<notin> kf_key ` set ?vec" and "e \<in> set ?vec"
    then obtain p where p: "p \<in> set ?top" "kf_key e = snd p" by auto
    show "frequency_of mm k \<le> frequency_of mm (kf_key e)"
    proof (cases "k \<in> snd ` set ?fm")
      case True
      then obtain q where q: "q \<in> set ?fm" "k = snd q" by auto
      then have "q \<notin> set ?top" using k(2) by force
      then have "q \<in> set (drop ?b (rev ?fm))"
        using q(1) by (metis UnE append_take_drop_id set_append set_rev)
      moreover have "sorted_wrt (\<lambda>x y. fst y \<le> fst x) (?top @ drop ?b (rev ?fm))"
        using rankedD(1) [OF r] by (simp add: sorted_map sorted_wrt_rev)
      then have "\<forall>x \<in> set ?top. \<forall>y \<in> set (drop ?b (rev ?fm)). fst y \<le> fst x"
        unfolding sorted_wrt_append by blast
      ultimately have "fst q \<le> fst p" using p(1) by blast
      then show ?thesis using fr [OF q(1)] fr [of p] q(2) p top by (auto simp: word_le_unat)
    next
      case False
      then show ?thesis using unranked_frequency(2) [OF inv k(1)] p top by auto
    qed
  qed
qed

subsection \<open>Properties\<close>

text \<open>
  C5. The report is the top of the key frequencies: after any sequence of reported keys,
  \<open>getTopHotkeys\<close> returns distinct reported keys, as many as the base size, the maximum and the number
  of keys allow, each with the decimal text of its exact count, in descending order of count, and no key
  outside the report was sent more often than a key in it.
\<close>

theorem top_report_correct:
  fixes n m l :: uint and evs :: "(string \<times> string \<times> uint) list"
  assumes "length evs < 2 ^ 64 - 1"
  defines "mm \<equiv> run_keys evs (MapManager_new n m l)" and "ks \<equiv> map fst evs"
  shows "\<exists>vec. getTopHotkeys mm [] = Returns vec
    \<and> length vec = min (unat (m_baseReportElementNumber mm))
        (min (unat (m_maxReportElementNumber mm)) (card (set ks)))
    \<and> distinct (map kf_key vec) \<and> kf_key ` set vec \<subseteq> set ks
    \<and> (\<forall>e \<in> set vec. kf_frequency e = to_string (count_list ks (kf_key e)))
    \<and> sorted (rev (map (\<lambda>e. count_list ks (kf_key e)) vec))
    \<and> (\<forall>k \<in> set ks - kf_key ` set vec. \<forall>e \<in> set vec. count_list ks k \<le> count_list ks (kf_key e))"
proof -
  have inv: "rank_inv mm" and freq: "frequency_of mm k = count_list ks k" for k
    using run_keys_counts [OF assms(1)] by (simp_all add: mm_def ks_def)
  have pos: "0 < count_list ks k \<longleftrightarrow> k \<in> set ks" for k using count_list_0_iff [of ks k] by auto
  have len: "length (m_pFrequencyMap mm) = min (unat (m_maxReportElementNumber mm)) (card (set ks))"
    using ranking_size [OF inv, of "set ks"] by (simp add: freq pos)
  show ?thesis
  proof (rule report_properties [OF inv], goal_cases)
    case (1 vec)
    then show ?case using len by (intro exI [of _ vec]) (auto simp: freq pos)
  qed
qed

lemma top_report_correct_witness:
  "\<exists>vec. getTopHotkeys (run_keys [(''a'', ''u'', 1), (''b'', ''u'', 2), (''a'', ''u'', 3)]
            (MapManager_new 1 9 0)) [] = Returns vec
    \<and> (\<forall>e \<in> set vec. kf_frequency e = to_string (count_list [''a'', ''b'', ''a''] (kf_key e)))
    \<and> distinct (map kf_key vec)"
  using top_report_correct [where evs = "[(''a'', ''u'', 1), (''b'', ''u'', 2), (''a'', ''u'', 3)]"
      and n = 1 and m = 9 and l = 0] by auto

text \<open>
  C13. A key is reported hot exactly when it is among the most frequent ones: \<open>isHotKey\<close> answers, its
  answer is the membership in the ranking, a hot key was sent and fewer keys than the maximum were sent
  more often, and a key that was sent and that at most the maximum of keys reach is hot.
\<close>

theorem hot_key_correct:
  fixes n m l :: uint and evs :: "(string \<times> string \<times> uint) list"
  assumes "length evs < 2 ^ 64 - 1"
  defines "mm \<equiv> run_keys evs (MapManager_new n m l)" and "ks \<equiv> map fst evs"
  shows "\<exists>hot. isHotKey key mm = Returns hot
    \<and> hot = (key \<in> snd ` set (m_pFrequencyMap mm))
    \<and> (hot \<longrightarrow> key \<in> set ks
         \<and> card {k \<in> set ks. count_list ks key < count_list ks k} < unat (m_maxReportElementNumber mm))
    \<and> (key \<in> set ks
         \<and> card {k \<in> set ks. count_list ks key \<le> count_list ks k} \<le> unat (m_maxReportElementNumber mm)
         \<longrightarrow> hot)"
proof -
  have inv: "rank_inv mm" and freq: "frequency_of mm k = count_list ks k" for k
    using run_keys_counts [OF assms(1)] by (simp_all add: mm_def ks_def)
  have pos: "0 < count_list ks k \<longleftrightarrow> k \<in> set ks" for k using count_list_0_iff [of ks k] by auto
  have more: "{k \<in> set ks. count_list ks key < count_list ks k} = {k. count_list ks key < count_list ks k}"
    by (simp add: pos [symmetric]) (metis gr_zeroI not_less_zero)
  have reach: "{k \<in> set ks. count_list ks key \<le> count_list ks k} = {k. count_list ks key \<le> count_list ks k}"
    if "key \<in> set ks"
    using that by (auto simp: pos [symmetric])
  show ?thesis
    using isHotKey_iff [OF inv, of key] hot_properties [OF inv, of key] more reach by (auto simp: freq pos)
qed

lemma hot_key_correct_witness:
  "\<exists>hot. isHotKey ''a'' (run_keys [(''a'', ''u'', 1), (''b'', ''u'', 2), (''a'', ''u'', 3)]
        (MapManager_new 1 9 0)) = Returns hot
    \<and> hot = (''a'' \<in> snd ` set (m_pFrequencyMap (run_keys
          [(''a'', ''u'', 1), (''b'', ''u'', 2), (''a'', ''u'', 3)] (MapManager_new 1 9 0))))"
  using hot_key_correct [where evs = "[(''a'', ''u'', 1), (''b'', ''u'', 2), (''a'', ''u'', 3)]" and key = "''a''" and n = 1 and m = 9 and l = 0]
  by auto

end
