(* ===== verification/MapManagerPurge.thy ===== *)
theory MapManagerPurge
  imports MapManagerSpec
begin

section \<open>purge, zap, configuration and counting\<close>

text \<open>
  \<open>MapManager::purge\<close> keeps one pair too many in the ranking: the closed form of its loop, the exact
  result, and what the extra pair does to later calls. Then the configuration calls, the exact effect of
  \<open>addOrUpdateKey\<close> on the key map, and the invariant over arbitrary sequences of calls.
\<close>

subsection \<open>Closed form of the purge loop\<close>

definition keep_key :: "strdetailsMap \<Rightarrow> ulong \<times> string \<Rightarrow> strdetailsMap \<Rightarrow> strdetailsMap" where
  "keep_key km p newKm = map_insert (snd p) (the (map_of km (snd p))) newKm"

lemma purge_loop_known:
  assumes "wf_map km" "\<forall>p \<in> set fm. map_of km (snd p) \<noteq> None" "itRev \<le> length fm"
  shows "purge_loop n km i itRev fm newKm =
    Returns (itRev - (n - i), fm, fold (keep_key km) (take (n - i) (rev (take itRev fm))) newKm)"
  using assms(3)
proof (induction itRev arbitrary: i newKm)
  case (Suc itRev)
  show ?case
  proof (cases "i < n")
    case True
    let ?p = "fm ! itRev"
    have "?p \<in> set fm" using Suc.prems by simp
    then obtain d where d: "map_of km (snd ?p) = Some d" using assms(2) by fastforce
    then have found: "find_key (snd ?p) km \<noteq> length km" "snd (km ! find_key (snd ?p) km) = d"
      using assms(1) by (auto simp: find_key_found_iff find_key_found_snd)
    have "purge_loop n km i (Suc itRev) fm newKm = purge_loop n km (Suc i) itRev fm (keep_key km ?p newKm)"
      using True found d by (simp add: purge_loop.simps [of n km i "Suc itRev"] keep_key_def Let_def)
    moreover have "n - i = Suc (n - Suc i)" using True by simp
    moreover have "take (Suc itRev) fm = take itRev fm @ [?p]"
      using Suc.prems by (simp add: take_Suc_conv_app_nth)
    ultimately show ?thesis using Suc.IH [of "Suc i"] Suc.prems by simp
  qed (simp add: purge_loop.simps [of n km i "Suc itRev"])
next
  case 0
  show ?case by (subst purge_loop.simps) simp
qed

lemma fold_keep_key:
  assumes "distinct (map snd ps)" "\<forall>p \<in> set ps. map_of km (snd p) \<noteq> None"
  shows "wf_map (fold (keep_key km) ps [])"
    and "map_of (fold (keep_key km) ps []) k = (if k \<in> snd ` set ps then map_of km k else None)"
proof -
  let ?xs = "map (\<lambda>p. (snd p, the (map_of km (snd p)))) ps"
  have eq: "fold (keep_key km) ps m = fold (\<lambda>(k, v). map_insert k v) ?xs m" for m
    by (induction ps arbitrary: m) (simp_all add: keep_key_def)
  show "wf_map (fold (keep_key km) ps [])"
    unfolding eq by (rule std_map.fold_add_new_ok) simp
  have "map fst ?xs = map snd ps" by simp
  then have "map_of (fold (\<lambda>(k, v). map_insert k v) ?xs []) = map_of ?xs"
    using assms(1) by (intro std_map.fold_add_new_from_nothing) (simp add: comp_def)
  moreover have "map_of ?xs k = (if k \<in> snd ` set ps then map_of km k else None)"
    using assms by (induction ps) auto
  ultimately show "map_of (fold (keep_key km) ps []) k = (if k \<in> snd ` set ps then map_of km k else None)"
    unfolding eq by simp
qed

lemma ranked_known:
  assumes "rank_inv mm" "p \<in> set (m_pFrequencyMap mm)"
  shows "map_of (m_pKeyMap mm) (snd p) \<noteq> None"
  using prev_order_known [OF assms(1), of "snd p"]
    rankedD(4,5) [OF rank_invD(2) [OF assms(1)], of "fst p" "snd p"] assms(2) by simp

lemma purge_result:
  fixes n :: ushort
  assumes inv: "rank_inv mm"
  defines "L \<equiv> purge_length n mm" and "fm \<equiv> m_pFrequencyMap mm"
  obtains mm' where "purge n mm = Returns mm'"
    and "m_pFrequencyMap mm' = drop (length fm - Suc L) fm"
    and "wf_map (m_pKeyMap mm')"
    and "\<And>k. map_of (m_pKeyMap mm') k =
      (if k \<in> snd ` set (drop (length fm - L) fm) then map_of (m_pKeyMap mm) k else None)"
    and "m_writingData mm' = 0" "m_maxReportElementNumber mm' = m_maxReportElementNumber mm"
      "m_baseReportElementNumber mm' = m_baseReportElementNumber mm"
proof -
  let ?top = "take L (rev fm)" and ?km = "m_pKeyMap mm"
  let ?new = "fold (keep_key ?km) ?top []"
  have known: "\<forall>p \<in> set fm. map_of ?km (snd p) \<noteq> None"
    using ranked_known [OF inv] by (simp add: fm_def)
  have loop: "purge_loop L ?km 0 (length fm) fm [] = Returns (length fm - L, fm, ?new)"
    using purge_loop_known [OF rank_invD(1) [OF inv] known, of "length fm" L 0 "[]"] by simp
  have "distinct (map snd fm)" using rankedD(2) [OF rank_invD(2) [OF inv]] by (simp add: fm_def)
  then have d: "distinct (map snd ?top)" by (metis distinct_rev distinct_take rev_map take_map)
  have top: "set ?top = set (drop (length fm - L) fm)" by (simp add: take_rev)
  then have top_known: "\<forall>p \<in> set ?top. map_of ?km (snd p) \<noteq> None"
    using known by (auto dest: in_set_dropD)
  have cut: "erase_range 0 i fm = drop i fm" for i by (simp add: erase_range_def)
  show ?thesis
  proof (rule that)
    show "purge n mm = Returns (notify_one (mm\<lparr>m_pFrequencyMap := drop (length fm - Suc L) fm,
        m_pKeyMap := ?new, m_writingData := 0\<rparr>))"
      using loop cut by (simp add: purge_def L_def fm_def)
  qed (use fold_keep_key [OF d top_known] top in \<open>simp_all add: notify_one_def\<close>)
qed

subsection \<open>Properties of purge\<close>

text \<open>
  C27. Purging a ranking that is longer than the requested length keeps the key map to exactly the top
  keys of that length, but leaves one pair more in the ranking, whose key the key map no longer holds;
  the invariant is broken by the call.
\<close>

theorem purge_keeps_one_too_many:
  fixes n :: ushort
  assumes inv: "rank_inv mm" and long: "purge_length n mm < length (m_pFrequencyMap mm)"
  defines "L \<equiv> purge_length n mm" and "fm \<equiv> m_pFrequencyMap mm"
  shows "\<exists>mm'. purge n mm = Returns mm'
    \<and> length (m_pFrequencyMap mm') = Suc L
    \<and> (\<forall>k. map_of (m_pKeyMap mm') k =
         (if k \<in> snd ` set (drop (length fm - L) fm) then map_of (m_pKeyMap mm) k else None))
    \<and> map_of (m_pKeyMap mm') (snd (m_pFrequencyMap mm' ! 0)) = None
    \<and> \<not> rank_inv mm'"
proof (rule purge_result [OF inv, of n], goal_cases)
  case (1 mm')
  let ?i = "length fm - Suc L"
  have lt: "L < length fm" using long by (simp add: L_def fm_def)
  have split: "drop ?i fm = fm ! ?i # drop (length fm - L) fm"
    using lt Cons_nth_drop_Suc [of ?i fm] by (simp add: Suc_diff_Suc)
  have "distinct (map snd fm)" using rankedD(2) [OF rank_invD(2) [OF inv]] by (simp add: fm_def)
  then have "distinct (map snd (drop ?i fm))" by (metis distinct_drop drop_map)
  then have out: "snd (fm ! ?i) \<notin> snd ` set (drop (length fm - L) fm)" unfolding split by simp
  have fm': "m_pFrequencyMap mm' = drop ?i fm" using 1(2) by (simp add: L_def fm_def)
  then have first: "m_pFrequencyMap mm' ! 0 = fm ! ?i" by (simp add: split)
  have orphan: "map_of (m_pKeyMap mm') (snd (m_pFrequencyMap mm' ! 0)) = None"
    using 1(4) out unfolding first by (simp add: L_def fm_def)
  moreover have "\<not> rank_inv mm'"
  proof
    assume "rank_inv mm'"
    moreover have "m_pFrequencyMap mm' ! 0 \<in> set (m_pFrequencyMap mm')" by (simp add: fm' split)
    ultimately show False using ranked_known orphan by blast
  qed
  moreover have "length (m_pFrequencyMap mm') = Suc L" using lt by (simp add: fm')
  ultimately show ?case using 1(1,4) by (auto simp: L_def fm_def)
qed

text \<open>
  When the ranking is not longer than the requested length, purge keeps it whole, restricts the key
  map to the ranked keys, and keeps the invariant.
\<close>

theorem purge_short_ranking:
  assumes inv: "rank_inv mm" and short: "length (m_pFrequencyMap mm) \<le> purge_length n mm"
  shows "\<exists>mm'. purge n mm = Returns mm' \<and> rank_inv mm'
    \<and> m_pFrequencyMap mm' = m_pFrequencyMap mm
    \<and> map_of (m_pKeyMap mm') = map_of (m_pKeyMap mm) |` (snd ` set (m_pFrequencyMap mm))"
proof (rule purge_result [OF inv, of n], goal_cases)
  case (1 mm')
  have fm': "m_pFrequencyMap mm' = m_pFrequencyMap mm" using 1(2) short by simp
  have km': "map_of (m_pKeyMap mm') k =
      (if k \<in> snd ` set (m_pFrequencyMap mm) then map_of (m_pKeyMap mm) k else None)" for k
    using 1(4) [of k] short by simp
  have prev: "prev_order k mm' = (if k \<in> snd ` set (m_pFrequencyMap mm) then prev_order k mm else 0)" for k
    by (simp add: prev_order_def km')
  note r = rank_invD(2) [OF inv]
  have "ranked (unat (m_maxReportElementNumber mm')) (\<lambda>k. prev_order k mm') (m_pFrequencyMap mm')"
    unfolding fm' using r by (intro rankedI) (auto simp: prev 1(6) image_iff dest: rankedD split: if_splits)
  moreover have "\<forall>q \<in> set (m_pKeyMap mm'). 0 < kd_frequency (snd q)"
  proof
    fix q assume "q \<in> set (m_pKeyMap mm')"
    then have "map_of (m_pKeyMap mm') (fst q) = Some (snd q)" using 1(3) by (simp add: wf_map_def)
    then have "(fst q, snd q) \<in> set (m_pKeyMap mm)"
      unfolding km' by (auto split: if_splits dest: map_of_SomeD)
    then show "0 < kd_frequency (snd q)" using inv by (auto simp: rank_inv_def)
  qed
  ultimately have "rank_inv mm'" using 1(3,5) by (simp add: rank_inv_def)
  moreover have "map_of (m_pKeyMap mm') = map_of (m_pKeyMap mm) |` (snd ` set (m_pFrequencyMap mm))"
    by (rule ext) (simp add: km' restrict_map_def)
  ultimately show ?case using 1(1) fm' by blast
qed

lemma purge_keeps_one_too_many_witness:
  "\<exists>mm'. purge 1 (run_keys [(''a'', ''u'', 1), (''b'', ''u'', 2), (''c'', ''u'', 3)]
        (MapManager_new 1 9 0)) = Returns mm'
    \<and> length (m_pFrequencyMap mm') = 2
    \<and> map_of (m_pKeyMap mm') (snd (m_pFrequencyMap mm' ! 0)) = None"
proof -
  let ?mm = "run_keys [(''a'', ''u'', 1), (''b'', ''u'', 2), (''c'', ''u'', 3)] (MapManager_new 1 9 0)"
  have "rank_inv ?mm" by (rule run_keys_counts) simp
  moreover have L: "purge_length 1 ?mm = 1" by code_simp
  moreover have "length (m_pFrequencyMap ?mm) = 3" by code_simp
  ultimately show ?thesis using purge_keeps_one_too_many [of ?mm 1] by auto
qed

lemma purge_short_ranking_witness:
  "\<exists>mm'. purge 5 (run_keys [(''a'', ''u'', 1), (''b'', ''u'', 2)] (MapManager_new 1 9 0)) = Returns mm'
    \<and> rank_inv mm'"
proof -
  let ?mm = "run_keys [(''a'', ''u'', 1), (''b'', ''u'', 2)] (MapManager_new 1 9 0)"
  have "rank_inv ?mm" by (rule run_keys_counts) simp
  moreover have "length (m_pFrequencyMap ?mm) \<le> purge_length 5 ?mm" by code_simp
  ultimately show ?thesis using purge_short_ranking [of ?mm 5] by auto
qed

text \<open>
  The extra pair left by a purge outlives its key: when the key is reported again, and the maximum
  leaves room, it is ranked twice.
\<close>

theorem purge_then_ranked_twice:
  assumes inv: "rank_inv mm" and long: "purge_length n mm < length (m_pFrequencyMap mm)"
    and room: "Suc (purge_length n mm) < unat (m_maxReportElementNumber mm)"
    and purged: "purge n mm = Returns mm'"
    and key: "key = snd (m_pFrequencyMap mm' ! 0)"
  shows "\<not> distinct (map snd (m_pFrequencyMap (addOrUpdateKey key url port mm')))"
proof (rule purge_result [OF inv, of n], goal_cases)
  case (1 mm1)
  then have mm1: "mm1 = mm'" using purged by simp
  note r = 1(2-) [unfolded mm1]
  let ?fm = "m_pFrequencyMap mm"
  let ?i = "length ?fm - Suc (purge_length n mm)"
  have split: "drop ?i ?fm = ?fm ! ?i # drop (length ?fm - purge_length n mm) ?fm"
    using long Cons_nth_drop_Suc [of ?i ?fm] by (simp add: Suc_diff_Suc)
  have "distinct (map snd (drop ?i ?fm))"
    using rankedD(2) [OF rank_invD(2) [OF inv]] by (metis distinct_drop drop_map)
  then have "key \<notin> snd ` set (drop (length ?fm - purge_length n mm) ?fm)"
    unfolding key r(1) split by simp
  then have prev: "prev_order key mm' = 0" by (simp add: prev_order_def r(3))
  have len: "length (m_pFrequencyMap mm') = Suc (purge_length n mm)" using long by (simp add: r(1))
  have "Suc (purge_length n mm) < 2 ^ 16"
    using room unsigned_less [of "m_maxReportElementNumber mm", where ?'a = nat] by simp
  then have "unat (word_of_nat (length (m_pFrequencyMap mm')) :: uint) = length (m_pFrequencyMap mm')"
    unfolding len by (intro unat_of_nat_small) simp
  then have "\<not> kept_out key mm'"
    using room by (simp add: kept_out_def Let_def word_le_unat unat_ucast_up r(5) len)
  then have "ranking_after key mm' = multimap_insert 1 key (m_pFrequencyMap mm')"
    using room len by (simp add: ranking_after_def Let_def prev std_multimap.put_length r(5))
  moreover have "wf_multimap (m_pFrequencyMap mm')"
    unfolding wf_multimap_def r(1) using rankedD(1) [OF rank_invD(2) [OF inv]] by (rule sorted_map_drop)
  ultimately have eq: "m_pFrequencyMap (addOrUpdateKey key url port mm') =
      multimap_insert 1 key (m_pFrequencyMap mm')"
    using r(2) by (simp add: addOrUpdateKey_eq)
  have twice: "key \<in> snd ` set (m_pFrequencyMap mm')" unfolding key r(1) split by simp
  have "mset (map snd (multimap_insert 1 key (m_pFrequencyMap mm'))) =
      mset (key # map snd (m_pFrequencyMap mm'))"
    by (simp add: mset_multimap_insert)
  then have "distinct (map snd (multimap_insert 1 key (m_pFrequencyMap mm')))
      = distinct (key # map snd (m_pFrequencyMap mm'))"
    by (rule mset_eq_imp_distinct_iff)
  with twice show ?case unfolding eq by simp
qed

lemma purge_then_ranked_twice_witness:
  "\<exists>mm'. purge 1 (run_keys [(''a'', ''u'', 1), (''b'', ''u'', 2), (''c'', ''u'', 3)]
        (MapManager_new 1 9 0)) = Returns mm'
    \<and> \<not> distinct (map snd (m_pFrequencyMap
          (addOrUpdateKey (snd (m_pFrequencyMap mm' ! 0)) ''u'' 7 mm')))"
proof -
  let ?mm = "run_keys [(''a'', ''u'', 1), (''b'', ''u'', 2), (''c'', ''u'', 3)] (MapManager_new 1 9 0)"
  have inv: "rank_inv ?mm" by (rule run_keys_counts) simp
  have L: "purge_length 1 ?mm = 1" by code_simp
  have len: "length (m_pFrequencyMap ?mm) = 3" by code_simp
  have mx: "unat (m_maxReportElementNumber ?mm) = 9" by code_simp
  obtain mm' where "purge 1 ?mm = Returns mm'" by (rule purge_result [OF inv])
  then show ?thesis
    using purge_then_ranked_twice [OF inv, of 1 mm' _ "''u''" 7] by (simp add: L len mx)
qed

subsection \<open>Counting, configuration and sequences of calls\<close>

text \<open>
  \<open>addOrUpdateKey\<close> stores the details of the call with the frequency increased by one, modulo the
  64 bits of \<open>unsigned long\<close>, and touches no other key and no setting.
\<close>

theorem addOrUpdateKey_effect:
  fixes key url :: string and nPort :: uint
  assumes "wf_map (m_pKeyMap mm)" "wf_multimap (m_pFrequencyMap mm)"
  defines "mm' \<equiv> addOrUpdateKey key url nPort mm"
  shows "map_of (m_pKeyMap mm') = (map_of (m_pKeyMap mm))(key \<mapsto>
      \<lparr>kd_url = url, kd_port = nPort, kd_frequency = word_of_nat (Suc (frequency_of mm key))\<rparr>)
    \<and> frequency_of mm' key = Suc (frequency_of mm key) mod 2 ^ 64
    \<and> wf_map (m_pKeyMap mm') \<and> m_writingData mm' = 0
    \<and> m_baseReportElementNumber mm' = m_baseReportElementNumber mm
    \<and> m_maxReportElementNumber mm' = m_maxReportElementNumber mm"
proof -
  have w: "1 + prev_order key mm = word_of_nat (Suc (frequency_of mm key))"
    by (simp add: frequency_of_prev_order)
  have "unat (word_of_nat (Suc (frequency_of mm key)) :: ulong) = Suc (frequency_of mm key) mod 2 ^ 64"
    by (simp only: unat_of_nat) (simp add: take_bit_eq_mod)
  then show ?thesis
    using assms(1,2) wf_insert_or_assign [OF assms(1)]
    by (simp add: mm'_def addOrUpdateKey_eq map_of_insert_or_assign frequency_of_def w)
qed

lemma addOrUpdateKey_effect_witness:
  "map_of (m_pKeyMap (addOrUpdateKey ''k'' ''u'' 3 MapManager_default)) =
    (map_of (m_pKeyMap MapManager_default))(''k'' \<mapsto>
      \<lparr>kd_url = ''u'', kd_port = 3, kd_frequency = word_of_nat (Suc (frequency_of MapManager_default ''k''))\<rparr>)"
  using addOrUpdateKey_effect [of MapManager_default "''k''" "''u''" 3] rank_invD(1,4) [OF rank_inv_default]
  by simp

text \<open>Calls of the interface in any order.\<close>

datatype manager_call =
    AddOrUpdateKey string string uint
  | SetTopKeyReportBaseSize ushort
  | Zap

primrec apply_call :: "manager_call \<Rightarrow> map_manager \<Rightarrow> map_manager" where
  "apply_call (AddOrUpdateKey key url port) mm = addOrUpdateKey key url port mm"
| "apply_call (SetTopKeyReportBaseSize b) mm = setTopKeyReportBaseSize b mm"
| "apply_call Zap mm = zap mm"

lemma apply_call_step:
  assumes "rank_inv mm" "\<forall>k. frequency_of mm k < 2 ^ 64 - 1"
  shows "rank_inv (apply_call c mm)" "frequency_of (apply_call c mm) k \<le> Suc (frequency_of mm k)"
    "m_maxReportElementNumber (apply_call c mm) = m_maxReportElementNumber mm"
proof -
  show "rank_inv (apply_call c mm)"
    using assms by (cases c)
      (simp_all add: rank_inv_addOrUpdateKey prev_order_below rank_inv_setTopKeyReportBaseSize rank_inv_zap)
  show "frequency_of (apply_call c mm) k \<le> Suc (frequency_of mm k)"
    using assms by (cases c)
      (auto simp: frequency_of_addOrUpdateKey frequency_of_setTopKeyReportBaseSize frequency_of_def [of "zap mm"])
  show "m_maxReportElementNumber (apply_call c mm) = m_maxReportElementNumber mm"
    using rank_invD(1,4) [OF assms(1)] by (cases c) (simp_all add: addOrUpdateKey_eq)
qed

lemma apply_calls_inv:
  assumes "rank_inv mm" "\<forall>k. frequency_of mm k + length cs < 2 ^ 64"
  shows "rank_inv (fold apply_call cs mm)
    \<and> m_maxReportElementNumber (fold apply_call cs mm) = m_maxReportElementNumber mm"
  using assms
proof (induction cs arbitrary: mm)
  case (Cons c cs)
  have b: "\<forall>k. frequency_of mm k < 2 ^ 64 - 1"
  proof
    fix k show "frequency_of mm k < 2 ^ 64 - 1" using Cons.prems(2) [rule_format, of k] by simp
  qed
  note st = apply_call_step [OF Cons.prems(1) b, of c]
  have "\<forall>k. frequency_of (apply_call c mm) k + length cs < 2 ^ 64"
  proof
    fix k show "frequency_of (apply_call c mm) k + length cs < 2 ^ 64"
      using Cons.prems(2) [rule_format, of k] st(2) [of k] by simp
  qed
  with Cons.IH [OF st(1)] show ?case using st(3) by simp
qed simp

text \<open>
  C15. The invariant of the manager holds after any sequence of calls that add keys, resize the report
  or zap the maps: in particular the ranking never exceeds its maximum, ranks no key twice, and carries
  the exact frequencies of the key map.
\<close>

theorem calls_keep_invariant:
  fixes n m l :: uint
  assumes "length cs < 2 ^ 64"
  defines "mm \<equiv> fold apply_call cs (MapManager_new n m l)"
  shows "rank_inv mm
    \<and> length (m_pFrequencyMap mm) \<le> unat (m_maxReportElementNumber (MapManager_new n m l))
    \<and> distinct (map snd (m_pFrequencyMap mm))
    \<and> (\<forall>p \<in> set (m_pFrequencyMap mm). frequency_of mm (snd p) = unat (fst p))"
proof -
  have "rank_inv mm \<and> m_maxReportElementNumber mm = m_maxReportElementNumber (MapManager_new n m l)"
    unfolding mm_def using assms(1) by (intro apply_calls_inv rank_inv_new) simp
  then show ?thesis
    using rankedD(2,3) [OF rank_invD(2)] ranked_frequency(1) by fastforce
qed

lemma calls_keep_invariant_witness:
  "rank_inv (fold apply_call [AddOrUpdateKey ''a'' ''u'' 1, SetTopKeyReportBaseSize 3, Zap,
      AddOrUpdateKey ''b'' ''u'' 2] (MapManager_new 2 8 0))"
  using calls_keep_invariant [where n = 2 and m = 8 and l = 0 and cs = "[AddOrUpdateKey ''a'' ''u'' 1,
      SetTopKeyReportBaseSize 3, Zap, AddOrUpdateKey ''b'' ''u'' 2]"] by simp

text \<open>
  The constructor keeps the base size and leaves at least four places between it and the maximum,
  for sizes whose sum fits in \<open>unsigned short\<close>.
\<close>

theorem constructor_bounds:
  assumes "unat n + 4 < 2 ^ 16" "unat m < 2 ^ 16"
  shows "unat (m_baseReportElementNumber (MapManager_new n m l)) = unat n
    \<and> unat (m_maxReportElementNumber (MapManager_new n m l)) = max (unat m) (unat n + 4)"
proof -
  have n4: "unat (n + 4) = unat n + 4" using assms(1) by (simp add: unat_word_ariths)
  have cast: "unat (ucast w :: ushort) = unat w" if "unat w < 2 ^ 16" for w :: uint
    using that by (simp add: unsigned_ucast_eq take_bit_nat_eq_self)
  show ?thesis
    using assms n4 cast [of n] cast [of m] cast [of "n + 4"]
    by (auto simp: MapManager_new_def word_less_unat max_def)
qed

lemma constructor_bounds_witness:
  "unat (m_maxReportElementNumber (MapManager_new 10 20 0)) = max (unat (20 :: uint)) (unat (10 :: uint) + 4)"
  using constructor_bounds [of 10 20 0] by simp

text \<open>
  Near the top of \<open>unsigned short\<close> the constructor's sum is truncated: the maximum becomes smaller
  than the base size it should exceed by four.
\<close>

theorem constructor_truncates:
  assumes "65532 \<le> unat n" "unat n < 2 ^ 16" "m \<le> n + 4"
  shows "m_maxReportElementNumber (MapManager_new n m l) < m_baseReportElementNumber (MapManager_new n m l)"
proof -
  have n4: "unat (n + 4) = unat n + 4" using assms(2) by (simp add: unat_word_ariths)
  have "unat (ucast (n + 4) :: ushort) = unat n - 65532"
    using assms(1,2) n4 by (simp add: unsigned_ucast_eq take_bit_eq_mod mod_if)
  moreover have "unat (ucast n :: ushort) = unat n"
    using assms(2) by (simp add: unsigned_ucast_eq take_bit_nat_eq_self)
  ultimately show ?thesis
    using assms by (auto simp: MapManager_new_def word_less_unat not_less word_le_unat n4)
qed

lemma constructor_truncates_witness:
  "m_maxReportElementNumber (MapManager_new 65535 0 0) < m_baseReportElementNumber (MapManager_new 65535 0 0)"
  using constructor_truncates [of 65535 0 0] by simp

text \<open>
  Resizing the report truncates it: the report for any requested size is the prefix of that length
  of the report for the maximum, which lists the whole ranking; a size above the maximum has the effect
  of the maximum.
\<close>

theorem resize_truncates_report:
  assumes inv: "rank_inv mm"
  shows "\<exists>full. getTopHotkeys (setTopKeyReportBaseSize (m_maxReportElementNumber mm) mm) [] = Returns full
    \<and> map kf_key full = rev (map snd (m_pFrequencyMap mm))
    \<and> (\<forall>b. getTopHotkeys (setTopKeyReportBaseSize b mm) [] = Returns (take (unat b) full))"
proof -
  let ?fm = "m_pFrequencyMap mm" and ?mx = "m_maxReportElementNumber mm"
  let ?full = "map (\<lambda>p. \<lparr>kf_key = snd p, kf_frequency = to_string (unat (fst p))\<rparr>) (rev ?fm)"
  have len: "length ?fm \<le> unat ?mx" using rankedD(3) [OF rank_invD(2) [OF inv]] .
  have report: "getTopHotkeys (setTopKeyReportBaseSize b mm) [] = Returns (take (unat b) ?full)" for b
  proof -
    have "take (unat (min b ?mx)) (rev ?fm) = take (unat b) (rev ?fm)"
      using len by (cases "b \<le> ?mx") (auto simp: min_def word_le_unat)
    then show ?thesis
      using getTopHotkeys_eq [OF rank_inv_setTopKeyReportBaseSize [OF inv], of b "[]"]
      by (simp add: setTopKeyReportBaseSize_base take_map)
  qed
  moreover have "take (unat ?mx) ?full = ?full" using len by simp
  ultimately show ?thesis by (intro exI [of _ ?full]) (simp add: rev_map comp_def)
qed

lemma resize_truncates_report_witness:
  "\<exists>full. getTopHotkeys (setTopKeyReportBaseSize 20 MapManager_default) [] = Returns full
    \<and> map kf_key full = rev (map snd (m_pFrequencyMap MapManager_default))"
  using resize_truncates_report [OF rank_inv_default] by (auto simp: MapManager_default_def)

end
