(* ===== verification/Message.thy ===== *)
theory Message
  imports Prelude
begin

section \<open>Message (include/Message.h)\<close>

text \<open>
  The messages between the server and the worker that drives the manager: a command, two strings and
  three numbers at their width. The constructors of the class that take references to strings are one
  function here, since the one that takes \<open>const std::string&&\<close> copies like the other.
\<close>

datatype command =
    cmd_notDefined
  | cmd_stop
  | cmd_addKey
  | cmd_getKeyRanking
  | cmd_isHotKey
  | cmd_setRankingLength

record message =
  m_str1 :: string
  m_str2 :: string
  m_cmd :: command
  m_nbyte :: "8 word"
  m_nshort :: ushort
  m_number :: uint

definition Message_default :: message where
  "Message_default =
     \<lparr>m_str1 = [], m_str2 = [], m_cmd = cmd_notDefined, m_nbyte = 0, m_nshort = 0, m_number = 0\<rparr>"

definition Message_numbers :: "command \<Rightarrow> 8 word \<Rightarrow> ushort \<Rightarrow> uint \<Rightarrow> message" where
  "Message_numbers c u8 u16 u32 =
     \<lparr>m_str1 = [], m_str2 = [], m_cmd = c, m_nbyte = u8, m_nshort = u16, m_number = u32\<rparr>"

definition Message_strings ::
  "command \<Rightarrow> string \<Rightarrow> string \<Rightarrow> 8 word \<Rightarrow> ushort \<Rightarrow> uint \<Rightarrow> message" where
  "Message_strings c s1 s2 u8 u16 u32 =
     \<lparr>m_str1 = s1, m_str2 = s2, m_cmd = c, m_nbyte = u8, m_nshort = u16, m_number = u32\<rparr>"

definition Message_copy :: "message \<Rightarrow> message" where
  "Message_copy m =
     \<lparr>m_str1 = m_str1 m, m_str2 = m_str2 m, m_cmd = m_cmd m, m_nbyte = m_nbyte m,
      m_nshort = m_nshort m, m_number = m_number m\<rparr>"

text \<open>The assignment \<open>this = m\<close>: the new value of the object and the value of the expression.\<close>

definition Message_assign :: "message \<Rightarrow> message \<Rightarrow> message \<times> message" where
  "Message_assign this m =
     (this\<lparr>m_cmd := m_cmd m, m_str1 := m_str1 m, m_str2 := m_str2 m, m_nbyte := m_nbyte m,
        m_nshort := m_nshort m, m_number := m_number m\<rparr>, m)"

text \<open>
  The getters that write into an argument: the new value of the argument. The second one copies the
  first string.
\<close>

definition getString1_into :: "message \<Rightarrow> string \<Rightarrow> string" where
  "getString1_into m s1 = m_str1 m"

definition getString2_into :: "message \<Rightarrow> string \<Rightarrow> string" where
  "getString2_into m s2 = m_str1 m"

text \<open>The getters of the fields: a copy, and a reference to a field, read as the field.\<close>

definition getString1 :: "message \<Rightarrow> string" where "getString1 m = m_str1 m"
definition getString2 :: "message \<Rightarrow> string" where "getString2 m = m_str2 m"
definition getByte :: "message \<Rightarrow> 8 word" where "getByte m = m_nbyte m"
definition getStringRef1 :: "message \<Rightarrow> string" where "getStringRef1 m = m_str1 m"
definition getStringRef2 :: "message \<Rightarrow> string" where "getStringRef2 m = m_str2 m"
definition getCommand :: "message \<Rightarrow> command" where "getCommand m = m_cmd m"
definition getShort :: "message \<Rightarrow> ushort" where "getShort m = m_nshort m"
definition getNumber :: "message \<Rightarrow> uint" where "getNumber m = m_number m"

lemmas getters [simp] = getString1_def getString2_def getByte_def getStringRef1_def getStringRef2_def getCommand_def getShort_def getNumber_def

lemma Message_numbers_sel [simp]:
  "m_cmd (Message_numbers c a b d) = c" "m_nshort (Message_numbers c a b d) = b"
  by (simp_all add: Message_numbers_def)

lemma Message_strings_sel [simp]:
  "m_cmd (Message_strings c s t a b d) = c" "m_str1 (Message_strings c s t a b d) = s"
  "m_str2 (Message_strings c s t a b d) = t" "m_number (Message_strings c s t a b d) = d"
  "m_nshort (Message_strings c s t a b d) = b"
  by (simp_all add: Message_strings_def)

lemma Message_copy_id [simp]: "Message_copy m = m"
  by (simp add: Message_copy_def)

lemma Message_assign_id [simp]: "Message_assign this m = (m, m)"
  by (simp add: Message_assign_def)

end
