(* ===== verification/MessageQueue.thy ===== *)
theory MessageQueue
  imports MapManagerPurge Message
begin

section \<open>ThreadedMessageQueue (include/ThreadedMessageQueue.h, src/ThreadedMessageQueue.cpp)\<close>

text \<open>
  The queue between the server threads and the one worker thread that drives the manager. The
  \<open>boost::lockfree::queue\<close> underneath is a parameter: its three operations are a record that every
  definition takes, and \<open>fifo_queue\<close> states its documented behaviour. Messages live on a heap: \<open>new\<close>
  allocates, \<open>delete\<close> frees, and a pointer to a freed message is undefined behaviour. The worker's loop
  is a step function on its program counter, so that its steps interleave with the calls of the other
  threads. The plain \<open>bool\<close> \<open>m_running\<close> is read and written as an atomic flag, and allocating a
  message and pushing it is one step of the sender.
\<close>

subsection \<open>The lock-free queue\<close>

type_synonym pointer = nat

record 'q lockfree =
  lf_empty :: "'q \<Rightarrow> bool"
  lf_push :: "pointer \<Rightarrow> 'q \<Rightarrow> 'q"
  lf_pop :: "'q \<Rightarrow> (pointer \<times> 'q) option"

text \<open>First in, first out: the contents of a queue as a list, and what the operations do to it.\<close>

definition fifo_queue :: "'q lockfree \<Rightarrow> ('q \<Rightarrow> pointer list) \<Rightarrow> bool" where
  "fifo_queue lf contents \<longleftrightarrow>
     (\<forall>q. lf_empty lf q = (contents q = []))
     \<and> (\<forall>p q. contents (lf_push lf p q) = contents q @ [p])
     \<and> (\<forall>q. (case contents q of
               [] \<Rightarrow> lf_pop lf q = None
             | p # ps \<Rightarrow> (\<exists>q'. lf_pop lf q = Some (p, q') \<and> contents q' = ps)))"

subsection \<open>State\<close>

text \<open>
  The worker thread: the thread object is not joinable; at the head of the loop; past the test of
  \<open>m_running\<close>; holding a popped message; returned from \<open>run\<close> and not yet joined.
\<close>

datatype worker =
    Not_joinable
  | At_head
  | In_body
  | Holding pointer
  | Finished

record 'q queue_system =
  q_nodes :: 'q
  m_running :: bool
  m_consumer :: bool            \<comment> \<open>the pointer to the manager is set\<close>
  m_poper :: worker
  heap :: "pointer \<Rightarrow> message option"
  heap_top :: pointer           \<comment> \<open>the next fresh pointer\<close>
  consumer :: map_manager       \<comment> \<open>the manager \<open>m_consumer\<close> points to\<close>

definition ThreadedMessageQueue_new :: "'q \<Rightarrow> map_manager \<Rightarrow> 'q queue_system" where
  "ThreadedMessageQueue_new q mgr =
     \<lparr>q_nodes = q, m_running = False, m_consumer = False, m_poper = Not_joinable,
      heap = (\<lambda>_. None), heap_top = 0, consumer = mgr\<rparr>"

definition setConsumer :: "bool \<Rightarrow> 'q queue_system \<Rightarrow> 'q queue_system" where
  "setConsumer pMgr st = st\<lparr>m_consumer := pMgr\<rparr>"

definition queue_isEmpty :: "'q lockfree \<Rightarrow> 'q queue_system \<Rightarrow> bool" where
  "queue_isEmpty lf st = lf_empty lf (q_nodes st)"

subsection \<open>start, stop and push\<close>

text \<open>Assigning a new thread to a thread object that is still joinable ends the process.\<close>

definition queue_start :: "'q queue_system \<Rightarrow> bool outcome \<times> 'q queue_system" where
  "queue_start st =
     (if \<not> m_consumer st then (Returns False, st)
      else
        let st1 = st\<lparr>m_running := True\<rparr>
        in if m_poper st \<noteq> Not_joinable then (Terminates, st1)
           else (Returns True, st1\<lparr>m_poper := At_head\<rparr>))"

text \<open>\<open>join\<close> waits until the worker has returned; on a thread that is not joinable it throws.\<close>

definition queue_join :: "'q queue_system \<Rightarrow> bool outcome \<times> 'q queue_system" where
  "queue_join st =
     (case m_poper st of
        Not_joinable \<Rightarrow> (Throws System_error, st)
      | Finished \<Rightarrow> (Returns True, st\<lparr>m_poper := Not_joinable\<rparr>)
      | _ \<Rightarrow> (Waits, st))"

definition queue_stop :: "'q queue_system \<Rightarrow> bool outcome \<times> 'q queue_system" where
  "queue_stop st = queue_join (st\<lparr>m_running := False\<rparr>)"

definition queue_push :: "'q lockfree \<Rightarrow> pointer option \<Rightarrow> 'q queue_system \<Rightarrow> unit outcome \<times> 'q queue_system" where
  "queue_push lf pMsg st =
     (case pMsg of
        None \<Rightarrow> (Terminates, st)
      | Some p \<Rightarrow>
          (Returns (), if m_running st then st\<lparr>q_nodes := lf_push lf p (q_nodes st)\<rparr> else st))"

text \<open>What a sender does: \<open>new Message (...)\<close>, then \<open>push\<close>.\<close>

definition new_message :: "message \<Rightarrow> 'q queue_system \<Rightarrow> pointer \<times> 'q queue_system" where
  "new_message msg st =
     (heap_top st, st\<lparr>heap := (heap st)(heap_top st \<mapsto> msg), heap_top := Suc (heap_top st)\<rparr>)"

definition queue_send :: "'q lockfree \<Rightarrow> message \<Rightarrow> 'q queue_system \<Rightarrow> 'q queue_system" where
  "queue_send lf msg st = (let (p, st1) = new_message msg st in snd (queue_push lf (Some p) st1))"

subsection \<open>The worker\<close>

definition delete_message :: "pointer \<Rightarrow> 'q queue_system \<Rightarrow> 'q queue_system" where
  "delete_message p st = st\<lparr>heap := (heap st)(p := None)\<rparr>"

text \<open>The \<open>switch\<close> on the command: only the two commands it knows delete the message.\<close>

definition handle_message :: "pointer \<Rightarrow> 'q queue_system \<Rightarrow> 'q queue_system outcome" where
  "handle_message p st =
     (case heap st p of
        None \<Rightarrow> Undefined
      | Some pm \<Rightarrow> Returns
          (case getCommand pm of
             cmd_addKey \<Rightarrow>
               delete_message p
                 (st\<lparr>consumer := addOrUpdateKey (getStringRef1 pm) (getStringRef2 pm) (getNumber pm) (consumer st)\<rparr>)
           | cmd_setRankingLength \<Rightarrow>
               delete_message p (st\<lparr>consumer := setTopKeyReportBaseSize (getShort pm) (consumer st)\<rparr>)
           | cmd_stop \<Rightarrow> st\<lparr>m_running := False\<rparr>
           | _ \<Rightarrow> st))"

text \<open>One step of \<open>run\<close>. A worker that has returned takes no more steps.\<close>

definition run_step :: "'q lockfree \<Rightarrow> 'q queue_system \<Rightarrow> 'q queue_system outcome" where
  "run_step lf st =
     (case m_poper st of
        At_head \<Rightarrow> Returns (st\<lparr>m_poper := (if m_running st then In_body else Finished)\<rparr>)
      | In_body \<Rightarrow>
          (if lf_empty lf (q_nodes st) then Returns (st\<lparr>m_poper := At_head\<rparr>)
           else case lf_pop lf (q_nodes st) of
                  None \<Rightarrow> Returns (st\<lparr>m_poper := At_head\<rparr>)
                | Some (pm, q) \<Rightarrow> Returns (st\<lparr>q_nodes := q, m_poper := Holding pm\<rparr>))
      | Holding pm \<Rightarrow>
          (case handle_message pm st of
             Returns st1 \<Rightarrow> Returns (st1\<lparr>m_poper := At_head\<rparr>)
           | r \<Rightarrow> r)
      | _ \<Rightarrow> Returns st)"

subsection \<open>The destructor\<close>

text \<open>
  The body drains the queue and deletes the messages; the loop repeats for as long as \<open>pop\<close> fails. The
  destructor of the thread object that follows ends the process when the thread is still joinable.
\<close>

partial_function (option) queue_drain :: "'q lockfree \<Rightarrow> 'q queue_system \<Rightarrow> 'q queue_system option" where
  "queue_drain lf st =
     (if lf_empty lf (q_nodes st) then Some st
      else case lf_pop lf (q_nodes st) of
             None \<Rightarrow> queue_drain lf st
           | Some (pm, q) \<Rightarrow> queue_drain lf (delete_message pm (st\<lparr>q_nodes := q\<rparr>)))"

definition queue_destroy :: "'q lockfree \<Rightarrow> 'q queue_system \<Rightarrow> 'q queue_system outcome option" where
  "queue_destroy lf st =
     (case queue_drain lf st of
        None \<Rightarrow> None
      | Some st1 \<Rightarrow> Some (if m_poper st1 \<noteq> Not_joinable then Terminates else Returns st1))"

end
