(* ===== verification/MessageQueueSpec.thy ===== *)
theory MessageQueueSpec
  imports MessageQueue
begin

section \<open>What the message queue promises\<close>

text \<open>
  The contract between a sender and the consumer behind the worker is a locale: whatever the
  interleaving, sending a message applies it after everything sent before, and the worker's own steps
  change nothing in the state the consumer will end in. It is interpreted on the model of
  \<open>ThreadedMessageQueue\<close>; delivery, order, memory and the protocol of \<open>start\<close> and \<open>stop\<close> rest on it.
\<close>

subsection \<open>The interface\<close>

locale delivery =
  fixes send :: "'m \<Rightarrow> 's \<Rightarrow> 's"
    and work :: "'s \<Rightarrow> 's"
    and eventual :: "'s \<Rightarrow> 'c"
    and handle :: "'m \<Rightarrow> 'c \<Rightarrow> 'c"
    and ready :: "'s \<Rightarrow> bool"
    and ordinary :: "'m \<Rightarrow> bool"
    and waiting :: "'s \<Rightarrow> nat"
    and rank :: "'s \<Rightarrow> nat"
  assumes ready_send: "ready s \<Longrightarrow> ordinary m \<Longrightarrow> ready (send m s)"
    and ready_work: "ready s \<Longrightarrow> ready (work s)"
    and eventual_send: "ready s \<Longrightarrow> ordinary m \<Longrightarrow> eventual (send m s) = handle m (eventual s)"
    and eventual_work: "ready s \<Longrightarrow> eventual (work s) = eventual s"
    and rank_work: "ready s \<Longrightarrow> waiting s \<noteq> 0 \<Longrightarrow> rank (work s) < rank s"
    and waiting_work: "ready s \<Longrightarrow> waiting s = 0 \<Longrightarrow> waiting (work s) = 0"
begin

text \<open>A run: each event is a message that is sent, or a step of the worker.\<close>

lemma run_events:
  assumes "ready s" "\<forall>m. Some m \<in> set evs \<longrightarrow> ordinary m"
  shows "ready (fold (\<lambda>e. case e of Some m \<Rightarrow> send m | None \<Rightarrow> work) evs s)"
    and "eventual (fold (\<lambda>e. case e of Some m \<Rightarrow> send m | None \<Rightarrow> work) evs s)
      = fold handle (List.map_filter (\<lambda>e. e) evs) (eventual s)"
  using assms
proof (induction evs arbitrary: s)
  case (Cons e evs)
  { case 1
    then show ?case using Cons.IH(1) [of "work s"] Cons.IH(1) [of "send (the e) s"]
      by (cases e) (auto simp: ready_send ready_work)
  next
    case 2
    then show ?case
      using Cons.IH(2) [of "work s"] Cons.IH(2) [of "send (the e) s"]
      by (cases e) (auto simp: ready_send ready_work eventual_send eventual_work map_filter_simps)
  }
qed (simp_all add: map_filter_simps)

lemma work_drains:
  assumes "ready s" "rank s \<le> n"
  shows "waiting ((work ^^ n) s) = 0"
  using assms
proof (induction n arbitrary: s)
  case 0
  then show ?case using rank_work [of s] by (cases "waiting s = 0") auto
next
  case (Suc n)
  have step: "(work ^^ Suc n) s = (work ^^ n) (work s)" by (simp add: funpow_swap1)
  show ?case
  proof (cases "waiting s = 0")
    case False
    then show ?thesis
      unfolding step using Suc.prems rank_work [of s] by (intro Suc.IH) (auto simp: ready_work)
  next
    case True
    have "ready ((work ^^ k) s) \<and> waiting ((work ^^ k) s) = 0" for k
      by (induction k) (auto simp: Suc.prems True ready_work waiting_work)
    then show ?thesis by blast
  qed
qed

lemma ready_works: "ready s \<Longrightarrow> ready ((work ^^ n) s)"
  by (induction n) (auto simp: ready_work)

lemma eventual_works: "ready s \<Longrightarrow> eventual ((work ^^ n) s) = eventual s"
  by (induction n) (auto simp: ready_works eventual_work)

end

subsection \<open>The abstraction\<close>

text \<open>What the consumer does with one message.\<close>

definition apply_message :: "message \<Rightarrow> map_manager \<Rightarrow> map_manager" where
  "apply_message m mgr =
     (case m_cmd m of
        cmd_addKey \<Rightarrow> addOrUpdateKey (m_str1 m) (m_str2 m) (m_number m) mgr
      | cmd_setRankingLength \<Rightarrow> setTopKeyReportBaseSize (m_nshort m) mgr
      | _ \<Rightarrow> mgr)"

text \<open>The messages the worker deletes after it has handled them.\<close>

definition ordinary_message :: "message \<Rightarrow> bool" where
  "ordinary_message m \<longleftrightarrow> m_cmd m = cmd_addKey \<or> m_cmd m = cmd_setRankingLength"

definition held :: "'q queue_system \<Rightarrow> pointer list" where
  "held st = (case m_poper st of Holding p \<Rightarrow> [p] | _ \<Rightarrow> [])"

definition pending_pointers :: "('q \<Rightarrow> pointer list) \<Rightarrow> 'q queue_system \<Rightarrow> pointer list" where
  "pending_pointers contents st = held st @ contents (q_nodes st)"

definition pending :: "('q \<Rightarrow> pointer list) \<Rightarrow> 'q queue_system \<Rightarrow> message list" where
  "pending contents st = map (\<lambda>p. the (heap st p)) (pending_pointers contents st)"

definition eventual_consumer :: "('q \<Rightarrow> pointer list) \<Rightarrow> 'q queue_system \<Rightarrow> map_manager" where
  "eventual_consumer contents st = fold apply_message (pending contents st) (consumer st)"

text \<open>Every pending pointer is allocated and occurs once; fresh pointers are not allocated.\<close>

definition queue_ok :: "('q \<Rightarrow> pointer list) \<Rightarrow> 'q queue_system \<Rightarrow> bool" where
  "queue_ok contents st \<longleftrightarrow> distinct (pending_pointers contents st)
     \<and> set (pending_pointers contents st) \<subseteq> dom (heap st)
     \<and> (\<forall>p \<in> dom (heap st). p < heap_top st)"

text \<open>No message is allocated that is not pending: nothing has leaked.\<close>

definition no_leak :: "('q \<Rightarrow> pointer list) \<Rightarrow> 'q queue_system \<Rightarrow> bool" where
  "no_leak contents st \<longleftrightarrow> dom (heap st) = set (pending_pointers contents st)"

text \<open>The queue at work: the worker is in its loop and only messages it deletes are pending.\<close>

definition working :: "('q \<Rightarrow> pointer list) \<Rightarrow> 'q queue_system \<Rightarrow> bool" where
  "working contents st \<longleftrightarrow> queue_ok contents st \<and> no_leak contents st \<and> m_running st
     \<and> m_poper st \<noteq> Not_joinable \<and> m_poper st \<noteq> Finished
     \<and> (\<forall>m \<in> set (pending contents st). ordinary_message m)"

text \<open>A step of the worker as a total function; undefined behaviour is excluded by \<open>run_step_defined\<close>.\<close>

definition work :: "'q lockfree \<Rightarrow> 'q queue_system \<Rightarrow> 'q queue_system" where
  "work lf st = (case run_step lf st of Returns st1 \<Rightarrow> st1 | _ \<Rightarrow> st)"

text \<open>How many steps of the worker are left at most until nothing is pending.\<close>

definition work_rank :: "('q \<Rightarrow> pointer list) \<Rightarrow> 'q queue_system \<Rightarrow> nat" where
  "work_rank contents st =
     3 * length (contents (q_nodes st))
       + (case m_poper st of Holding _ \<Rightarrow> 2 | At_head \<Rightarrow> 1 | _ \<Rightarrow> 0)"

subsection \<open>The laws of the queue and the steps of the model\<close>

lemma fifo_laws:
  assumes "fifo_queue lf contents"
  shows fifo_empty: "lf_empty lf q \<longleftrightarrow> contents q = []"
    and fifo_push: "contents (lf_push lf p q) = contents q @ [p]"
    and fifo_pop: "case contents q of [] \<Rightarrow> lf_pop lf q = None
      | p # ps \<Rightarrow> (\<exists>q'. lf_pop lf q = Some (p, q') \<and> contents q' = ps)"
proof -
  from assms show "lf_empty lf q \<longleftrightarrow> contents q = []" "contents (lf_push lf p q) = contents q @ [p]"
    unfolding fifo_queue_def by blast+
  from assms show "case contents q of [] \<Rightarrow> lf_pop lf q = None
      | p # ps \<Rightarrow> (\<exists>q'. lf_pop lf q = Some (p, q') \<and> contents q' = ps)"
    unfolding fifo_queue_def by (elim conjE allE)
qed

lemma fifo_pop_cases:
  assumes "fifo_queue lf contents"
  obtains (empty) "contents q = []" "lf_empty lf q" "lf_pop lf q = None"
    | (cons) p q' where "contents q = p # contents q'" "\<not> lf_empty lf q" "lf_pop lf q = Some (p, q')"
proof (cases "contents q")
  case Nil
  then show ?thesis using fifo_pop [OF assms, of q] by (intro empty) (simp_all add: fifo_empty [OF assms])
next
  case (Cons p ps)
  then obtain q' where "lf_pop lf q = Some (p, q')" "contents q' = ps"
    using fifo_pop [OF assms, of q] by auto
  then show ?thesis using Cons by (intro cons [of p q']) (simp_all add: fifo_empty [OF assms])
qed

text \<open>The effect of handling an allocated message.\<close>

lemma handle_message_eq:
  assumes "heap st p = Some m"
  shows "handle_message p st = Returns (st\<lparr>
    consumer := apply_message m (consumer st),
    heap := (if ordinary_message m then (heap st)(p := None) else heap st),
    m_running := (m_running st \<and> m_cmd m \<noteq> cmd_stop)\<rparr>)"
  using assms
  by (cases "m_cmd m")
    (simp_all add: handle_message_def apply_message_def ordinary_message_def delete_message_def)

text \<open>The three steps of the worker that are not idle.\<close>

lemma run_step_holding:
  assumes "m_poper st = Holding p" "heap st p = Some m"
  shows "run_step lf st = Returns (st\<lparr>
    consumer := apply_message m (consumer st),
    heap := (if ordinary_message m then (heap st)(p := None) else heap st),
    m_running := (m_running st \<and> m_cmd m \<noteq> cmd_stop), m_poper := At_head\<rparr>)"
  using assms by (simp add: run_step_def handle_message_eq)

lemma run_step_body:
  assumes "fifo_queue lf contents" "m_poper st = In_body"
  shows "run_step lf st = Returns (case lf_pop lf (q_nodes st) of
    None \<Rightarrow> st\<lparr>m_poper := At_head\<rparr> | Some (p, q) \<Rightarrow> st\<lparr>q_nodes := q, m_poper := Holding p\<rparr>)"
  using assms(2) by (cases rule: fifo_pop_cases [OF assms(1), of "q_nodes st"]) (simp_all add: run_step_def)

lemma held_simps [simp]:
  "m_poper st = Holding p \<Longrightarrow> held st = [p]"
  "m_poper st = At_head \<Longrightarrow> held st = []"
  "m_poper st = In_body \<Longrightarrow> held st = []"
  "m_poper st = Not_joinable \<Longrightarrow> held st = []"
  "m_poper st = Finished \<Longrightarrow> held st = []"
  by (simp_all add: held_def)

lemma held_allocated:
  assumes "queue_ok contents st" "m_poper st = Holding p"
  obtains m where "heap st p = Some m"
  using assms by (auto simp: queue_ok_def pending_pointers_def)

text \<open>Handling the held message leaves the other pending messages as they were.\<close>

lemma pending_after_handling:
  assumes ok: "queue_ok contents st" and p: "m_poper st = Holding p" "heap st p = Some m"
  defines "st1 \<equiv> st\<lparr>consumer := apply_message m (consumer st),
    heap := (if ordinary_message m then (heap st)(p := None) else heap st),
    m_running := (m_running st \<and> m_cmd m \<noteq> cmd_stop), m_poper := At_head\<rparr>"
  shows "pending contents st = m # pending contents st1"
    and "pending_pointers contents st = p # pending_pointers contents st1"
    and "queue_ok contents st1"
proof -
  have ptrs: "pending_pointers contents st = p # contents (q_nodes st)"
    using p(1) by (simp add: pending_pointers_def)
  have ptrs1: "pending_pointers contents st1 = contents (q_nodes st)"
    by (simp add: pending_pointers_def st1_def)
  have d: "p \<notin> set (contents (q_nodes st))" using ok ptrs by (simp add: queue_ok_def)
  then have h: "heap st1 x = heap st x" if "x \<in> set (contents (q_nodes st))" for x
    using that by (auto simp: st1_def)
  show "pending contents st = m # pending contents st1"
    using h p(2) by (simp add: pending_def ptrs ptrs1)
  show "pending_pointers contents st = p # pending_pointers contents st1"
    by (simp add: ptrs ptrs1)
  have "dom (heap st1) \<subseteq> dom (heap st)" "heap_top st1 = heap_top st" by (auto simp: st1_def)
  moreover have "set (contents (q_nodes st)) \<subseteq> dom (heap st1)"
    using ok h by (auto simp: queue_ok_def ptrs dom_def)
  moreover have "\<forall>x \<in> dom (heap st1). x < heap_top st1"
    using calculation(1,2) ok unfolding queue_ok_def by (metis subsetD)
  ultimately show "queue_ok contents st1" using ok by (simp add: queue_ok_def ptrs ptrs1)
qed

text \<open>
  One step of the worker: it is defined, it keeps the invariant, it leaves the state the consumer ends
  in as it is, and the pending messages shrink by at most the held one.
\<close>

lemma run_step_ok:
  assumes lf: "fifo_queue lf contents" and ok: "queue_ok contents st"
  obtains st1 where "run_step lf st = Returns st1"
    and "queue_ok contents st1"
    and "eventual_consumer contents st1 = eventual_consumer contents st"
    and "pending contents st1 = pending contents st
      \<or> (\<exists>p m. m_poper st = Holding p \<and> heap st p = Some m \<and> pending contents st = m # pending contents st1)"
proof (cases "m_poper st")
  case (Holding p)
  obtain m where m: "heap st p = Some m" by (rule held_allocated [OF ok Holding])
  note after = pending_after_handling [OF ok Holding m]
  show ?thesis
    using Holding m after(1,3)
    by (intro that [OF run_step_holding [OF Holding m]]) (auto simp: eventual_consumer_def)
next
  case In_body
  show ?thesis
  proof (cases rule: fifo_pop_cases [OF lf, of "q_nodes st", case_names empty cons])
    case empty
    then have eq: "run_step lf st = Returns (st\<lparr>m_poper := At_head\<rparr>)"
      using run_step_body [OF lf In_body] by simp
    show ?thesis
      by (rule that [OF eq])
        (use ok In_body in \<open>simp_all add: eventual_consumer_def pending_def pending_pointers_def queue_ok_def\<close>)
  next
    case (cons p q')
    then have eq: "run_step lf st = Returns (st\<lparr>q_nodes := q', m_poper := Holding p\<rparr>)"
      using run_step_body [OF lf In_body] by simp
    show ?thesis
      by (rule that [OF eq])
        (use ok In_body cons(1) in \<open>simp_all add: eventual_consumer_def pending_def pending_pointers_def queue_ok_def\<close>)
  qed
next
  case At_head
  then have eq: "run_step lf st = Returns (st\<lparr>m_poper := (if m_running st then In_body else Finished)\<rparr>)"
    by (simp add: run_step_def)
  show ?thesis
    by (rule that [OF eq])
      (use ok At_head in \<open>simp_all add: eventual_consumer_def pending_def pending_pointers_def queue_ok_def held_def\<close>)
qed (use that [of st] ok in \<open>simp_all add: run_step_def\<close>)

text \<open>What a step does to the consumer: nothing, or it handles the first pending message.\<close>

lemma run_step_consumer:
  assumes lf: "fifo_queue lf contents" and ok: "queue_ok contents st" and step: "run_step lf st = Returns st1"
  shows "consumer st1 = consumer st \<and> pending contents st1 = pending contents st
    \<or> (\<exists>m. pending contents st = m # pending contents st1 \<and> consumer st1 = apply_message m (consumer st))"
proof (cases "m_poper st")
  case (Holding p)
  obtain m where m: "heap st p = Some m" by (rule held_allocated [OF ok Holding])
  then show ?thesis
    using step run_step_holding [OF Holding m, of lf] pending_after_handling(1) [OF ok Holding m] by auto
next
  case In_body
  then show ?thesis
    using step run_step_body [OF lf In_body]
    by (cases rule: fifo_pop_cases [OF lf, of "q_nodes st"])
      (auto simp: pending_def pending_pointers_def)
qed (use step in \<open>auto simp: run_step_def pending_def pending_pointers_def held_def\<close>)

text \<open>Sending: the message is pending when the queue runs and lost when it does not.\<close>

lemma queue_send_eq:
  "queue_send lf m st = st\<lparr>heap := (heap st)(heap_top st \<mapsto> m), heap_top := Suc (heap_top st),
     q_nodes := (if m_running st then lf_push lf (heap_top st) (q_nodes st) else q_nodes st)\<rparr>"
  by (simp add: queue_send_def new_message_def queue_push_def)

lemma queue_send_frame [simp]:
  "heap (queue_send lf m st) = (heap st)(heap_top st \<mapsto> m)"
  "heap_top (queue_send lf m st) = Suc (heap_top st)"
  "m_running (queue_send lf m st) = m_running st"
  "m_poper (queue_send lf m st) = m_poper st"
  "consumer (queue_send lf m st) = consumer st"
  by (simp_all add: queue_send_eq)

lemma held_send [simp]: "held (queue_send lf m st) = held st"
  by (simp add: queue_send_eq held_def)

lemma pending_pointers_send:
  assumes "fifo_queue lf contents"
  shows "pending_pointers contents (queue_send lf m st) =
    pending_pointers contents st @ (if m_running st then [heap_top st] else [])"
  by (simp add: pending_pointers_def queue_send_eq [of lf m st] held_def fifo_push [OF assms])

lemma queue_send_ok:
  assumes lf: "fifo_queue lf contents" and ok: "queue_ok contents st"
  shows "queue_ok contents (queue_send lf m st)"
    and "pending contents (queue_send lf m st) = pending contents st @ (if m_running st then [m] else [])"
    and "consumer (queue_send lf m st) = consumer st"
proof -
  let ?ps = "pending_pointers contents st"
  have below: "heap_top st \<notin> set ?ps" using ok by (auto simp: queue_ok_def)
  have heap: "heap (queue_send lf m st) = (heap st)(heap_top st \<mapsto> m)"
    and top: "heap_top (queue_send lf m st) = Suc (heap_top st)"
    by (simp_all add: queue_send_eq)
  show "queue_ok contents (queue_send lf m st)"
    using ok below unfolding queue_ok_def pending_pointers_send [OF lf] heap top
    by (auto simp: less_Suc_eq)
  have "map (\<lambda>p. the (((heap st)(heap_top st \<mapsto> m)) p)) ?ps = map (\<lambda>p. the (heap st p)) ?ps"
    using below by (auto intro!: map_cong)
  then show "pending contents (queue_send lf m st) = pending contents st @ (if m_running st then [m] else [])"
    by (simp add: pending_def pending_pointers_send [OF lf] heap)
  show "consumer (queue_send lf m st) = consumer st" by (simp add: queue_send_eq)
qed

lemma eventual_send_running:
  assumes "fifo_queue lf contents" "queue_ok contents st" "m_running st"
  shows "eventual_consumer contents (queue_send lf m st) = apply_message m (eventual_consumer contents st)"
  using queue_send_ok [OF assms(1,2)] assms(3) by (simp add: eventual_consumer_def)

subsection \<open>The model implements the interface\<close>

lemma working_send:
  assumes lf: "fifo_queue lf contents" and w: "working contents st" and m: "ordinary_message m"
  shows "working contents (queue_send lf m st)"
proof -
  have ok: "queue_ok contents st" and run: "m_running st" using w by (simp_all add: working_def)
  have "dom (heap (queue_send lf m st)) = insert (heap_top st) (dom (heap st))"
    by (simp add: queue_send_eq)
  then have "no_leak contents (queue_send lf m st)"
    using w by (simp add: no_leak_def working_def pending_pointers_send [OF lf] run)
  moreover have "m_running (queue_send lf m st)" "m_poper (queue_send lf m st) = m_poper st"
    using run by (simp_all add: queue_send_eq)
  ultimately show ?thesis
    using w m queue_send_ok [OF lf ok] by (auto simp: working_def)
qed

lemma work_cases:
  assumes lf: "fifo_queue lf contents" and w: "working contents st"
  shows "working contents (work lf st)
    \<and> eventual_consumer contents (work lf st) = eventual_consumer contents st
    \<and> (pending contents st \<noteq> [] \<longrightarrow> work_rank contents (work lf st) < work_rank contents st)
    \<and> (pending contents st = [] \<longrightarrow> pending contents (work lf st) = [])"
proof -
  have ok: "queue_ok contents st" and leak: "no_leak contents st" and run: "m_running st"
    and ord: "\<forall>m \<in> set (pending contents st). ordinary_message m"
    using w by (simp_all add: working_def)
  obtain st1 where step: "run_step lf st = Returns st1" "queue_ok contents st1"
    "eventual_consumer contents st1 = eventual_consumer contents st"
    and pend: "pending contents st1 = pending contents st
      \<or> (\<exists>p m. m_poper st = Holding p \<and> heap st p = Some m \<and> pending contents st = m # pending contents st1)"
    by (rule run_step_ok [OF lf ok])
  have work: "work lf st = st1" by (simp add: work_def step(1))
  have rest: "no_leak contents st1 \<and> m_running st1 \<and> m_poper st1 \<noteq> Not_joinable \<and> m_poper st1 \<noteq> Finished
    \<and> (pending contents st \<noteq> [] \<longrightarrow> work_rank contents st1 < work_rank contents st)"
  proof (cases "m_poper st")
    case (Holding p)
    obtain m where m: "heap st p = Some m" by (rule held_allocated [OF ok Holding])
    note after = pending_after_handling [OF ok Holding m]
    have "ordinary_message m" using ord after(1) by simp
    then have st1: "st1 = st\<lparr>consumer := apply_message m (consumer st), heap := (heap st)(p := None),
        m_running := True, m_poper := At_head\<rparr>"
      using step(1) run_step_holding [OF Holding m, of lf] run by (auto simp: ordinary_message_def)
    have "p \<notin> set (contents (q_nodes st))"
      using ok Holding by (simp add: queue_ok_def pending_pointers_def)
    then show ?thesis
      using leak Holding by (auto simp: st1 no_leak_def pending_pointers_def work_rank_def)
  next
    case In_body
    have "st1 = (case lf_pop lf (q_nodes st) of None \<Rightarrow> st\<lparr>m_poper := At_head\<rparr>
        | Some (p, q) \<Rightarrow> st\<lparr>q_nodes := q, m_poper := Holding p\<rparr>)"
      using step(1) run_step_body [OF lf In_body] by simp
    then show ?thesis
      using In_body run leak
      by (cases rule: fifo_pop_cases [OF lf, of "q_nodes st"])
        (simp_all add: no_leak_def pending_pointers_def pending_def work_rank_def)
  next
    case At_head
    then have "st1 = st\<lparr>m_poper := In_body\<rparr>" using step(1) run by (simp add: run_step_def)
    then show ?thesis using At_head run leak by (simp add: no_leak_def pending_pointers_def work_rank_def)
  qed (use w in \<open>simp_all add: working_def\<close>)
  have "set (pending contents st1) \<subseteq> set (pending contents st)" using pend by auto
  then show ?thesis using rest step pend ord unfolding work working_def by auto
qed

interpretation queue: delivery "queue_send lf" "work lf" "eventual_consumer contents" apply_message
  "\<lambda>st. fifo_queue lf contents \<and> working contents st" ordinary_message
  "\<lambda>st. length (pending contents st)" "work_rank contents"
  for lf contents
proof
  fix s :: "'a queue_system" and m
  assume a: "fifo_queue lf contents \<and> working contents s" and m: "ordinary_message m"
  then show "fifo_queue lf contents \<and> working contents (queue_send lf m s)" by (simp add: working_send)
  from a show "eventual_consumer contents (queue_send lf m s) = apply_message m (eventual_consumer contents s)"
    by (simp add: eventual_send_running working_def)
qed (use work_cases in auto)

end
