(* ===== verification/MessageQueueProps.thy ===== *)
theory MessageQueueProps
  imports MessageQueueSpec
begin

section \<open>Properties of the message queue\<close>

text \<open>
  Runs of the queue as explicit sequences of events: a message that a sender sends, or a step of the
  worker. Delivery in order, the counts that result, what happens to the messages when the queue is
  stopped, the memory that is never freed, and the protocol of \<open>start\<close>, \<open>stop\<close> and the destructor.
\<close>

subsection \<open>Runs\<close>

fun run_queue :: "'q lockfree \<Rightarrow> message option list \<Rightarrow> 'q queue_system \<Rightarrow> 'q queue_system outcome" where
  "run_queue lf [] st = Returns st"
| "run_queue lf (Some m # evs) st = run_queue lf evs (queue_send lf m st)"
| "run_queue lf (None # evs) st =
     (case run_step lf st of Returns st1 \<Rightarrow> run_queue lf evs st1 | r \<Rightarrow> r)"

abbreviation worker_steps :: "nat \<Rightarrow> message option list" where
  "worker_steps n \<equiv> replicate n None"

definition sent :: "message option list \<Rightarrow> message list" where
  "sent evs = List.map_filter (\<lambda>e. e) evs"

lemma sent_simps [simp]:
  "sent [] = []" "sent (Some m # evs) = m # sent evs" "sent (None # evs) = sent evs"
  "sent (xs @ ys) = sent xs @ sent ys" "sent (worker_steps n) = []"
  by (induction n) (simp_all add: sent_def map_filter_simps map_filter_def)

text \<open>The queue as \<open>main\<close> starts it.\<close>

definition started :: "'q \<Rightarrow> map_manager \<Rightarrow> 'q queue_system" where
  "started q mgr = snd (queue_start (setConsumer True (ThreadedMessageQueue_new q mgr)))"

lemma started_eq:
  "started q mgr = \<lparr>q_nodes = q, m_running = True, m_consumer = True, m_poper = At_head,
     heap = (\<lambda>_. None), heap_top = 0, consumer = mgr\<rparr>"
  by (simp add: started_def queue_start_def setConsumer_def ThreadedMessageQueue_new_def)

lemma working_started:
  "contents q = [] \<Longrightarrow> working contents (started q mgr)"
  by (simp add: working_def queue_ok_def no_leak_def pending_def pending_pointers_def held_def started_eq)

lemma eventual_started: "contents q = [] \<Longrightarrow> eventual_consumer contents (started q mgr) = mgr"
  by (simp add: eventual_consumer_def pending_def pending_pointers_def held_def started_eq)

lemma run_step_work:
  assumes "fifo_queue lf contents" "queue_ok contents st"
  shows "run_step lf st = Returns (work lf st)" "queue_ok contents (work lf st)"
  by (rule run_step_ok [OF assms], simp add: work_def)+

text \<open>A run of a working queue is the run of the interface.\<close>

lemma run_queue_fold:
  assumes "fifo_queue lf contents" "working contents st" "\<forall>m. Some m \<in> set evs \<longrightarrow> ordinary_message m"
  shows "run_queue lf evs st =
    Returns (fold (\<lambda>e. case e of Some m \<Rightarrow> queue_send lf m | None \<Rightarrow> work lf) evs st)"
  using assms(2,3)
proof (induction evs arbitrary: st)
  case (Cons e evs)
  have "working contents (case e of Some m \<Rightarrow> queue_send lf m st | None \<Rightarrow> work lf st)"
    using Cons.prems assms(1) work_cases [OF assms(1) Cons.prems(1)]
    by (auto simp: working_send split: option.splits)
  moreover have "run_step lf st = Returns (work lf st)"
    using run_step_work(1) [OF assms(1)] Cons.prems(1) by (simp add: working_def)
  ultimately show ?case using Cons.IH Cons.prems(2) by (cases e) simp_all
qed simp

lemma run_queue_works:
  "fold (\<lambda>e. case e of Some m \<Rightarrow> queue_send lf m | None \<Rightarrow> work lf) (worker_steps n) st = (work lf ^^ n) st"
  by (induction n arbitrary: st) (simp_all add: funpow_swap1)

lemma drained:
  assumes "working contents st" "pending contents st = []"
  shows "consumer st = eventual_consumer contents st" "heap st = (\<lambda>_. None)"
proof -
  show "consumer st = eventual_consumer contents st" using assms(2) by (simp add: eventual_consumer_def)
  have "pending_pointers contents st = []" using assms(2) by (simp add: pending_def)
  then show "heap st = (\<lambda>_. None)" using assms(1) by (simp add: working_def no_leak_def)
qed

lemma work_rank_le:
  assumes "working contents st"
  shows "work_rank contents st \<le> 3 * length (pending contents st) + 1"
  using assms
  by (cases "m_poper st") (simp_all add: work_rank_def pending_def pending_pointers_def working_def)

lemma run_queue_drains:
  assumes lf: "fifo_queue lf contents" and w: "working contents st"
    and n: "3 * length (pending contents st) + 1 \<le> n"
  shows "\<exists>st1. run_queue lf (worker_steps n) st = Returns st1
    \<and> consumer st1 = eventual_consumer contents st \<and> heap st1 = (\<lambda>_. None)
    \<and> working contents st1 \<and> pending contents st1 = []"
proof -
  let ?st1 = "(work lf ^^ n) st"
  have ready: "fifo_queue lf contents \<and> working contents st" using lf w by simp
  have "run_queue lf (worker_steps n) st = Returns ?st1"
    using run_queue_fold [OF lf w, of "worker_steps n"] by (simp add: run_queue_works)
  moreover have "working contents ?st1" "eventual_consumer contents ?st1 = eventual_consumer contents st"
    using queue.ready_works [OF ready, of n] queue.eventual_works [OF ready, of n] by simp_all
  moreover have "pending contents ?st1 = []"
    using queue.work_drains [OF ready, of n] work_rank_le [OF w] n by simp
  ultimately show ?thesis using drained [of contents ?st1] by auto
qed

lemma pending_bound:
  assumes lf: "fifo_queue lf contents" and w: "working contents st"
    and ord: "\<forall>m. Some m \<in> set evs \<longrightarrow> ordinary_message m"
  shows "length (pending contents (fold (\<lambda>e. case e of Some m \<Rightarrow> queue_send lf m | None \<Rightarrow> work lf) evs st))
    \<le> length (pending contents st) + length (sent evs)"
  using w ord
proof (induction evs arbitrary: st)
  case (Cons e evs)
  have ok: "queue_ok contents st" using Cons.prems(1) by (simp add: working_def)
  show ?case
  proof (cases e)
    case None
    obtain st1 where "run_step lf st = Returns st1"
      and "pending contents st1 = pending contents st
        \<or> (\<exists>p m. m_poper st = Holding p \<and> heap st p = Some m \<and> pending contents st = m # pending contents st1)"
      by (rule run_step_ok [OF lf ok])
    then have "length (pending contents (work lf st)) \<le> length (pending contents st)"
      by (auto simp: work_def)
    moreover have "working contents (work lf st)" using work_cases [OF lf Cons.prems(1)] by blast
    ultimately show ?thesis using Cons.IH [of "work lf st"] Cons.prems(2) None by simp
  next
    case (Some m)
    then have "working contents (queue_send lf m st)" using Cons.prems by (simp add: working_send [OF lf])
    then show ?thesis
      using Cons.IH [of "queue_send lf m st"] Cons.prems Some queue_send_ok(2) [OF lf ok, of m]
      by (simp add: working_def)
  qed
qed simp

subsection \<open>A queue for the concrete runs\<close>

definition list_lockfree :: "pointer list lockfree" where
  "list_lockfree = \<lparr>lf_empty = (\<lambda>q. q = []), lf_push = (\<lambda>p q. q @ [p]),
     lf_pop = (\<lambda>q. case q of [] \<Rightarrow> None | p # ps \<Rightarrow> Some (p, ps))\<rparr>"

lemma fifo_list: "fifo_queue list_lockfree (\<lambda>q. q)"
  by (simp add: fifo_queue_def list_lockfree_def split: list.splits)

subsection \<open>Delivery\<close>

text \<open>
  C12. Messages are delivered exactly once and in the order they were sent: whatever the interleaving of
  senders and worker, the run has no undefined behaviour, and after three more steps of the worker for
  each pending message (and one) the manager is in the state that handling all the messages sent in
  their order gives, and every message has been deleted.
\<close>

theorem queue_delivers_in_order:
  assumes lf: "fifo_queue lf contents" and q: "contents q = []"
    and ord: "\<forall>m. Some m \<in> set evs \<longrightarrow> ordinary_message m"
  shows "\<exists>st. run_queue lf evs (started q mgr) = Returns st
    \<and> length (pending contents st) \<le> length (sent evs)
    \<and> (\<forall>n \<ge> 3 * length (pending contents st) + 1. \<exists>st1. run_queue lf (worker_steps n) st = Returns st1
         \<and> consumer st1 = fold apply_message (sent evs) mgr \<and> heap st1 = (\<lambda>_. None))"
proof -
  let ?st = "fold (\<lambda>e. case e of Some m \<Rightarrow> queue_send lf m | None \<Rightarrow> work lf) evs (started q mgr)"
  have ready: "fifo_queue lf contents \<and> working contents (started q mgr)"
    using lf working_started [of contents q mgr] q by simp
  have w: "working contents ?st" and ev: "eventual_consumer contents ?st = fold apply_message (sent evs) mgr"
    using queue.run_events [OF ready ord] eventual_started [of contents q mgr] q by (simp_all add: sent_def)
  have "run_queue lf evs (started q mgr) = Returns ?st"
    using run_queue_fold [OF lf _ ord] ready by simp
  moreover have "length (pending contents ?st) \<le> length (sent evs)"
    using pending_bound [OF lf _ ord, of "started q mgr"] ready q
    by (simp add: pending_def pending_pointers_def held_def started_eq)
  ultimately show ?thesis using run_queue_drains [OF lf w] unfolding ev by blast
qed

lemma queue_delivers_in_order_witness:
  defines "evs \<equiv> [Some (Message_strings cmd_addKey ''a'' ''u'' 0 0 80), None,
    Some (Message_numbers cmd_setRankingLength 0 3 0), Some (Message_strings cmd_addKey ''a'' ''v'' 0 0 81)]"
  shows "\<exists>st. run_queue list_lockfree evs (started [] MapManager_default) = Returns st
    \<and> length (pending (\<lambda>q. q) st) \<le> length (sent evs)"
proof -
  have "\<forall>m. Some m \<in> set evs \<longrightarrow> ordinary_message m"
    by (auto simp: evs_def ordinary_message_def Message_strings_def Message_numbers_def)
  then show ?thesis using queue_delivers_in_order [OF fifo_list, of "[]" evs MapManager_default] by auto
qed

subsection \<open>What the manager counts\<close>

definition adds :: "string \<Rightarrow> message list \<Rightarrow> nat" where
  "adds k ms = length (filter (\<lambda>m. m_cmd m = cmd_addKey \<and> m_str1 m = k) ms)"

lemma apply_message_counts:
  assumes "rank_inv mgr" "\<forall>k. frequency_of mgr k < 2 ^ 64 - 1"
  shows "rank_inv (apply_message m mgr) \<and> frequency_of (apply_message m mgr) k = frequency_of mgr k + adds k [m]"
  using assms
  by (cases "m_cmd m")
    (auto simp: apply_message_def adds_def rank_inv_addOrUpdateKey prev_order_below
      frequency_of_addOrUpdateKey manager.good_resize manager.count_resize)

lemma fold_apply_message_counts:
  assumes "rank_inv mgr" "\<forall>k. frequency_of mgr k + length ms < 2 ^ 64"
  shows "rank_inv (fold apply_message ms mgr)
    \<and> frequency_of (fold apply_message ms mgr) k = frequency_of mgr k + adds k ms"
  using assms
proof (induction ms arbitrary: mgr)
  case (Cons m ms)
  have b: "\<forall>k. frequency_of mgr k < 2 ^ 64 - 1"
  proof
    fix k show "frequency_of mgr k < 2 ^ 64 - 1" using Cons.prems(2) [rule_format, of k] by simp
  qed
  note step = apply_message_counts [OF Cons.prems(1) b, of m]
  have "\<forall>k. frequency_of (apply_message m mgr) k + length ms < 2 ^ 64"
  proof
    fix k
    have "adds k [m] \<le> 1" by (simp add: adds_def)
    then show "frequency_of (apply_message m mgr) k + length ms < 2 ^ 64"
      using Cons.prems(2) [rule_format, of k] step [of k] by simp
  qed
  then have "rank_inv (fold apply_message ms (apply_message m mgr))
      \<and> frequency_of (fold apply_message ms (apply_message m mgr)) k
        = frequency_of (apply_message m mgr) k + adds k ms"
    using step by (intro Cons.IH) simp_all
  then show ?case using step [of k] by (simp add: adds_def)
qed (simp add: adds_def)

subsection \<open>Memory that is never freed\<close>

text \<open>A message that is allocated and that neither the queue nor the worker can reach.\<close>

definition leaked :: "('q \<Rightarrow> pointer list) \<Rightarrow> pointer \<Rightarrow> message \<Rightarrow> 'q queue_system \<Rightarrow> bool" where
  "leaked contents p m st \<longleftrightarrow> heap st p = Some m \<and> p < heap_top st \<and> p \<notin> set (pending_pointers contents st)"

lemma leaked_send:
  assumes "fifo_queue lf contents" "leaked contents p m st"
  shows "leaked contents p m (queue_send lf m2 st)"
proof -
  have "heap (queue_send lf m2 st) = (heap st)(heap_top st \<mapsto> m2)"
    "heap_top (queue_send lf m2 st) = Suc (heap_top st)" by (simp_all add: queue_send_eq)
  then show ?thesis using assms(2) by (auto simp: leaked_def pending_pointers_send [OF assms(1)])
qed

lemma leaked_step:
  assumes lf: "fifo_queue lf contents" and l: "leaked contents p m st" and ok: "queue_ok contents st"
  shows "leaked contents p m (work lf st)"
proof (cases "m_poper st")
  case (Holding q)
  obtain m2 where m: "heap st q = Some m2" by (rule held_allocated [OF ok Holding])
  then show ?thesis
    using l Holding run_step_holding [OF Holding m, of lf]
    by (auto simp: work_def leaked_def pending_pointers_def)
next
  case In_body
  then show ?thesis
    using l run_step_body [OF lf In_body]
    by (cases rule: fifo_pop_cases [OF lf, of "q_nodes st"])
      (auto simp: work_def leaked_def pending_pointers_def)
qed (use l in \<open>simp_all add: work_def run_step_def leaked_def pending_pointers_def held_def\<close>)

lemma leaked_run:
  assumes "fifo_queue lf contents" "queue_ok contents st" "leaked contents p m st"
  shows "\<exists>st1. run_queue lf evs st = Returns st1 \<and> leaked contents p m st1 \<and> queue_ok contents st1"
  using assms(2,3)
proof (induction evs arbitrary: st)
  case (Cons e evs)
  then show ?case
    using run_step_work [OF assms(1) Cons.prems(1)] leaked_step [OF assms(1) Cons.prems(2,1)]
      queue_send_ok(1) [OF assms(1) Cons.prems(1)] leaked_send [OF assms(1) Cons.prems(2)]
    by (cases e) simp_all
qed simp

text \<open>
  \<open>push\<close> on a queue that is not running drops the message and leaks it: neither the pending
  messages nor the manager change, the caller is not told, and no later run of senders and worker frees
  the message.
\<close>

theorem push_when_stopped_leaks:
  assumes lf: "fifo_queue lf contents" and ok: "queue_ok contents st" and stopped: "\<not> m_running st"
  shows "pending contents (queue_send lf m st) = pending contents st
    \<and> consumer (queue_send lf m st) = consumer st
    \<and> fst (queue_push lf (Some p) st) = Returns ()
    \<and> (\<exists>st1. run_queue lf evs (queue_send lf m st) = Returns st1 \<and> heap st1 (heap_top st) = Some m)"
proof -
  have "leaked contents (heap_top st) m (queue_send lf m st)"
    using ok stopped by (auto simp: leaked_def pending_pointers_send [OF lf] queue_ok_def)
  from leaked_run [OF lf queue_send_ok(1) [OF lf ok] this, of evs]
  have "\<exists>st1. run_queue lf evs (queue_send lf m st) = Returns st1 \<and> heap st1 (heap_top st) = Some m"
    unfolding leaked_def by blast
  then show ?thesis using queue_send_ok [OF lf ok, of m] stopped by (simp add: queue_push_def)
qed

lemma queue_ok_new: "contents q = [] \<Longrightarrow> queue_ok contents (ThreadedMessageQueue_new q mgr)"
  by (simp add: queue_ok_def pending_pointers_def held_def ThreadedMessageQueue_new_def)

lemma push_when_stopped_leaks_witness:
  "\<exists>st1. run_queue list_lockfree [None, None] (queue_send list_lockfree Message_default
      (ThreadedMessageQueue_new [] MapManager_default)) = Returns st1 \<and> heap st1 0 = Some Message_default"
  using push_when_stopped_leaks [OF fifo_list queue_ok_new, of "[]" MapManager_default Message_default 0 "[None, None]"]
  by (simp add: ThreadedMessageQueue_new_def)

text \<open>
  The worker deletes only the messages of the two commands it knows: a message of any other command,
  \<open>stop\<close> included, changes nothing in the manager when it is handled and is never freed afterwards.
\<close>

theorem other_commands_leak:
  assumes lf: "fifo_queue lf contents" and ok: "queue_ok contents st"
    and held: "m_poper st = Holding p" "heap st p = Some m" and other: "\<not> ordinary_message m"
  shows "\<exists>st1. run_step lf st = Returns st1 \<and> consumer st1 = consumer st
    \<and> m_running st1 = (m_running st \<and> m_cmd m \<noteq> cmd_stop)
    \<and> (\<exists>st2. run_queue lf evs st1 = Returns st2 \<and> heap st2 p = Some m)"
proof -
  let ?st1 = "st\<lparr>consumer := apply_message m (consumer st),
    heap := (if ordinary_message m then (heap st)(p := None) else heap st),
    m_running := (m_running st \<and> m_cmd m \<noteq> cmd_stop), m_poper := At_head\<rparr>"
  note after = pending_after_handling [OF ok held]
  have p: "p < heap_top st" using ok held(2) by (auto simp: queue_ok_def)
  have "distinct (p # pending_pointers contents ?st1)" using ok after(2) by (simp add: queue_ok_def)
  then have "leaked contents p m ?st1"
    using held(2) other p by (simp add: leaked_def)
  from leaked_run [OF lf after(3) this, of evs]
  have "\<exists>st2. run_queue lf evs ?st1 = Returns st2 \<and> heap st2 p = Some m"
    unfolding leaked_def by blast
  moreover have "apply_message m (consumer st) = consumer st"
    using other by (cases "m_cmd m") (simp_all add: apply_message_def ordinary_message_def)
  ultimately show ?thesis using run_step_holding [OF held, of lf] by simp
qed

lemma other_commands_leak_witness:
  defines "st \<equiv> (started [] MapManager_default)\<lparr>m_poper := Holding 0,
    heap := [0 \<mapsto> Message_numbers cmd_stop 0 0 0], heap_top := 1\<rparr>"
  shows "\<exists>st1. run_step list_lockfree st = Returns st1 \<and> \<not> m_running st1
    \<and> (\<exists>st2. run_queue list_lockfree [None, None, None] st1 = Returns st2
         \<and> heap st2 0 = Some (Message_numbers cmd_stop 0 0 0))"
proof -
  have "queue_ok (\<lambda>q. q) st" "m_poper st = Holding 0" "heap st 0 = Some (Message_numbers cmd_stop 0 0 0)"
    by (auto simp: st_def queue_ok_def pending_pointers_def held_def started_eq split: if_splits)
  then show ?thesis
    using other_commands_leak [OF fifo_list, of st 0 "Message_numbers cmd_stop 0 0 0" "[None, None, None]"]
    unfolding ordinary_message_def by (auto simp: Message_numbers_def)
qed

subsection \<open>Stopping\<close>

text \<open>
  The worker after \<open>m_running\<close> was reset: three steps bring it to its end, and it handles the message it
  holds or, when it had passed the test, the next one, but no other.
\<close>

lemma run_queue_replicate:
  "run_queue lf (worker_steps (Suc n)) st =
     (case run_step lf st of Returns st1 \<Rightarrow> run_queue lf (worker_steps n) st1 | r \<Rightarrow> r)"
  by simp

text \<open>Without \<open>m_running\<close>: a worker that has ended, that is at the head of its loop, and that holds a message.\<close>

lemma worker_finished: "m_poper x = Finished \<Longrightarrow> run_queue lf (worker_steps n) x = Returns x"
  by (induction n) (simp_all add: run_step_def)

lemma worker_at_head:
  assumes "m_poper x = At_head" "\<not> m_running x"
  shows "run_queue lf (worker_steps (Suc n)) x = Returns (x\<lparr>m_poper := Finished\<rparr>)"
    and "queue_ok contents (x\<lparr>m_poper := Finished\<rparr>) = queue_ok contents x"
    and "pending contents (x\<lparr>m_poper := Finished\<rparr>) = pending contents x"
  using assms worker_finished [of "x\<lparr>m_poper := Finished\<rparr>" lf n]
  by (simp_all add: run_step_def queue_ok_def pending_def pending_pointers_def held_def)

lemma worker_holding:
  assumes x: "m_poper x = Holding p" "\<not> m_running x" "queue_ok contents x"
  shows "\<exists>st1. run_queue lf (worker_steps (Suc (Suc n))) x = Returns st1 \<and> m_poper st1 = Finished
      \<and> queue_ok contents st1 \<and> \<not> m_running st1
      \<and> (\<exists>k \<le> 1. pending contents st1 = drop k (pending contents x)
           \<and> consumer st1 = fold apply_message (take k (pending contents x)) (consumer x))"
proof -
  obtain m where m: "heap x p = Some m" by (rule held_allocated [OF x(3,1)])
  let ?y = "x\<lparr>consumer := apply_message m (consumer x),
    heap := (if ordinary_message m then (heap x)(p := None) else heap x),
    m_running := (m_running x \<and> m_cmd m \<noteq> cmd_stop), m_poper := At_head\<rparr>"
  have y: "m_poper ?y = At_head" "\<not> m_running ?y" using x(2) by simp_all
  have "run_queue lf (worker_steps (Suc (Suc n))) x = Returns (?y\<lparr>m_poper := Finished\<rparr>)"
    using run_step_holding [OF x(1) m, of lf] worker_at_head(1) [OF y, of lf n] by simp
  then show ?thesis
    using pending_after_handling [OF x(3,1) m] worker_at_head(2,3) [OF y, of contents] x(2)
    by (intro exI [of _ "?y\<lparr>m_poper := Finished\<rparr>"] conjI exI [of _ 1]) simp_all
qed

lemma worker_finishes:
  assumes lf: "fifo_queue lf contents" and ok: "queue_ok contents st"
    and flag: "\<not> m_running st" and alive: "m_poper st \<noteq> Not_joinable"
  shows "\<exists>st1. run_queue lf (worker_steps 3) st = Returns st1 \<and> m_poper st1 = Finished
    \<and> queue_ok contents st1 \<and> \<not> m_running st1
    \<and> (\<exists>k \<le> 1. pending contents st1 = drop k (pending contents st)
         \<and> consumer st1 = fold apply_message (take k (pending contents st)) (consumer st))"
proof -
  show ?thesis
  proof (cases "m_poper st")
    case (Holding p)
    then show ?thesis using worker_holding [of st p contents lf 1] flag ok by (simp add: numeral_3_eq_3)
  next
    case At_head
    then show ?thesis using worker_at_head(1) [of st lf 2] worker_at_head(2,3) [of st contents] flag ok by (auto simp: numeral_3_eq_3)
  next
    case Finished
    then show ?thesis using worker_finished [of st lf 3] flag ok by auto
  next
    case In_body
    show ?thesis
    proof (cases rule: fifo_pop_cases [OF lf, of "q_nodes st", case_names empty cons])
      case empty
      let ?y = "st\<lparr>m_poper := At_head\<rparr>"
      have "run_step lf st = Returns ?y" using run_step_body [OF lf In_body] empty by simp
      moreover have "queue_ok contents ?y = queue_ok contents st" "pending contents ?y = pending contents st"
        using In_body by (simp_all add: queue_ok_def pending_def pending_pointers_def held_def)
      ultimately show ?thesis
        using worker_at_head(1) [of ?y lf 1] worker_at_head(2,3) [of ?y contents] flag ok by (auto simp: numeral_3_eq_3)
    next
      case (cons p q')
      let ?y = "st\<lparr>q_nodes := q', m_poper := Holding p\<rparr>"
      have "run_step lf st = Returns ?y" using run_step_body [OF lf In_body] cons by simp
      moreover have "queue_ok contents ?y = queue_ok contents st" "pending contents ?y = pending contents st"
        using In_body cons(1) by (simp_all add: queue_ok_def pending_def pending_pointers_def held_def)
      ultimately show ?thesis using worker_holding [of ?y p contents lf 0] flag ok by (simp add: numeral_3_eq_3)
    qed
  qed (use alive in simp)
qed

text \<open>
  C30. \<open>stop\<close> abandons what is queued: after it reset \<open>m_running\<close>, it waits while the worker is in its
  loop; three steps of the worker later it returns true, and the manager has been given at most one more
  message. Every other pending message, each of them acknowledged to its sender, is still queued, and no
  further run of the worker handles it.
\<close>

theorem stop_abandons_pending:
  assumes lf: "fifo_queue lf contents" and w: "working contents st"
  shows "fst (queue_stop st) = Waits
    \<and> (\<exists>st1. run_queue lf (worker_steps 3) (snd (queue_stop st)) = Returns st1
        \<and> fst (queue_join st1) = Returns True
        \<and> (\<exists>k \<le> 1. consumer st1 = fold apply_message (take k (pending contents st)) (consumer st)
             \<and> pending contents (snd (queue_join st1)) = drop k (pending contents st))
        \<and> (\<forall>n. run_queue lf (worker_steps n) (snd (queue_join st1)) = Returns (snd (queue_join st1))))"
proof -
  let ?st = "st\<lparr>m_running := False\<rparr>"
  have alive: "m_poper st \<noteq> Not_joinable" "m_poper st \<noteq> Finished" and ok: "queue_ok contents st"
    using w by (simp_all add: working_def)
  have stop: "queue_stop st = (Waits, ?st)"
    using alive by (cases "m_poper st") (simp_all add: queue_stop_def queue_join_def)
  have "queue_ok contents ?st" "pending contents ?st = pending contents st"
    using ok by (simp_all add: queue_ok_def pending_def pending_pointers_def held_def)
  then obtain st1 k where st1: "run_queue lf (worker_steps 3) ?st = Returns st1" "m_poper st1 = Finished"
    "k \<le> 1" "pending contents st1 = drop k (pending contents st)"
    "consumer st1 = fold apply_message (take k (pending contents st)) (consumer st)"
    using worker_finishes [OF lf, of ?st] alive by auto
  let ?st2 = "st1\<lparr>m_poper := Not_joinable\<rparr>"
  have join: "queue_join st1 = (Returns True, ?st2)" using st1(2) by (simp add: queue_join_def)
  have "pending contents ?st2 = pending contents st1"
    using st1(2) by (simp add: pending_def pending_pointers_def held_def)
  moreover have "run_queue lf (worker_steps n) ?st2 = Returns ?st2" for n
    by (induction n) (simp_all add: run_step_def)
  ultimately show ?thesis
    unfolding stop join using st1 by (intro conjI exI [of _ st1]) (auto simp: join)
qed

lemma stop_abandons_pending_witness:
  defines "st \<equiv> queue_send list_lockfree (Message_strings cmd_addKey ''a'' ''u'' 0 0 80)
    (started [] MapManager_default)"
  shows "fst (queue_stop st) = Waits
    \<and> (\<exists>st1. run_queue list_lockfree (worker_steps 3) (snd (queue_stop st)) = Returns st1
        \<and> fst (queue_join st1) = Returns True)"
proof -
  have "working (\<lambda>q. q) st"
    unfolding st_def by (rule working_send [OF fifo_list working_started])
      (simp_all add: ordinary_message_def Message_strings_def)
  then show ?thesis using stop_abandons_pending [OF fifo_list, of st] by blast
qed

text \<open>
  The protocol of \<open>start\<close> and \<open>stop\<close>. Without a consumer \<open>start\<close> returns false and changes nothing;
  with one, the first \<open>start\<close> returns true and a second one before \<open>stop\<close> ends the process, also after
  a \<open>stop\<close> message has ended the worker. \<open>stop\<close> before \<open>start\<close>, and a second \<open>stop\<close>, throw
  \<open>std::system_error\<close>.
\<close>

theorem start_stop_protocol:
  fixes st :: "'q queue_system"
  assumes idle: "m_poper st = Not_joinable"
  shows "queue_start (setConsumer False st) = (Returns False, setConsumer False st)
    \<and> fst (queue_stop st) = Throws System_error
    \<and> (let st1 = snd (queue_start (setConsumer True st))
       in fst (queue_start (setConsumer True st)) = Returns True
         \<and> fst (queue_start st1) = Terminates
         \<and> fst (queue_start (st1\<lparr>m_running := False, m_poper := Finished\<rparr>)) = Terminates
         \<and> (let st2 = st1\<lparr>m_poper := Finished\<rparr>
            in fst (queue_stop st2) = Returns True
              \<and> fst (queue_stop (snd (queue_stop st2))) = Throws System_error
              \<and> fst (queue_start (snd (queue_stop st2))) = Returns True))"
  using idle by (simp add: queue_start_def queue_stop_def queue_join_def setConsumer_def Let_def)

lemma start_stop_protocol_witness:
  "fst (queue_stop (ThreadedMessageQueue_new [] MapManager_default)) = Throws System_error"
  by (rule start_stop_protocol [THEN conjunct2, THEN conjunct1]) (simp add: ThreadedMessageQueue_new_def)

subsection \<open>The destructor\<close>

lemma drain_frees:
  assumes lf: "fifo_queue lf contents"
  shows "\<exists>st1. queue_drain lf st = Some st1 \<and> m_poper st1 = m_poper st \<and> contents (q_nodes st1) = []
    \<and> heap st1 = (\<lambda>p. if p \<in> set (contents (q_nodes st)) then None else heap st p)
    \<and> consumer st1 = consumer st"
proof (induction "length (contents (q_nodes st))" arbitrary: st)
  case 0
  then show ?case using fifo_empty [OF lf, of "q_nodes st"] by (subst queue_drain.simps) simp
next
  case (Suc n)
  show ?case
  proof (cases rule: fifo_pop_cases [OF lf, of "q_nodes st", case_names empty cons])
    case (cons p q')
    let ?st = "delete_message p (st\<lparr>q_nodes := q'\<rparr>)"
    have "queue_drain lf st = queue_drain lf ?st" using cons by (subst queue_drain.simps) simp
    moreover have "n = length (contents (q_nodes ?st))" using Suc(2) cons(1) by (simp add: delete_message_def)
    ultimately show ?thesis
      using Suc(1) [of ?st] cons(1) by (auto simp: delete_message_def fun_eq_iff)
  qed (use Suc(2) in simp)
qed

text \<open>
  C38. The destructor returns and frees every queued message: for a stopped and joined queue from which
  nothing leaked, no message is left; a queue that is destroyed with its worker not joined ends the
  process after the same loop.
\<close>

theorem destructor_frees_all:
  assumes lf: "fifo_queue lf contents" and leak: "no_leak contents st"
  shows "\<exists>r. queue_destroy lf st = Some r
    \<and> (if m_poper st = Not_joinable then \<exists>st1. r = Returns st1 \<and> heap st1 = (\<lambda>_. None) else r = Terminates)"
proof -
  obtain st1 where st1: "queue_drain lf st = Some st1" "m_poper st1 = m_poper st"
    "heap st1 = (\<lambda>p. if p \<in> set (contents (q_nodes st)) then None else heap st p)"
    using drain_frees [OF lf, of st] by blast
  have "heap st1 = (\<lambda>_. None)" if "m_poper st = Not_joinable"
  proof -
    have "dom (heap st) = set (contents (q_nodes st))"
      using leak that by (simp add: no_leak_def pending_pointers_def)
    then show ?thesis unfolding st1(3) by (auto simp: fun_eq_iff)
  qed
  then show ?thesis using st1(1,2) by (simp add: queue_destroy_def)
qed

lemma destructor_frees_all_witness:
  defines "st \<equiv> (queue_send list_lockfree Message_default (started [] MapManager_default))\<lparr>m_poper := Not_joinable\<rparr>"
  shows "\<exists>st1. queue_destroy list_lockfree st = Some (Returns st1) \<and> heap st1 = (\<lambda>_. None)"
proof -
  have "no_leak (\<lambda>q. q) st"
    by (simp add: st_def no_leak_def pending_pointers_def queue_send_eq started_eq list_lockfree_def held_def)
  moreover have "m_poper st = Not_joinable" by (simp add: st_def)
  ultimately show ?thesis using destructor_frees_all [OF fifo_list, of st] by auto
qed

end
