(* ===== verification/Streams.thy ===== *)
theory Streams
  imports StdString
begin

section \<open>File streams\<close>

text \<open>
  \<open>std::ifstream\<close> and \<open>std::ofstream\<close> as the backup code uses them. The disk is a parameter of the
  operations that open files: for each name the bytes a file holds, whether it can be opened, after how
  many bytes a read fails, and how many bytes the device takes; and the size of a stream's buffer. A failed
  open sets \<open>failbit\<close> only; a failed read or write sets \<open>badbit\<close>; reaching the end of a file sets \<open>eofbit\<close>. \<open>getline\<close> on a stream
  that is not good sets \<open>failbit\<close> and leaves the string as it was.
\<close>

subsection \<open>Input\<close>

record ifstream =
  is_rest :: string      \<comment> \<open>the bytes still to be read\<close>
  is_broken :: bool      \<comment> \<open>the read after these bytes fails instead of reaching the end\<close>
  is_eofbit :: bool
  is_failbit :: bool
  is_badbit :: bool

definition is_good :: "ifstream \<Rightarrow> bool" where
  "is_good is = (\<not> is_eofbit is \<and> \<not> is_failbit is \<and> \<not> is_badbit is)"

definition is_fail :: "ifstream \<Rightarrow> bool" where
  "is_fail is = (is_failbit is \<or> is_badbit is)"

text \<open>The stream on a file that opened, and on one that did not.\<close>

definition open_in :: "string \<Rightarrow> bool \<Rightarrow> ifstream" where
  "open_in bytes broken =
     \<lparr>is_rest = bytes, is_broken = broken, is_eofbit = False, is_failbit = False, is_badbit = False\<rparr>"

definition open_in_failed :: ifstream where
  "open_in_failed =
     \<lparr>is_rest = [], is_broken = False, is_eofbit = False, is_failbit = True, is_badbit = False\<rparr>"

text \<open>\<open>std::getline (is, str, delim)\<close>: the new stream and the new value of the string.\<close>

definition getline :: "char \<Rightarrow> ifstream \<Rightarrow> string \<Rightarrow> ifstream \<times> string" where
  "getline delim is str =
     (if \<not> is_good is then (is\<lparr>is_failbit := True\<rparr>, str)
      else
        let line = takeWhile (\<lambda>c. c \<noteq> delim) (is_rest is)
        in case dropWhile (\<lambda>c. c \<noteq> delim) (is_rest is) of
             _ # r \<Rightarrow> (is\<lparr>is_rest := r\<rparr>, line)
           | [] \<Rightarrow>
               (if is_broken is
                then is\<lparr>is_rest := [], is_badbit := True, is_failbit := (line = [])\<rparr>
                else is\<lparr>is_rest := [], is_eofbit := True, is_failbit := (line = [])\<rparr>, line))"

subsection \<open>Output\<close>

record ofstream =
  os_written :: string     \<comment> \<open>the bytes the device has taken\<close>
  os_buffer :: string      \<comment> \<open>the bytes that wait in the buffer\<close>
  os_capacity :: nat
  os_room :: "nat option"  \<comment> \<open>how many bytes the device still takes; None for no limit\<close>
  os_failbit :: bool
  os_badbit :: bool

definition open_out :: "nat \<Rightarrow> nat option \<Rightarrow> ofstream" where
  "open_out capacity room =
     \<lparr>os_written = [], os_buffer = [], os_capacity = capacity, os_room = room, os_failbit = False, os_badbit = False\<rparr>"

definition open_out_failed :: ofstream where
  "open_out_failed =
     \<lparr>os_written = [], os_buffer = [], os_capacity = 0, os_room = None, os_failbit = True, os_badbit = False\<rparr>"

text \<open>Giving bytes to the device empties the buffer; whether the device took them all.\<close>

definition to_device :: "string \<Rightarrow> ofstream \<Rightarrow> bool \<times> ofstream" where
  "to_device s os =
     (case os_room os of
        None \<Rightarrow> (True, os\<lparr>os_written := os_written os @ s, os_buffer := []\<rparr>)
      | Some n \<Rightarrow> (length s \<le> n,
          os\<lparr>os_written := os_written os @ take n s, os_room := Some (n - length s), os_buffer := []\<rparr>))"

text \<open>
  \<open>os << s\<close>: nothing happens on a stream that is not good; the bytes wait in the buffer until it is full.
  When the device does not take what the buffer holds then, \<open>badbit\<close> is set.
\<close>

definition put_string :: "string \<Rightarrow> ofstream \<Rightarrow> ofstream" where
  "put_string s os =
     (if os_failbit os \<or> os_badbit os then os
      else
        let text = os_buffer os @ s
        in if length text \<le> os_capacity os then os\<lparr>os_buffer := text\<rparr>
           else let (ok, os1) = to_device text os in os1\<lparr>os_badbit := \<not> ok\<rparr>)"

text \<open>\<open>close\<close>, or the destructor, gives the rest to the device; a failure sets \<open>failbit\<close>.\<close>

definition close_out :: "ofstream \<Rightarrow> ofstream" where
  "close_out os = (let (ok, os1) = to_device (os_buffer os) os in os1\<lparr>os_failbit := os_failbit os \<or> \<not> ok\<rparr>)"

subsection \<open>The disk\<close>

record disk =
  dk_files :: "string \<Rightarrow> string option"
  dk_readable :: "string \<Rightarrow> bool"
  dk_writable :: "string \<Rightarrow> bool"
  dk_read_limit :: "string \<Rightarrow> nat option"
  dk_write_limit :: "string \<Rightarrow> nat option"
  dk_buffer :: nat

text \<open>A disk without files, where everything works.\<close>

definition empty_disk :: disk where
  "empty_disk = \<lparr>dk_files = (\<lambda>_. None), dk_readable = (\<lambda>_. True), dk_writable = (\<lambda>_. True),
     dk_read_limit = (\<lambda>_. None), dk_write_limit = (\<lambda>_. None), dk_buffer = 8191\<rparr>"

definition ifstream_open :: "disk \<Rightarrow> string \<Rightarrow> ifstream" where
  "ifstream_open dk name =
     (case dk_files dk name of
        None \<Rightarrow> open_in_failed
      | Some bytes \<Rightarrow>
          if \<not> dk_readable dk name then open_in_failed
          else case dk_read_limit dk name of
                 None \<Rightarrow> open_in bytes False
               | Some n \<Rightarrow> if n < length bytes then open_in (take n bytes) True
                           else open_in bytes False)"

definition ofstream_open :: "disk \<Rightarrow> string \<Rightarrow> ofstream" where
  "ofstream_open dk name =
     (if dk_writable dk name then open_out (dk_buffer dk) (dk_write_limit dk name) else open_out_failed)"

text \<open>What a stream leaves on the disk: an opened file is truncated and holds what the device took.\<close>

definition store_file :: "string \<Rightarrow> ofstream \<Rightarrow> disk \<Rightarrow> disk" where
  "store_file name os dk =
     (if dk_writable dk name then dk\<lparr>dk_files := (dk_files dk)(name \<mapsto> os_written os)\<rparr> else dk)"

subsection \<open>Lemmas\<close>

named_theorems stream_lems \<open>reading and writing streams\<close>

lemma getline_good [stream_lems]:
  assumes "is_good is" "is_rest is = line @ delim # r" "delim \<notin> set line"
  shows "getline delim is str = (is\<lparr>is_rest := r\<rparr>, line)"
proof -
  have "takeWhile (\<lambda>c. c \<noteq> delim) (line @ delim # r) = line"
    "dropWhile (\<lambda>c. c \<noteq> delim) (line @ delim # r) = delim # r"
    using assms(3) by (auto simp: takeWhile_append dropWhile_append takeWhile_eq_all_conv dropWhile_eq_Nil_conv)
  then show ?thesis using assms(1,2) by (simp add: getline_def)
qed

lemma getline_not_good: "\<not> is_good is \<Longrightarrow> getline delim is str = (is\<lparr>is_failbit := True\<rparr>, str)"
  by (simp add: getline_def)

lemma is_good_rest [simp]: "is_good (is\<lparr>is_rest := r\<rparr>) = is_good is"
  by (simp add: is_good_def)

lemma is_good_failbit [simp]: "\<not> is_good (is\<lparr>is_failbit := True\<rparr>)"
  by (simp add: is_good_def)

text \<open>A stream that is still good after a call lost at least one byte.\<close>

lemma getline_shorter:
  assumes "is_good (fst (getline delim is str))"
  shows "is_good is" "length (is_rest (fst (getline delim is str))) < length (is_rest is)"
proof -
  show good: "is_good is"
    using assms by (cases "is_good is") (simp_all add: getline_not_good)
  have "dropWhile (\<lambda>c. c \<noteq> delim) (is_rest is) \<noteq> []"
  proof
    assume d: "dropWhile (\<lambda>c. c \<noteq> delim) (is_rest is) = []"
    show False
      using assms good unfolding getline_def Let_def d by (simp add: is_good_def split: if_splits)
  qed
  then obtain d r where d: "dropWhile (\<lambda>c. c \<noteq> delim) (is_rest is) = d # r"
    by (cases "dropWhile (\<lambda>c. c \<noteq> delim) (is_rest is)") auto
  have "length (d # r) \<le> length (is_rest is)" unfolding d [symmetric] by (rule length_dropWhile_le)
  then show "length (is_rest (fst (getline delim is str))) < length (is_rest is)"
    using good d by (simp add: getline_def)
qed

text \<open>A stream on a device without limit: what was put into it is what it holds when it is closed.\<close>

definition unlimited :: "ofstream \<Rightarrow> bool" where
  "unlimited os \<longleftrightarrow> \<not> os_failbit os \<and> \<not> os_badbit os \<and> os_room os = None"

definition os_text :: "ofstream \<Rightarrow> string" where
  "os_text os = os_written os @ os_buffer os"

lemma unlimited_badbit [simp]: "unlimited os \<Longrightarrow> \<not> os_badbit os"
  by (simp add: unlimited_def)

lemma put_string_unlimited [stream_lems]:
  assumes "unlimited os"
  shows "unlimited (put_string s os)" "os_text (put_string s os) = os_text os @ s"
  using assms by (simp_all add: unlimited_def os_text_def put_string_def to_device_def Let_def)

lemma close_out_unlimited [stream_lems]: "unlimited os \<Longrightarrow> os_written (close_out os) = os_text os"
  by (simp add: unlimited_def os_text_def close_out_def to_device_def)

lemma open_out_unlimited [simp]: "unlimited (open_out c None)" "os_text (open_out c r) = []"
  by (simp_all add: unlimited_def os_text_def open_out_def)

lemma put_string_failed [stream_lems]: "os_failbit os \<Longrightarrow> put_string s os = os"
  by (simp add: put_string_def)

lemma put_string_badbit: "os_badbit os \<Longrightarrow> os_badbit (put_string s os)"
  by (simp add: put_string_def)

end
