(* ===== verification/MapManagerBackup.thy ===== *)
theory MapManagerBackup
  imports MapManagerPurge Streams
begin

section \<open>backupRequest and restoreRequest (src/MapManager.cpp)\<close>

text \<open>
  The two maps are written as comma separated lines and read back. \<open>backupRequest\<close> opens both files
  before it waits for the writers; \<open>restoreRequest\<close> sets \<open>m_writingData\<close>, and on a read failure or an
  exception of \<open>stoi\<close> or \<open>stoul\<close> it leaves with the flag still set. The two arguments of the
  \<open>KeyDetails\<close> constructor are converted in the order they are written; C++ leaves that order open,
  and only which of two exceptions escapes depends on it. The two file names are taken to be different.
\<close>

subsection \<open>backupRequest\<close>

definition FIELD_SEPARATOR :: char where
  "FIELD_SEPARATOR = CHR '',''"

fun dump_frequencies :: "ulongstrMap \<Rightarrow> ofstream \<Rightarrow> bool \<times> ofstream" where
  "dump_frequencies [] os = (True, os)"
| "dump_frequencies (p # fm) os =
     (let os1 = put_string [newline] (put_string (snd p) (put_string [FIELD_SEPARATOR]
                  (put_string (to_string (unat (fst p))) os)))
      in if os_badbit os1 then (False, os1) else dump_frequencies fm os1)"

fun dump_keys :: "strdetailsMap \<Rightarrow> ofstream \<Rightarrow> ofstream" where
  "dump_keys [] os = os"
| "dump_keys (q # km) os =
     dump_keys km
       (put_string [newline] (put_string (to_string (unat (kd_port (snd q))))
         (put_string [FIELD_SEPARATOR] (put_string (kd_url (snd q))
           (put_string [FIELD_SEPARATOR] (put_string (to_string (unat (kd_frequency (snd q))))
             (put_string [FIELD_SEPARATOR] (put_string (fst q) os))))))))"

text \<open>
  The key file stays open, and empty, while the frequencies are written. A stream that goes out of scope
  is closed; nothing looks at the streams after they are closed.
\<close>

definition backupRequest :: "string \<Rightarrow> string \<Rightarrow> disk \<Rightarrow> map_manager \<Rightarrow> bool outcome \<times> disk" where
  "backupRequest keyFilename freqFilename dk mm =
     (let outKeyFile = ofstream_open dk keyFilename;
          dk1 = store_file keyFilename outKeyFile dk
      in if os_badbit outKeyFile then (Returns False, dk1)
         else
           let outFreqFile = ofstream_open dk1 freqFilename;
               dk2 = store_file freqFilename outFreqFile dk1
           in if os_badbit outFreqFile then (Returns False, dk2)
              else if m_writingData mm \<noteq> 0 then (Waits, dk2)
              else
                let (written, outFreqFile1) = dump_frequencies (m_pFrequencyMap mm) outFreqFile;
                    dk3 = store_file freqFilename (close_out outFreqFile1) dk2
                in if \<not> written then (Returns False, dk3)
                   else
                     let outKeyFile1 = dump_keys (m_pKeyMap mm) outKeyFile
                     in (Returns (\<not> os_badbit outKeyFile1), store_file keyFilename (close_out outKeyFile1) dk3))"

subsection \<open>restoreRequest\<close>

record key_fields =
  f_key :: string
  f_order :: string
  f_url :: string
  f_port :: string

definition read_key_fields :: "ifstream \<Rightarrow> key_fields \<Rightarrow> ifstream \<times> key_fields" where
  "read_key_fields is0 s =
     (let (is1, sKey) = getline FIELD_SEPARATOR is0 (f_key s);
          (is2, sOrderNum) = getline FIELD_SEPARATOR is1 (f_order s);
          (is3, sUrl) = getline FIELD_SEPARATOR is2 (f_url s);
          (is4, sPort) = getline newline is3 (f_port s)
      in (is4, \<lparr>f_key = sKey, f_order = sOrderNum, f_url = sUrl, f_port = sPort\<rparr>))"

definition read_frequency_fields :: "ifstream \<Rightarrow> key_fields \<Rightarrow> ifstream \<times> key_fields" where
  "read_frequency_fields is0 s =
     (let (is1, sOrderNum) = getline FIELD_SEPARATOR is0 (f_order s);
          (is2, sKey) = getline newline is1 (f_key s)
      in (is2, s\<lparr>f_order := sOrderNum, f_key := sKey\<rparr>))"

lemma read_key_fields_shorter:
  "is_good (fst (read_key_fields is0 s)) \<Longrightarrow>
     length (is_rest (fst (read_key_fields is0 s))) < length (is_rest is0)"
  unfolding read_key_fields_def Let_def split_beta fst_conv
  by (meson getline_shorter less_trans)

lemma read_frequency_fields_shorter:
  "is_good (fst (read_frequency_fields is0 s)) \<Longrightarrow>
     length (is_rest (fst (read_frequency_fields is0 s))) < length (is_rest is0)"
  unfolding read_frequency_fields_def Let_def split_beta fst_conv
  by (meson getline_shorter less_trans)

function restore_keys ::
  "ifstream \<Rightarrow> key_fields \<Rightarrow> strdetailsMap \<Rightarrow> bool outcome \<times> strdetailsMap \<times> key_fields" where
  "restore_keys is0 s km =
     (if is_eofbit is0 then (Returns True, km, s)
      else
        let is1 = fst (read_key_fields is0 s); s1 = snd (read_key_fields is0 s)
        in if is_eofbit is1 then (Returns True, km, s1)
           else if is_fail is1 then (Returns False, km, s1)
           else case stoi (f_port s1) of
                  Inl e \<Rightarrow> (Throws e, km, s1)
                | Inr port \<Rightarrow>
                    (case stoul (f_order s1) of
                       Inl e \<Rightarrow> (Throws e, km, s1)
                     | Inr orderNo \<Rightarrow>
                         restore_keys is1 s1
                           (map_insert (f_key s1)
                              \<lparr>kd_url = f_url s1, kd_port = word_of_int port, kd_frequency = orderNo\<rparr> km)))"
  by pat_completeness auto
termination
  by (relation "measure (\<lambda>(is0, s, km). length (is_rest is0))")
    (auto simp: is_good_def is_fail_def intro: read_key_fields_shorter)

declare restore_keys.simps [simp del]

function restore_frequencies ::
  "ifstream \<Rightarrow> key_fields \<Rightarrow> ulongstrMap \<Rightarrow> bool outcome \<times> ulongstrMap" where
  "restore_frequencies is0 s fm =
     (if is_eofbit is0 then (Returns True, fm)
      else
        let is1 = fst (read_frequency_fields is0 s); s1 = snd (read_frequency_fields is0 s)
        in if is_eofbit is1 then (Returns True, fm)
           else if is_fail is1 then (Returns False, fm)
           else case stoul (f_order s1) of
                  Inl e \<Rightarrow> (Throws e, fm)
                | Inr orderNo \<Rightarrow> restore_frequencies is1 s1 (multimap_insert orderNo (f_key s1) fm))"
  by pat_completeness auto
termination
  by (relation "measure (\<lambda>(is0, s, fm). length (is_rest is0))")
    (auto simp: is_good_def is_fail_def intro: read_frequency_fields_shorter)

declare restore_frequencies.simps [simp del]

definition restoreRequest :: "string \<Rightarrow> string \<Rightarrow> disk \<Rightarrow> map_manager \<Rightarrow> bool outcome \<times> map_manager" where
  "restoreRequest keyFilename freqFilename dk mm =
     (let inKeyFile = ifstream_open dk keyFilename
      in if is_fail inKeyFile then (Returns False, mm)
         else
           let inFreqFile = ifstream_open dk freqFilename
           in if is_fail inFreqFile then (Returns False, mm)
              else
                let mm1 = mm\<lparr>m_writingData := 1, m_pKeyMap := []\<rparr>;
                    (r, km, s) = restore_keys inKeyFile
                      \<lparr>f_key = [], f_order = [], f_url = [], f_port = []\<rparr> (m_pKeyMap mm1)
                in if r \<noteq> Returns True then (r, mm1\<lparr>m_pKeyMap := km\<rparr>)
                   else
                     let (r', fm) = restore_frequencies inFreqFile s []
                     in if r' \<noteq> Returns True then (r', mm1\<lparr>m_pKeyMap := km, m_pFrequencyMap := fm\<rparr>)
                        else (Returns True,
                          notify_one (mm1\<lparr>m_pKeyMap := km, m_pFrequencyMap := fm, m_writingData := 0\<rparr>)))"

subsection \<open>The lines of the two files\<close>

definition key_line :: "string \<times> key_details \<Rightarrow> string" where
  "key_line q = fst q @ FIELD_SEPARATOR # to_string (unat (kd_frequency (snd q))) @ FIELD_SEPARATOR
     # kd_url (snd q) @ FIELD_SEPARATOR # to_string (unat (kd_port (snd q))) @ [newline]"

definition frequency_line :: "ulong \<times> string \<Rightarrow> string" where
  "frequency_line p = to_string (unat (fst p)) @ FIELD_SEPARATOR # snd p @ [newline]"

text \<open>What the reader needs of a stored entry.\<close>

definition storable :: "string \<times> key_details \<Rightarrow> bool" where
  "storable q \<longleftrightarrow> FIELD_SEPARATOR \<notin> set (fst q) \<and> newline \<notin> set (fst q) \<and> FIELD_SEPARATOR \<notin> set (kd_url (snd q))"

text \<open>
  What the reader makes of any entry: the text between the second comma and the end of the line is split at its
  first comma, into the url and what \<open>stoi\<close> reads. A url with a comma loses what follows it to the port.
\<close>

definition reread :: "key_details \<Rightarrow> exn + key_details" where
  "reread d =
     (let text = kd_url d @ FIELD_SEPARATOR # to_string (unat (kd_port d));
          url = takeWhile (\<lambda>c. c \<noteq> FIELD_SEPARATOR) text
      in case stoi (drop (Suc (length url)) text) of
           Inl e \<Rightarrow> Inl e
         | Inr port \<Rightarrow> Inr \<lparr>kd_url = url, kd_port = word_of_int port, kd_frequency = kd_frequency d\<rparr>)"

text \<open>An entry whose line is read as a whole, whatever its url.\<close>

definition one_line :: "string \<times> key_details \<Rightarrow> bool" where
  "one_line q \<longleftrightarrow> FIELD_SEPARATOR \<notin> set (fst q) \<and> newline \<notin> set (fst q)
     \<and> newline \<notin> set (dropWhile (\<lambda>c. c \<noteq> FIELD_SEPARATOR) (kd_url (snd q)))"

definition reread_entry :: "string \<times> key_details \<Rightarrow> string \<times> key_details" where
  "reread_entry q = (fst q, case reread (snd q) of Inr d \<Rightarrow> d | Inl _ \<Rightarrow> snd q)"

definition usable_disk :: "string \<Rightarrow> string \<Rightarrow> disk \<Rightarrow> bool" where
  "usable_disk keyFilename freqFilename dk \<longleftrightarrow> keyFilename \<noteq> freqFilename
     \<and> (\<forall>name \<in> {keyFilename, freqFilename}. dk_writable dk name \<and> dk_readable dk name
          \<and> dk_write_limit dk name = None \<and> dk_read_limit dk name = None)"

lemma to_string_no_separator [simp]:
  "FIELD_SEPARATOR \<notin> set (to_string n)" "newline \<notin> set (to_string n)"
  by (rule to_string_no_char, simp add: FIELD_SEPARATOR_def newline_def is_digit_def)+

lemma dump_frequencies_unlimited:
  assumes "unlimited os"
  obtains os1 where "dump_frequencies fm os = (True, os1)" "unlimited os1"
    "os_text os1 = os_text os @ concat (map frequency_line fm)"
proof -
  have "fst (dump_frequencies fm os) \<and> unlimited (snd (dump_frequencies fm os))
      \<and> os_text (snd (dump_frequencies fm os)) = os_text os @ concat (map frequency_line fm)"
    using assms by (induction fm arbitrary: os) (simp_all add: put_string_unlimited frequency_line_def Let_def)
  then show ?thesis using that by (metis prod.collapse)
qed

lemma dump_keys_unlimited:
  assumes "unlimited os"
  shows "unlimited (dump_keys km os)" "os_text (dump_keys km os) = os_text os @ concat (map key_line km)"
  using assms by (induction km arbitrary: os) (simp_all add: put_string_unlimited key_line_def)

lemma dump_frequencies_failed: "os_failbit os \<Longrightarrow> \<not> os_badbit os \<Longrightarrow> dump_frequencies fm os = (True, os)"
  by (induction fm) (simp_all add: put_string_failed Let_def)

lemma dump_keys_failed: "os_failbit os \<Longrightarrow> dump_keys km os = os"
  by (induction km) (simp_all add: put_string_failed)

subsection \<open>Reading the lines back\<close>

lemma reread_text:
  assumes "one_line q"
  defines "text \<equiv> kd_url (snd q) @ FIELD_SEPARATOR # to_string (unat (kd_port (snd q)))"
  defines "url \<equiv> takeWhile (\<lambda>c. c \<noteq> FIELD_SEPARATOR) text"
  shows "text = url @ FIELD_SEPARATOR # drop (Suc (length url)) text" "FIELD_SEPARATOR \<notin> set url"
    "newline \<notin> set (drop (Suc (length url)) text)"
proof -
  have "FIELD_SEPARATOR \<in> set text" by (simp add: text_def)
  then obtain u t where split: "text = u @ FIELD_SEPARATOR # t" "FIELD_SEPARATOR \<notin> set u" by (auto dest: split_list_first)
  then have url: "url = u" by (auto simp: url_def takeWhile_append takeWhile_eq_all_conv)
  show "text = url @ FIELD_SEPARATOR # drop (Suc (length url)) text" "FIELD_SEPARATOR \<notin> set url"
    using split by (simp_all add: url)
  have digits: "newline \<notin> set (to_string n)" for n by simp
  have "dropWhile (\<lambda>c. c \<noteq> FIELD_SEPARATOR) text = FIELD_SEPARATOR # t"
    using split by (auto simp: dropWhile_append dropWhile_eq_Nil_conv)
  moreover have "set (dropWhile (\<lambda>c. c \<noteq> FIELD_SEPARATOR) text)
      \<subseteq> set (dropWhile (\<lambda>c. c \<noteq> FIELD_SEPARATOR) (kd_url (snd q))) \<union> {FIELD_SEPARATOR} \<union> set (to_string (unat (kd_port (snd q))))"
    unfolding text_def by (induction "kd_url (snd q)") (auto simp: dropWhile_append dest: set_dropWhileD)
  ultimately have "newline \<notin> set t"
    using assms(1) digits by (auto simp: one_line_def FIELD_SEPARATOR_def newline_def)
  then show "newline \<notin> set (drop (Suc (length url)) text)" using split(1) by (simp add: url)
qed

lemma storable_one_line:
  assumes "storable q"
  shows "one_line q"
    and "reread (snd q) = (if 2 ^ 31 \<le> unat (kd_port (snd q)) then Inl Out_of_range else Inr (snd q))"
proof -
  have none: "FIELD_SEPARATOR \<notin> set (kd_url (snd q))" using assms by (simp add: storable_def)
  then have plain: "dropWhile (\<lambda>c. c \<noteq> FIELD_SEPARATOR) (kd_url (snd q)) = []" by (auto simp: dropWhile_eq_Nil_conv)
  show "one_line q" unfolding one_line_def plain using assms by (simp add: storable_def)
  have url: "takeWhile (\<lambda>c. c \<noteq> FIELD_SEPARATOR) (kd_url (snd q) @ FIELD_SEPARATOR # t) = kd_url (snd q)" for t
    using none by (auto simp: takeWhile_append takeWhile_eq_all_conv)
  show "reread (snd q) = (if 2 ^ 31 \<le> unat (kd_port (snd q)) then Inl Out_of_range else Inr (snd q))"
    using stoi_to_string [of "unat (kd_port (snd q))"] stoi_to_string_large [of "unat (kd_port (snd q))"]
    by (simp add: reread_def url Let_def)
qed

lemma read_key_line:
  assumes "is_good is" "is_rest is = key_line q @ r" "one_line q"
  defines "text \<equiv> kd_url (snd q) @ FIELD_SEPARATOR # to_string (unat (kd_port (snd q)))"
  defines "url \<equiv> takeWhile (\<lambda>c. c \<noteq> FIELD_SEPARATOR) text"
  shows "read_key_fields is s = (is\<lparr>is_rest := r\<rparr>,
    \<lparr>f_key = fst q, f_order = to_string (unat (kd_frequency (snd q))), f_url = url, f_port = drop (Suc (length url)) text\<rparr>)"
proof -
  note t = reread_text [OF assms(3), folded text_def, folded url_def]
  have "is_rest is = fst q @ FIELD_SEPARATOR # to_string (unat (kd_frequency (snd q))) @ FIELD_SEPARATOR # text @ newline # r"
    using assms(2) by (simp add: key_line_def text_def)
  then have rest: "is_rest is = fst q @ FIELD_SEPARATOR # to_string (unat (kd_frequency (snd q))) @ FIELD_SEPARATOR
      # url @ FIELD_SEPARATOR # drop (Suc (length url)) text @ newline # r"
    by (subst (asm) t(1)) simp
  show ?thesis
    using assms(1,3) rest t(2,3)
    by (simp add: read_key_fields_def one_line_def getline_good [where line = "fst q"]
        getline_good [where line = "to_string (unat (kd_frequency (snd q)))"]
        getline_good [where line = url] getline_good [where line = "drop (Suc (length url)) text"])
qed

lemma read_frequency_line:
  assumes "is_good is" "is_rest is = frequency_line p @ r" "newline \<notin> set (snd p)"
  shows "read_frequency_fields is s =
    (is\<lparr>is_rest := r\<rparr>, s\<lparr>f_order := to_string (unat (fst p)), f_key := snd p\<rparr>)"
  using assms
  by (simp add: read_frequency_fields_def frequency_line_def
      getline_good [where line = "to_string (unat (fst p))"] getline_good [where line = "snd p"])

lemma getline_at_end:
  assumes "is_good is" "is_rest is = []" "\<not> is_broken is"
  shows "getline delim is str = (is\<lparr>is_rest := [], is_eofbit := True, is_failbit := True\<rparr>, [])"
  using assms by (simp add: getline_def)

lemma read_key_fields_at_end:
  assumes "is_good is" "is_rest is = []" "\<not> is_broken is"
  shows "is_eofbit (fst (read_key_fields is s))"
  using assms by (simp add: read_key_fields_def getline_at_end getline_not_good is_good_def split_beta)

lemma read_frequency_fields_at_end:
  assumes "is_good is" "is_rest is = []" "\<not> is_broken is"
  shows "is_eofbit (fst (read_frequency_fields is s))"
  using assms by (simp add: read_frequency_fields_def getline_at_end getline_not_good is_good_def split_beta)

lemma key_details_eta [simp]:
  "\<lparr>kd_url = kd_url d, kd_port = kd_port d, kd_frequency = kd_frequency d\<rparr> = d"
  by simp

lemma restore_keys_line:
  assumes "is_good is" "is_rest is = key_line q @ r" "one_line q"
  obtains s' where "restore_keys is s km =
    (case reread (snd q) of
       Inl e \<Rightarrow> (Throws e, km, s')
     | Inr d \<Rightarrow> restore_keys (is\<lparr>is_rest := r\<rparr>) s' (map_insert (fst q) d km))"
proof -
  let ?text = "kd_url (snd q) @ FIELD_SEPARATOR # to_string (unat (kd_port (snd q)))"
  let ?url = "takeWhile (\<lambda>c. c \<noteq> FIELD_SEPARATOR) ?text"
  let ?s = "\<lparr>f_key = fst q, f_order = to_string (unat (kd_frequency (snd q))), f_url = ?url,
      f_port = drop (Suc (length ?url)) ?text\<rparr>"
  have "\<not> is_eofbit is" "\<not> is_fail is" using assms(1) by (simp_all add: is_good_def is_fail_def)
  then have "restore_keys is s km =
    (case reread (snd q) of
       Inl e \<Rightarrow> (Throws e, km, ?s)
     | Inr d \<Rightarrow> restore_keys (is\<lparr>is_rest := r\<rparr>) ?s (map_insert (fst q) d km))"
    by (simp add: restore_keys.simps [of "is"] read_key_line [OF assms] stoul_to_string is_fail_def reread_def Let_def
        split: sum.split)
  then show ?thesis by (rule that)
qed

lemma restore_keys_lines:
  assumes "is_good is" "is_rest is = concat (map key_line xs)" "\<not> is_broken is"
    "\<forall>q \<in> set xs. one_line q \<and> (\<exists>d. reread (snd q) = Inr d)"
  shows "\<exists>s'. restore_keys is s km = (Returns True, fold (\<lambda>(k, v). map_insert k v) (map reread_entry xs) km, s')"
  using assms
proof (induction xs arbitrary: "is" s km)
  case Nil
  then show ?case
    using read_key_fields_at_end [of "is" s] by (simp add: restore_keys.simps [of "is"] is_good_def)
next
  case (Cons q xs)
  from Cons.prems obtain d where good: "is_good is" and rest: "is_rest is = key_line q @ concat (map key_line xs)"
    and q: "one_line q" "reread (snd q) = Inr d" by auto
  obtain s1 where step: "restore_keys is s km =
      restore_keys (is\<lparr>is_rest := concat (map key_line xs)\<rparr>) s1 (map_insert (fst q) d km)"
    using restore_keys_line [OF good rest q(1), of s km] q(2) by auto
  show ?case
    unfolding step using Cons.prems q(2) Cons.IH [of "is\<lparr>is_rest := concat (map key_line xs)\<rparr>"]
    by (simp add: reread_entry_def)
qed

lemma restore_keys_throws:
  assumes "is_good is" "is_rest is = concat (map key_line xs)" "\<forall>q \<in> set xs. one_line q"
    "\<exists>q \<in> set xs. reread (snd q) = Inl e" "\<forall>q \<in> set xs. \<forall>e'. reread (snd q) = Inl e' \<longrightarrow> e' = e"
  shows "fst (restore_keys is s km) = Throws e"
  using assms
proof (induction xs arbitrary: "is" s km)
  case (Cons q xs)
  from Cons.prems have good: "is_good is" and rest: "is_rest is = key_line q @ concat (map key_line xs)"
    and q: "one_line q" by auto
  show ?case
  proof (cases "reread (snd q)")
    case (Inl e')
    then have "reread (snd q) = Inl e" using Cons.prems(5) by simp
    then show ?thesis by (cases rule: restore_keys_line [OF good rest q, of s km]) simp
  next
    case (Inr d)
    then obtain s1 where "restore_keys is s km =
        restore_keys (is\<lparr>is_rest := concat (map key_line xs)\<rparr>) s1 (map_insert (fst q) d km)"
      using restore_keys_line [OF good rest q, of s km] by auto
    then show ?thesis
      using Cons.prems Inr Cons.IH [of "is\<lparr>is_rest := concat (map key_line xs)\<rparr>"] by auto
  qed
qed simp

lemma restore_frequencies_lines:
  assumes "is_good is" "is_rest is = concat (map frequency_line xs)" "\<not> is_broken is"
    "\<forall>p \<in> set xs. newline \<notin> set (snd p)"
  shows "restore_frequencies is s fm = (Returns True, fold (\<lambda>(k, v). multimap_insert k v) xs fm)"
  using assms
proof (induction xs arbitrary: "is" s fm)
  case Nil
  then show ?case
    using read_frequency_fields_at_end [of "is" s]
    by (simp add: restore_frequencies.simps [of "is"] is_good_def)
next
  case (Cons p xs)
  from Cons.prems have good: "is_good is"
    and rest: "is_rest is = frequency_line p @ concat (map frequency_line xs)"
    and p: "newline \<notin> set (snd p)" by auto
  have "\<not> is_eofbit is" "\<not> is_fail is" using good by (simp_all add: is_good_def is_fail_def)
  then have step: "restore_frequencies is s fm =
      restore_frequencies (is\<lparr>is_rest := concat (map frequency_line xs)\<rparr>)
        (s\<lparr>f_order := to_string (unat (fst p)), f_key := snd p\<rparr>) (multimap_insert (fst p) (snd p) fm)"
    by (simp add: restore_frequencies.simps [of "is"] read_frequency_line [OF good rest p]
        stoul_to_string is_fail_def)
  show ?case
    unfolding step using Cons.prems Cons.IH [of "is\<lparr>is_rest := concat (map frequency_line xs)\<rparr>"]
    by (simp add: split_beta)
qed

subsection \<open>The two requests\<close>

lemma opened_streams:
  assumes "usable_disk kf ff dk" "name \<in> {kf, ff}"
  shows "ofstream_open dk name = open_out (dk_buffer dk) None"
    and "dk_files dk name = Some bytes \<Longrightarrow> ifstream_open dk name = open_in bytes False"
  using assms by (auto simp: usable_disk_def ofstream_open_def ifstream_open_def)

lemma open_out_flags [simp]: "\<not> os_badbit (open_out c r)" "os_written (open_out c r) = []"
  by (simp_all add: open_out_def)

lemma open_in_flags [simp]:
  "is_good (open_in b x)" "is_rest (open_in b x) = b" "is_broken (open_in b x) = x"
  "\<not> is_fail (open_in b x)" "\<not> is_eofbit (open_in b x)"
  by (simp_all add: open_in_def is_good_def is_fail_def)

lemma open_out_failed_flags [simp]: "os_failbit open_out_failed" "\<not> os_badbit open_out_failed"
  "os_written (close_out open_out_failed) = []"
  by (simp_all add: open_out_failed_def close_out_def to_device_def)

lemma store_file_frame [simp]:
  "dk_writable (store_file n os dk) = dk_writable dk" "dk_readable (store_file n os dk) = dk_readable dk"
  "dk_write_limit (store_file n os dk) = dk_write_limit dk"
  "dk_read_limit (store_file n os dk) = dk_read_limit dk" "dk_buffer (store_file n os dk) = dk_buffer dk"
  by (simp_all add: store_file_def)

lemma usable_disk_store [simp]: "usable_disk kf ff (store_file n os dk) = usable_disk kf ff dk"
  by (simp add: usable_disk_def)

text \<open>A backup to a usable disk writes one line for each entry and succeeds.\<close>

lemma backupRequest_usable:
  assumes "usable_disk kf ff dk" "m_writingData mm = 0"
  obtains dk' where "backupRequest kf ff dk mm = (Returns True, dk')"
    and "usable_disk kf ff dk'"
    and "dk_files dk' kf = Some (concat (map key_line (m_pKeyMap mm)))"
    and "dk_files dk' ff = Some (concat (map frequency_line (m_pFrequencyMap mm)))"
    and "\<And>name. name \<noteq> kf \<Longrightarrow> name \<noteq> ff \<Longrightarrow> dk_files dk' name = dk_files dk name"
proof -
  let ?os = "open_out (dk_buffer dk) None"
  have opened: "ofstream_open dk kf = ?os" "ofstream_open (store_file kf ?os dk) ff = ?os"
    using opened_streams(1) [OF assms(1)] opened_streams(1) [of kf ff "store_file kf ?os dk" ff] assms(1)
    by simp_all
  obtain fos where fos: "dump_frequencies (m_pFrequencyMap mm) ?os = (True, fos)"
    "os_written (close_out fos) = concat (map frequency_line (m_pFrequencyMap mm))"
    using dump_frequencies_unlimited [OF open_out_unlimited(1), of "m_pFrequencyMap mm" "dk_buffer dk"]
    by (metis append_Nil close_out_unlimited open_out_unlimited(2))
  let ?kos = "dump_keys (m_pKeyMap mm) ?os"
  have kos: "unlimited ?kos" "os_written (close_out ?kos) = concat (map key_line (m_pKeyMap mm))"
    using dump_keys_unlimited [OF open_out_unlimited(1)] by (simp_all add: close_out_unlimited)
  let ?dk = "store_file kf (close_out ?kos) (store_file ff (close_out fos) (store_file ff ?os (store_file kf ?os dk)))"
  have w: "dk_writable dk kf" "dk_writable dk ff" "kf \<noteq> ff" using assms(1) by (auto simp: usable_disk_def)
  show ?thesis
  proof (rule that)
    show "backupRequest kf ff dk mm = (Returns True, ?dk)"
      unfolding backupRequest_def Let_def opened using assms(2) fos(1) kos(1) by simp
    show "usable_disk kf ff ?dk" using assms(1) by simp
    show "dk_files ?dk kf = Some (concat (map key_line (m_pKeyMap mm)))"
      "dk_files ?dk ff = Some (concat (map frequency_line (m_pFrequencyMap mm)))"
      using w kos(2) fos(2) by (simp_all add: store_file_def)
    show "dk_files ?dk name = dk_files dk name" if "name \<noteq> kf" "name \<noteq> ff" for name
      using that w by (simp add: store_file_def)
  qed
qed

text \<open>A restore after both files opened runs the two loops.\<close>

lemma restoreRequest_opened:
  assumes "\<not> is_fail (ifstream_open dk kf)" "\<not> is_fail (ifstream_open dk ff)"
    "restore_keys (ifstream_open dk kf) \<lparr>f_key = [], f_order = [], f_url = [], f_port = []\<rparr> [] = (r, km, s)"
  shows "restoreRequest kf ff dk mm =
    (let mm1 = mm\<lparr>m_writingData := 1, m_pKeyMap := km\<rparr>
     in if r \<noteq> Returns True then (r, mm1)
        else let (r', fm) = restore_frequencies (ifstream_open dk ff) s []
             in if r' \<noteq> Returns True then (r', mm1\<lparr>m_pFrequencyMap := fm\<rparr>)
                else (Returns True, notify_one (mm1\<lparr>m_pFrequencyMap := fm, m_writingData := 0\<rparr>)))"
  using assms by (simp add: restoreRequest_def Let_def split_beta)

lemma wf_map_reread: "wf_map km \<Longrightarrow> wf_map (map reread_entry km)"
  by (simp add: wf_map_def reread_entry_def comp_def)

text \<open>The counts are not touched, so the invariant stays.\<close>

lemma reread_frequency: "reread d = Inr d' \<Longrightarrow> kd_frequency d' = kd_frequency d"
  by (auto simp: reread_def Let_def split: sum.splits)

lemma reread_entries:
  "map_of (map reread_entry km) k = map_option (\<lambda>d. snd (reread_entry (k, d))) (map_of km k)"
  "kd_frequency (snd (reread_entry q)) = kd_frequency (snd q)"
  by (induction km) (auto simp: reread_entry_def reread_frequency split: sum.split)

lemma counts_reread:
  assumes "m_pKeyMap mm' = map reread_entry (m_pKeyMap mm)" "m_pFrequencyMap mm' = m_pFrequencyMap mm"
    "m_maxReportElementNumber mm' = m_maxReportElementNumber mm" "m_writingData mm' = 0" "rank_inv mm"
  shows "frequency_of mm' = frequency_of mm" "rank_inv mm'"
proof -
  show "frequency_of mm' = frequency_of mm"
    using assms(1) by (auto simp: fun_eq_iff frequency_of_def reread_entries split: option.split)
  have "prev_order k mm' = prev_order k mm" for k
    using assms(1) by (simp add: prev_order_def reread_entries split: option.split)
  then show "rank_inv mm'"
    using assms by (auto simp: rank_inv_def wf_map_reread reread_entries)
qed

lemma backup_then_reread:
  assumes inv: "rank_inv mm" and disk: "usable_disk kf ff dk"
    and entries: "\<forall>q \<in> set (m_pKeyMap mm). one_line q \<and> (\<exists>d. reread (snd q) = Inr d)"
  shows "\<exists>dk'. backupRequest kf ff dk mm = (Returns True, dk') \<and> usable_disk kf ff dk'
    \<and> (\<forall>name. name \<noteq> kf \<longrightarrow> name \<noteq> ff \<longrightarrow> dk_files dk' name = dk_files dk name)
    \<and> (\<forall>mm2. restoreRequest kf ff dk' mm2 = (Returns True, notify_one (mm2\<lparr>m_pKeyMap := map reread_entry (m_pKeyMap mm),
          m_pFrequencyMap := m_pFrequencyMap mm, m_writingData := 0\<rparr>)))"
proof (rule backupRequest_usable [OF disk rank_invD(3) [OF inv]], goal_cases)
  case (1 dk')
  have opened: "ifstream_open dk' kf = open_in (concat (map key_line (m_pKeyMap mm))) False"
    "ifstream_open dk' ff = open_in (concat (map frequency_line (m_pFrequencyMap mm))) False"
    using opened_streams(2) [OF 1(2)] 1(3,4) by simp_all
  obtain s where keys: "restore_keys (ifstream_open dk' kf)
      \<lparr>f_key = [], f_order = [], f_url = [], f_port = []\<rparr> [] = (Returns True, map reread_entry (m_pKeyMap mm), s)"
    using restore_keys_lines [OF _ _ _ entries, of "ifstream_open dk' kf" _ "[]"]
    unfolding fold_map_insert_id [OF wf_map_reread [OF rank_invD(1) [OF inv]]] opened by (metis open_in_flags(1-3))
  have "newline \<notin> set (snd p)" if p: "p \<in> set (m_pFrequencyMap mm)" for p
  proof -
    obtain d where "(snd p, d) \<in> set (m_pKeyMap mm)"
      using ranked_known [OF inv p] by (auto dest: map_of_SomeD)
    then show ?thesis using entries by (auto simp: one_line_def)
  qed
  then have "restore_frequencies (ifstream_open dk' ff) s [] =
      (Returns True, fold (\<lambda>(k, v). multimap_insert k v) (m_pFrequencyMap mm) [])"
    using opened by (intro restore_frequencies_lines) auto
  also have "fold (\<lambda>(k, v). multimap_insert k v) (m_pFrequencyMap mm) [] = m_pFrequencyMap mm"
    using fold_multimap_insert_id [of "[]"] rank_invD(4) [OF inv] by (simp add: wf_multimap_def)
  finally have "restoreRequest kf ff dk' mm2 = (Returns True, notify_one (mm2\<lparr>m_pKeyMap := map reread_entry (m_pKeyMap mm),
      m_pFrequencyMap := m_pFrequencyMap mm, m_writingData := 0\<rparr>))" for mm2
    using restoreRequest_opened [OF _ _ keys, of ff mm2] opened by (simp add: Let_def)
  then show ?case using 1 by blast
qed

lemma backup_then_restore:
  assumes inv: "rank_inv mm" and disk: "usable_disk kf ff dk"
    and entries: "\<forall>q \<in> set (m_pKeyMap mm). storable q \<and> unat (kd_port (snd q)) < 2 ^ 31"
  shows "\<exists>dk'. backupRequest kf ff dk mm = (Returns True, dk') \<and> usable_disk kf ff dk'
    \<and> (\<forall>name. name \<noteq> kf \<longrightarrow> name \<noteq> ff \<longrightarrow> dk_files dk' name = dk_files dk name)
    \<and> (\<forall>mm2. restoreRequest kf ff dk' mm2 = (Returns True, notify_one (mm2\<lparr>m_pKeyMap := m_pKeyMap mm,
          m_pFrequencyMap := m_pFrequencyMap mm, m_writingData := 0\<rparr>)))"
proof -
  have read: "one_line q \<and> reread (snd q) = Inr (snd q)" if "q \<in> set (m_pKeyMap mm)" for q
    using entries that storable_one_line [of q] by auto
  then have "map reread_entry (m_pKeyMap mm) = m_pKeyMap mm" by (intro map_idI) (simp add: reread_entry_def)
  then show ?thesis using backup_then_reread [OF inv disk] read by simp
qed

lemma backup_then_throw:
  assumes inv: "rank_inv mm" and disk: "usable_disk kf ff dk" and lines: "\<forall>q \<in> set (m_pKeyMap mm). one_line q"
    and bad: "\<exists>q \<in> set (m_pKeyMap mm). reread (snd q) = Inl e" "\<forall>q \<in> set (m_pKeyMap mm). \<forall>e'. reread (snd q) = Inl e' \<longrightarrow> e' = e"
  shows "\<exists>dk'. backupRequest kf ff dk mm = (Returns True, dk')
    \<and> (\<forall>mm2. \<exists>mm'. restoreRequest kf ff dk' mm2 = (Throws e, mm') \<and> m_writingData mm' = 1)"
proof (rule backupRequest_usable [OF disk rank_invD(3) [OF inv]], goal_cases)
  case (1 dk')
  have opened: "ifstream_open dk' kf = open_in (concat (map key_line (m_pKeyMap mm))) False"
    "ifstream_open dk' ff = open_in (concat (map frequency_line (m_pFrequencyMap mm))) False"
    using opened_streams(2) [OF 1(2)] 1(3,4) by simp_all
  obtain r km s where k: "restore_keys (ifstream_open dk' kf)
      \<lparr>f_key = [], f_order = [], f_url = [], f_port = []\<rparr> [] = (r, km, s)" by (rule prod_cases3)
  then have "r = Throws e"
    using restore_keys_throws [OF open_in_flags(1) open_in_flags(2) lines bad]
    unfolding opened by (metis fst_conv)
  then have "\<exists>mm'. restoreRequest kf ff dk' mm2 = (Throws e, mm') \<and> m_writingData mm' = 1" for mm2
    using restoreRequest_opened [OF _ _ k, of ff mm2] opened by (simp add: Let_def)
  then show ?case using 1(1) by blast
qed

text \<open>
  The contract of a store of snapshots: what was saved last is what is loaded, whatever state it is
  loaded into.
\<close>

locale snapshot_store =
  fixes save :: "'s \<Rightarrow> 'd \<Rightarrow> 'd"
    and load :: "'d \<Rightarrow> 's \<Rightarrow> 's"
    and snapshot :: "'s \<Rightarrow> 'c"
    and savable :: "'s \<Rightarrow> bool"
    and usable :: "'d \<Rightarrow> bool"
  assumes save_usable: "savable s \<Longrightarrow> usable d \<Longrightarrow> usable (save s d)"
    and load_saved: "savable s \<Longrightarrow> usable d \<Longrightarrow> snapshot (load (save s d) s') = snapshot s"
begin

lemma saves_usable: "usable d \<Longrightarrow> \<forall>s \<in> set ss. savable s \<Longrightarrow> usable (fold save ss d)"
  by (induction ss arbitrary: d) (auto simp: save_usable)

lemma load_latest:
  "usable d \<Longrightarrow> \<forall>s \<in> set ss. savable s \<Longrightarrow> savable s \<Longrightarrow> snapshot (load (fold save (ss @ [s]) d) s') = snapshot s"
  by (simp add: load_saved saves_usable)

end

definition savable :: "map_manager \<Rightarrow> bool" where
  "savable mm \<longleftrightarrow> rank_inv mm
     \<and> (\<forall>q \<in> set (m_pKeyMap mm). storable q \<and> unat (kd_port (snd q)) < 2 ^ 31)"

interpretation backup: snapshot_store "\<lambda>mm dk. snd (backupRequest kf ff dk mm)"
  "\<lambda>dk mm. snd (restoreRequest kf ff dk mm)" "\<lambda>mm. (m_pKeyMap mm, m_pFrequencyMap mm)" savable
  "usable_disk kf ff" for kf ff
proof
  fix s s' d assume "savable s" "usable_disk kf ff d"
  then obtain dk' where dk': "backupRequest kf ff d s = (Returns True, dk')" "usable_disk kf ff dk'"
    "\<forall>mm2. restoreRequest kf ff dk' mm2 = (Returns True, notify_one (mm2\<lparr>m_pKeyMap := m_pKeyMap s,
        m_pFrequencyMap := m_pFrequencyMap s, m_writingData := 0\<rparr>))"
    using backup_then_restore [of s kf ff d] by (auto simp: savable_def)
  show "usable_disk kf ff (snd (backupRequest kf ff d s))" using dk' by simp
  show "(m_pKeyMap (snd (restoreRequest kf ff (snd (backupRequest kf ff d s)) s')),
      m_pFrequencyMap (snd (restoreRequest kf ff (snd (backupRequest kf ff d s)) s')))
      = (m_pKeyMap s, m_pFrequencyMap s)"
    using dk' by (simp add: notify_one_def)
qed

subsection \<open>Properties\<close>

text \<open>
  C11. Restoring a backup gives back both maps: for a manager that satisfies the invariant, whose keys
  hold no comma and no newline, whose urls hold no comma and whose ports are below \<open>2 ^ 31\<close>, a backup to
  writable files succeeds, touches no other file, and a restore from these files into any manager, in
  any state, succeeds, sets both maps to the saved ones and lets the readers go on.
\<close>

theorem backup_restore_roundtrip:
  assumes inv: "rank_inv mm" and disk: "usable_disk kf ff dk"
    and entries: "\<forall>q \<in> set (m_pKeyMap mm). storable q \<and> unat (kd_port (snd q)) < 2 ^ 31"
  shows "\<exists>dk'. backupRequest kf ff dk mm = (Returns True, dk')
    \<and> (\<forall>name. name \<noteq> kf \<longrightarrow> name \<noteq> ff \<longrightarrow> dk_files dk' name = dk_files dk name)
    \<and> (\<forall>mm2. restoreRequest kf ff dk' mm2 = (Returns True, notify_one (mm2\<lparr>m_pKeyMap := m_pKeyMap mm,
          m_pFrequencyMap := m_pFrequencyMap mm, m_writingData := 0\<rparr>)))"
  using backup_then_restore [OF assms] by blast

lemma backup_restore_roundtrip_witness:
  defines "mm \<equiv> addOrUpdateKey ''a'' ''localhost'' 8080 (MapManager_new 2 4 0)"
    and "dk \<equiv> \<lparr>dk_files = (\<lambda>_. None), dk_readable = (\<lambda>_. True), dk_writable = (\<lambda>_. True),
      dk_read_limit = (\<lambda>_. None), dk_write_limit = (\<lambda>_. None), dk_buffer = 8191\<rparr>"
  shows "\<exists>dk'. backupRequest ''k'' ''f'' dk mm = (Returns True, dk')
    \<and> restoreRequest ''k'' ''f'' dk' MapManager_default =
        (Returns True, notify_one (MapManager_default\<lparr>m_pKeyMap := m_pKeyMap mm,
          m_pFrequencyMap := m_pFrequencyMap mm, m_writingData := 0\<rparr>))"
proof -
  have "rank_inv mm"
    unfolding mm_def by (rule rank_inv_addOrUpdateKey [OF rank_inv_new])
      (simp add: prev_order_def MapManager_new_def)
  moreover have "usable_disk ''k'' ''f'' dk" by (simp add: dk_def usable_disk_def)
  moreover have "\<forall>q \<in> set (m_pKeyMap mm). storable q \<and> unat (kd_port (snd q)) < 2 ^ 31"
    by (simp add: mm_def addOrUpdateKey_def notify_one_def MapManager_new_def storable_def
        FIELD_SEPARATOR_def newline_def Let_def)
  ultimately show ?thesis using backup_restore_roundtrip by blast
qed

text \<open>
  C40. What a restore makes of urls that hold a comma. For a manager that satisfies the invariant and whose
  entries are one line each (no comma or newline in the key, no newline behind the first comma of the url), a backup to writable files succeeds, and if \<open>stoi\<close> reads a number in what follows
  the comma, or in the port when there is none, a restore succeeds, with every count as it was: the url ends at its
  comma and the number behind it has become the port.
\<close>

theorem restore_rereads_entries:
  assumes inv: "rank_inv mm" and disk: "usable_disk kf ff dk"
    and entries: "\<forall>q \<in> set (m_pKeyMap mm). one_line q \<and> (\<exists>d. reread (snd q) = Inr d)"
  shows "\<exists>dk'. backupRequest kf ff dk mm = (Returns True, dk')
    \<and> (\<forall>mm2. \<exists>mm3. restoreRequest kf ff dk' mm2 = (Returns True, mm3)
         \<and> m_pKeyMap mm3 = map reread_entry (m_pKeyMap mm) \<and> m_pFrequencyMap mm3 = m_pFrequencyMap mm
         \<and> frequency_of mm3 = frequency_of mm \<and> m_writingData mm3 = 0)"
proof -
  obtain dk' where dk': "backupRequest kf ff dk mm = (Returns True, dk')"
    "\<forall>mm2. restoreRequest kf ff dk' mm2 = (Returns True, notify_one (mm2\<lparr>m_pKeyMap := map reread_entry (m_pKeyMap mm),
          m_pFrequencyMap := m_pFrequencyMap mm, m_writingData := 0\<rparr>))"
    using backup_then_reread [OF assms] by blast
  have "frequency_of mm3 = frequency_of mm" if "m_pKeyMap mm3 = map reread_entry (m_pKeyMap mm)" for mm3
    using that by (auto simp: fun_eq_iff frequency_of_def reread_entries split: option.split)
  then show ?thesis using dk' by (simp add: notify_one_def)
qed

text \<open>The port that a client reported behind a second comma, which the server has stored as a part of the url.\<close>

lemma restore_rereads_entries_witness:
  defines "mm \<equiv> addOrUpdateKey ''k'' ''localhost,8080'' 0 (MapManager_new 2 4 0)"
  shows "\<exists>dk'. backupRequest ''k'' ''f'' empty_disk mm = (Returns True, dk')
    \<and> m_pKeyMap mm = [(''k'', \<lparr>kd_url = ''localhost,8080'', kd_port = 0, kd_frequency = 1\<rparr>)]
    \<and> m_pKeyMap (snd (restoreRequest ''k'' ''f'' dk' MapManager_default))
      = [(''k'', \<lparr>kd_url = ''localhost'', kd_port = 8080, kd_frequency = 1\<rparr>)]"
proof -
  have km: "m_pKeyMap mm = [(''k'', \<lparr>kd_url = ''localhost,8080'', kd_port = 0, kd_frequency = 1\<rparr>)]"
    by (simp add: mm_def addOrUpdateKey_def notify_one_def MapManager_new_def Let_def)
  have read: "one_line (''k'', \<lparr>kd_url = ''localhost,8080'', kd_port = 0, kd_frequency = 1\<rparr>)"
    "reread \<lparr>kd_url = ''localhost,8080'', kd_port = 0, kd_frequency = 1\<rparr>
      = Inr \<lparr>kd_url = ''localhost'', kd_port = 8080, kd_frequency = 1\<rparr>"
    by code_simp+
  then have entries: "\<forall>q \<in> set (m_pKeyMap mm). one_line q \<and> (\<exists>d. reread (snd q) = Inr d)" by (simp add: km)
  have inv: "rank_inv mm"
    unfolding mm_def by (rule rank_inv_addOrUpdateKey [OF rank_inv_new])
      (simp add: prev_order_def MapManager_new_def)
  have disk: "usable_disk ''k'' ''f'' empty_disk" by (simp add: empty_disk_def usable_disk_def)
  obtain dk' mm3 where dk': "backupRequest ''k'' ''f'' empty_disk mm = (Returns True, dk')"
    "restoreRequest ''k'' ''f'' dk' MapManager_default = (Returns True, mm3)" "m_pKeyMap mm3 = map reread_entry (m_pKeyMap mm)"
    using restore_rereads_entries [OF inv disk entries] by blast
  have "map reread_entry (m_pKeyMap mm) = [(''k'', \<lparr>kd_url = ''localhost'', kd_port = 8080, kd_frequency = 1\<rparr>)]"
    unfolding km reread_entry_def by (simp add: read(2))
  then show ?thesis using dk' km by (intro exI [of _ dk']) simp
qed

text \<open>
  C29. A restore that fails after both files opened, by a read failure or by an exception of \<open>stoi\<close> or
  \<open>stoul\<close>, leaves \<open>m_writingData\<close> at 1: from then on every reader (\<open>isHotKey\<close>, \<open>getTopHotkeys\<close>) stays
  in its wait, whatever it asks for, until an operation that writes has run to its end. A restore whose
  files do not open changes nothing.
\<close>

theorem failed_restore_blocks_readers:
  assumes "restoreRequest kf ff dk mm = (r, mm')" "r \<noteq> Returns True"
  shows "if is_fail (ifstream_open dk kf) \<or> is_fail (ifstream_open dk ff)
     then r = Returns False \<and> mm' = mm
     else m_writingData mm' = 1 \<and> isHotKey key mm' = Waits \<and> getTopHotkeys mm' vec = Waits
       \<and> m_writingData (addOrUpdateKey key url nPort mm') = 0
       \<and> isHotKey key (addOrUpdateKey key url nPort mm') \<noteq> Waits"
proof (cases "is_fail (ifstream_open dk kf) \<or> is_fail (ifstream_open dk ff)")
  case False
  obtain r0 km s where k: "restore_keys (ifstream_open dk kf)
      \<lparr>f_key = [], f_order = [], f_url = [], f_port = []\<rparr> [] = (r0, km, s)" by (rule prod_cases3)
  have w: "m_writingData mm' = 1"
    using restoreRequest_opened [OF _ _ k, of ff mm] False assms
    by (auto simp: Let_def split_beta split: if_splits)
  have "m_writingData (addOrUpdateKey key url nPort mm') = 0"
    by (simp add: addOrUpdateKey_def notify_one_def Let_def)
  then show ?thesis using w False by (simp add: isHotKey_def getTopHotkeys_def Let_def)
next
  case True
  then have "restoreRequest kf ff dk mm = (Returns False, mm)"
    unfolding restoreRequest_def Let_def by (simp only: if_True if_cancel split: if_split) blast
  then show ?thesis using assms True by simp
qed

lemma failed_restore_blocks_readers_witness:
  defines "dk \<equiv> \<lparr>dk_files = [''k'' \<mapsto> ''a,x,localhost,80'' @ [newline], ''f'' \<mapsto> []], dk_readable = (\<lambda>_. True),
      dk_writable = (\<lambda>_. True), dk_read_limit = (\<lambda>_. None), dk_write_limit = (\<lambda>_. None), dk_buffer = 8191\<rparr>"
  shows "\<exists>mm'. restoreRequest ''k'' ''f'' dk (MapManager_new 2 4 0) = (Throws Invalid_argument, mm')
    \<and> isHotKey ''a'' mm' = Waits"
proof -
  have "fst (restoreRequest ''k'' ''f'' dk (MapManager_new 2 4 0)) = Throws Invalid_argument
      \<and> \<not> is_fail (ifstream_open dk ''k'') \<and> \<not> is_fail (ifstream_open dk ''f'')"
    unfolding dk_def by code_simp
  then show ?thesis
    using failed_restore_blocks_readers [of "''k''" "''f''" dk "MapManager_new 2 4 0" "Throws Invalid_argument"]
    by (cases "restoreRequest ''k'' ''f'' dk (MapManager_new 2 4 0)") auto
qed

text \<open>
  A backup whose files cannot be opened for writing reports success and writes nothing: the open
  is tested with \<open>bad()\<close>, which a failed open does not set.
\<close>

theorem unwritable_backup_reports_success:
  assumes "\<not> dk_writable dk kf" "\<not> dk_writable dk ff" "m_writingData mm = 0"
  shows "backupRequest kf ff dk mm = (Returns True, dk)"
  using assms dump_frequencies_failed [of open_out_failed "m_pFrequencyMap mm"]
    dump_keys_failed [of open_out_failed "m_pKeyMap mm"]
  by (simp add: backupRequest_def ofstream_open_def store_file_def)

lemma unwritable_backup_reports_success_witness:
  defines "dk \<equiv> \<lparr>dk_files = (\<lambda>_. None), dk_readable = (\<lambda>_. False), dk_writable = (\<lambda>_. False),
      dk_read_limit = (\<lambda>_. None), dk_write_limit = (\<lambda>_. None), dk_buffer = 8191\<rparr>"
  shows "backupRequest ''k'' ''f'' dk (addOrUpdateKey ''a'' ''u'' 1 (MapManager_new 2 4 0)) = (Returns True, dk)"
  by (rule unwritable_backup_reports_success)
    (simp_all add: dk_def addOrUpdateKey_def notify_one_def Let_def)

text \<open>
  A port of \<open>2 ^ 31\<close> or more is saved but cannot be read back: a backup of a manager that holds
  one succeeds, and the restore from it ends with \<open>std::out_of_range\<close> (the port is an \<open>unsigned int\<close> that
  is read with \<open>stoi\<close>), with the readers blocked.
\<close>

theorem large_port_not_restorable:
  assumes inv: "rank_inv mm" and disk: "usable_disk kf ff dk"
    and clean: "\<forall>q \<in> set (m_pKeyMap mm). storable q"
    and large: "\<exists>q \<in> set (m_pKeyMap mm). 2 ^ 31 \<le> unat (kd_port (snd q))"
  shows "\<exists>dk'. backupRequest kf ff dk mm = (Returns True, dk')
    \<and> (\<exists>mm'. restoreRequest kf ff dk' mm2 = (Throws Out_of_range, mm') \<and> m_writingData mm' = 1)"
proof -
  have "\<exists>q \<in> set (m_pKeyMap mm). reread (snd q) = Inl Out_of_range"
    "\<forall>q \<in> set (m_pKeyMap mm). \<forall>e. reread (snd q) = Inl e \<longrightarrow> e = Out_of_range"
    using clean large storable_one_line(2) by (force, force split: if_splits)
  then show ?thesis using backup_then_throw [OF inv disk] clean storable_one_line(1) by blast
qed

lemma large_port_not_restorable_witness:
  defines "mm \<equiv> addOrUpdateKey ''a'' ''u'' (- 1) (MapManager_new 2 4 0)"
    and "dk \<equiv> \<lparr>dk_files = (\<lambda>_. None), dk_readable = (\<lambda>_. True), dk_writable = (\<lambda>_. True),
      dk_read_limit = (\<lambda>_. None), dk_write_limit = (\<lambda>_. None), dk_buffer = 8191\<rparr>"
  shows "\<exists>dk'. backupRequest ''k'' ''f'' dk mm = (Returns True, dk')
    \<and> (\<exists>mm'. restoreRequest ''k'' ''f'' dk' MapManager_default = (Throws Out_of_range, mm')
         \<and> m_writingData mm' = 1)"
proof (rule large_port_not_restorable)
  show "rank_inv mm"
    unfolding mm_def by (rule rank_inv_addOrUpdateKey [OF rank_inv_new])
      (simp add: prev_order_def MapManager_new_def)
  show "usable_disk ''k'' ''f'' dk" by (simp add: dk_def usable_disk_def)
  show "\<forall>q \<in> set (m_pKeyMap mm). storable q" "\<exists>q \<in> set (m_pKeyMap mm). 2 ^ 31 \<le> unat (kd_port (snd q))"
    by (simp_all add: mm_def addOrUpdateKey_def notify_one_def MapManager_new_def storable_def
        FIELD_SEPARATOR_def newline_def unsigned_minus_1_eq_mask mask_eq_exp_minus_1 Let_def)
qed

end
