(* ===== verification/Timer.thy ===== *)
theory Timer
  imports Prelude
begin

section \<open>Timer (include/timer/timer.h, src/timer/timer.cpp)\<close>

text \<open>
  A timer runs a function in a detached thread, once or repeatedly. The threads share the two flags and
  the interval with the owner; each thread is a program counter into \<open>run\<close>, so that the steps of the
  threads and the calls of the owner interleave. The function itself is one step that only counts.
\<close>

subsection \<open>State\<close>

text \<open>
  Where a thread is in \<open>run\<close>: before the first test of the loop, in \<open>sleep_for\<close>, before the second test, past
  it and before the call of the function, before the test of \<open>m_periodic\<close> at the end of the loop, before that of
  \<open>m_running\<close>, past the loop, and returned. A step reads or writes at most one of the flags.
\<close>

datatype timer_pc = Loop_head | Sleeping | Woken | Calling | After_call | Repeating | Leaving | Returned

record timer =
  t_periodic :: bool
  t_running :: bool
  t_interval :: uint
  t_threads :: "timer_pc list"
  t_calls :: nat        \<comment> \<open>how often the function has been called\<close>

definition Timer_default :: timer where
  "Timer_default =
     \<lparr>t_periodic = False, t_running = False, t_interval = 0, t_threads = [], t_calls = 0\<rparr>"

definition Timer_new :: "uint \<Rightarrow> bool \<Rightarrow> timer" where
  "Timer_new term0 repeat =
     \<lparr>t_periodic = repeat, t_running = False, t_interval = term0, t_threads = [], t_calls = 0\<rparr>"

definition setRepetitive :: "bool \<Rightarrow> timer \<Rightarrow> timer" where
  "setRepetitive repeat t = t\<lparr>t_periodic := repeat\<rparr>"

definition setTimeout :: "uint \<Rightarrow> timer \<Rightarrow> timer" where
  "setTimeout delay t = t\<lparr>t_periodic := False, t_interval := delay\<rparr>"

definition setInterval :: "uint \<Rightarrow> timer \<Rightarrow> timer" where
  "setInterval term0 t = t\<lparr>t_periodic := True, t_interval := term0\<rparr>"

definition getInterval :: "timer \<Rightarrow> uint" where
  "getInterval t = t_interval t"

definition timer_start :: "timer \<Rightarrow> bool \<times> timer" where
  "timer_start t =
     (if t_running t \<or> t_interval t = 0 then (False, t)
      else (True, t\<lparr>t_running := True, t_threads := t_threads t @ [Loop_head]\<rparr>))"

definition timer_stop :: "timer \<Rightarrow> timer" where
  "timer_stop t = t\<lparr>t_running := False\<rparr>"

subsection \<open>The threads\<close>

text \<open>One step of a thread: its next program counter and what it does to the timer.\<close>

definition run_pc :: "timer \<Rightarrow> timer_pc \<Rightarrow> timer_pc" where
  "run_pc t pc =
     (case pc of
        Loop_head \<Rightarrow> if t_running t then Sleeping else Leaving
      | Sleeping \<Rightarrow> Woken
      | Woken \<Rightarrow> if t_running t then Calling else Leaving
      | Calling \<Rightarrow> After_call
      | After_call \<Rightarrow> if t_periodic t then Repeating else Leaving
      | Repeating \<Rightarrow> if t_running t then Loop_head else Leaving
      | Leaving \<Rightarrow> Returned
      | Returned \<Rightarrow> Returned)"

definition run_thread :: "nat \<Rightarrow> timer \<Rightarrow> timer" where
  "run_thread i t =
     (if i < length (t_threads t) then
        let pc = t_threads t ! i
        in t\<lparr>t_threads := (t_threads t)[i := run_pc t pc],
             t_calls := (if pc = Calling then Suc (t_calls t) else t_calls t),
             t_running := (if pc = Leaving then False else t_running t)\<rparr>
      else t)"

text \<open>The timer and its owner as a labelled step relation, and the runs of it.\<close>

datatype timer_event =
    Start bool
  | Stop
  | Thread nat
  | Set_repetitive bool
  | Set_timeout uint
  | Set_interval uint

inductive timer_step :: "timer \<Rightarrow> timer_event \<Rightarrow> timer \<Rightarrow> bool" where
  step_start: "timer_start t = (r, t') \<Longrightarrow> timer_step t (Start r) t'"
| step_stop: "timer_step t Stop (timer_stop t)"
| step_thread: "i < length (t_threads t) \<Longrightarrow> timer_step t (Thread i) (run_thread i t)"
| step_repetitive: "timer_step t (Set_repetitive b) (setRepetitive b t)"
| step_timeout: "timer_step t (Set_timeout d) (setTimeout d t)"
| step_interval: "timer_step t (Set_interval d) (setInterval d t)"

inductive_cases timer_stepE: "timer_step t e t'"

inductive_simps timer_step_simps:
  "timer_step t (Start r) t'" "timer_step t Stop t'" "timer_step t (Thread i) t'"
  "timer_step t (Set_repetitive b) t'" "timer_step t (Set_timeout d) t'" "timer_step t (Set_interval d) t'"

inductive timer_run :: "timer \<Rightarrow> timer_event list \<Rightarrow> timer \<Rightarrow> bool" where
  run_none: "timer_run t [] t"
| run_more: "timer_step t e t1 \<Longrightarrow> timer_run t1 evs t2 \<Longrightarrow> timer_run t (e # evs) t2"

inductive_simps timer_run_simps: "timer_run t [] t'" "timer_run t (e # evs) t'"

subsection \<open>At most one thread\<close>

definition live :: "timer \<Rightarrow> nat" where
  "live t = length (filter (\<lambda>pc. pc \<noteq> Returned) (t_threads t))"

text \<open>
  Without \<open>stop\<close>, \<open>m_running\<close> is set as long as a thread is in its loop: a new thread is started only
  after the last one left it.
\<close>

definition one_thread :: "timer \<Rightarrow> bool" where
  "one_thread t \<longleftrightarrow> (if t_running t then live t = 1 else live t = 0)"

lemma live_frame [simp]:
  "live (setRepetitive b t) = live t" "live (setTimeout d t) = live t" "live (setInterval d t) = live t"
  "live (timer_stop t) = live t"
  by (simp_all add: live_def setRepetitive_def setTimeout_def setInterval_def timer_stop_def)

lemma running_frame [simp]:
  "t_running (setRepetitive b t) = t_running t" "t_running (setTimeout d t) = t_running t"
  "t_running (setInterval d t) = t_running t"
  by (simp_all add: setRepetitive_def setTimeout_def setInterval_def)

lemma run_thread_record:
  "run_thread i \<lparr>t_periodic = p, t_running = r, t_interval = iv, t_threads = ts, t_calls = c\<rparr> =
     (if i < length ts
      then \<lparr>t_periodic = p, t_running = (r \<and> ts ! i \<noteq> Leaving), t_interval = iv,
        t_threads = ts[i := (case ts ! i of
            Loop_head \<Rightarrow> if r then Sleeping else Leaving | Sleeping \<Rightarrow> Woken
          | Woken \<Rightarrow> if r then Calling else Leaving | Calling \<Rightarrow> After_call
          | After_call \<Rightarrow> if p then Repeating else Leaving | Repeating \<Rightarrow> if r then Loop_head else Leaving
          | Leaving \<Rightarrow> Returned | Returned \<Rightarrow> Returned)],
        t_calls = (if ts ! i = Calling then Suc c else c)\<rparr>
      else \<lparr>t_periodic = p, t_running = r, t_interval = iv, t_threads = ts, t_calls = c\<rparr>)"
  by (simp add: run_thread_def run_pc_def Let_def)

lemma timer_start_record:
  "timer_start \<lparr>t_periodic = p, t_running = r, t_interval = iv, t_threads = ts, t_calls = c\<rparr> =
     (if r \<or> iv = 0
      then (False, \<lparr>t_periodic = p, t_running = r, t_interval = iv, t_threads = ts, t_calls = c\<rparr>)
      else (True, \<lparr>t_periodic = p, t_running = True, t_interval = iv, t_threads = ts @ [Loop_head], t_calls = c\<rparr>))"
  by (simp add: timer_start_def)

lemma started_new:
  "ms \<noteq> 0 \<Longrightarrow> timer_start (Timer_new ms p) =
     (True, \<lparr>t_periodic = p, t_running = True, t_interval = ms, t_threads = [Loop_head], t_calls = 0\<rparr>)"
  by (simp add: timer_start_def Timer_new_def)

lemma filter_update_length:
  "i < length xs \<Longrightarrow>
     length (filter P (xs[i := x])) + (if P (xs ! i) then 1 else 0) = length (filter P xs) + (if P x then 1 else 0)"
proof (induction xs arbitrary: i)
  case (Cons y ys)
  then show ?case by (cases i) auto
qed simp

lemma live_run_thread:
  assumes "i < length (t_threads t)"
  shows "live (run_thread i t) = (if t_threads t ! i = Leaving then live t - 1 else live t)"
    and "t_threads t ! i \<noteq> Returned \<Longrightarrow> 0 < live t"
proof -
  let ?P = "\<lambda>pc. pc \<noteq> Returned"
  have eq: "live (run_thread i t) + (if ?P (t_threads t ! i) then 1 else 0)
      = live t + (if ?P (run_pc t (t_threads t ! i)) then 1 else 0)"
    using filter_update_length [OF assms, of ?P "run_pc t (t_threads t ! i)"] assms
    by (simp add: live_def run_thread_def Let_def)
  show pos: "0 < live t" if "t_threads t ! i \<noteq> Returned"
    using that assms by (auto simp: live_def filter_empty_conv intro!: nth_mem)
  show "live (run_thread i t) = (if t_threads t ! i = Leaving then live t - 1 else live t)"
    using eq pos by (cases "t_threads t ! i") (auto simp: run_pc_def split: if_splits)
qed

lemma one_thread_run:
  assumes "one_thread t"
  shows "one_thread (run_thread i t)"
proof (cases "i < length (t_threads t)")
  case True
  note l = live_run_thread [OF True]
  have "t_running (run_thread i t) = (t_threads t ! i \<noteq> Leaving \<and> t_running t)"
    using True by (simp add: run_thread_def Let_def)
  then show ?thesis using l assms by (auto simp: one_thread_def split: if_splits)
qed (use assms in \<open>simp add: run_thread_def\<close>)

lemma one_thread_start: "one_thread t \<Longrightarrow> one_thread (snd (timer_start t))"
  by (auto simp: one_thread_def timer_start_def live_def)

lemma one_thread_step: "timer_step t e t' \<Longrightarrow> e \<noteq> Stop \<Longrightarrow> one_thread t \<Longrightarrow> one_thread t'"
proof (induction rule: timer_step.induct)
  case (step_start t r t')
  then show ?case using one_thread_start [of t] by simp
qed (simp_all add: one_thread_run, simp_all add: one_thread_def)

lemma one_thread_runs: "timer_run t evs t' \<Longrightarrow> Stop \<notin> set evs \<Longrightarrow> one_thread t \<Longrightarrow> one_thread t'"
  by (induction rule: timer_run.induct) (auto dest: one_thread_step)

subsection \<open>Properties\<close>

text \<open>
  C34. As long as the owner does not call \<open>stop\<close>, at most one thread of the timer is in its loop,
  whatever else the owner calls and however the threads are scheduled; \<open>start\<close> is refused while one is
  and accepted, for a positive interval, once it has left.
\<close>

theorem one_thread_without_stop:
  assumes "timer_run (Timer_new ms periodic) evs t" "Stop \<notin> set evs"
  shows "live t \<le> 1 \<and> fst (timer_start t) = (live t = 0 \<and> t_interval t \<noteq> 0)"
proof -
  have "one_thread (Timer_new ms periodic)" by (simp add: one_thread_def live_def Timer_new_def)
  then have "one_thread t" using assms one_thread_runs by blast
  then show ?thesis by (auto simp: one_thread_def timer_start_def split: if_splits)
qed

lemma one_thread_without_stop_witness:
  "live (run_thread 0 (snd (timer_start (Timer_new 5 True)))) \<le> 1"
proof -
  have "timer_run (Timer_new 5 True) [Start True, Thread 0]
      (run_thread 0 (snd (timer_start (Timer_new 5 True))))"
    by (simp add: timer_run_simps timer_step_simps timer_start_def Timer_new_def)
  then show ?thesis using one_thread_without_stop by fastforce
qed

text \<open>The threads that have passed their test of \<open>m_running\<close> and are about to call the function.\<close>

definition calling :: "timer \<Rightarrow> nat" where
  "calling t = length (filter (\<lambda>pc. pc = Calling) (t_threads t))"

lemma calling_run_thread:
  assumes "\<not> t_running t"
  shows "t_calls (run_thread i t) + calling (run_thread i t) = t_calls t + calling t"
    and "\<not> t_running (run_thread i t)" "length (t_threads (run_thread i t)) = length (t_threads t)"
    and "k < length (t_threads t) \<Longrightarrow> t_threads (run_thread i t) ! k = Calling \<Longrightarrow> t_threads t ! k = Calling"
proof -
  let ?pc = "t_threads t ! i"
  have no: "run_pc t pc \<noteq> Calling" for pc using assms by (simp add: run_pc_def split: timer_pc.split)
  have "calling (run_thread i t) + (if ?pc = Calling then 1 else 0) = calling t" if "i < length (t_threads t)"
    using filter_update_length [OF that, of "\<lambda>pc. pc = Calling" "run_pc t ?pc"] that no
    by (simp add: calling_def run_thread_def Let_def)
  then show "t_calls (run_thread i t) + calling (run_thread i t) = t_calls t + calling t"
    by (cases "i < length (t_threads t)") (auto simp: run_thread_def Let_def split: if_splits)
  show "\<not> t_running (run_thread i t)" "length (t_threads (run_thread i t)) = length (t_threads t)"
    using assms by (simp_all add: run_thread_def Let_def)
  show "t_threads t ! k = Calling" if "k < length (t_threads t)" "t_threads (run_thread i t) ! k = Calling"
    using that no by (cases "k = i") (auto simp: run_thread_def Let_def split: if_splits)
qed

text \<open>
  C39. \<open>stop\<close> does not wait for a call that is about to be made. In any schedule of the threads after it, until
  the next \<open>start\<close>, the calls made and those still to come are exactly those of the threads that had passed their
  test of \<open>m_running\<close> when \<open>stop\<close> was called: each of them calls the function once more, after \<open>stop\<close>, and no
  other thread does.
\<close>

theorem stop_leaves_calls_in_flight:
  assumes "timer_run (timer_stop t) evs t'" "\<forall>r. Start r \<notin> set evs"
  shows "t_calls t' + calling t' = t_calls t + calling t \<and> \<not> t_running t'
    \<and> (\<forall>i < length (t_threads t'). t_threads t' ! i = Calling \<longrightarrow>
         t_threads t ! i = Calling \<and> t_calls (run_thread i t') = Suc (t_calls t'))"
proof -
  have "t_calls y + calling y = t_calls x + calling x \<and> \<not> t_running y \<and> length (t_threads y) = length (t_threads x)
      \<and> (\<forall>i < length (t_threads y). t_threads y ! i = Calling \<longrightarrow> t_threads x ! i = Calling)"
    if "timer_run x evs y" "\<forall>r. Start r \<notin> set evs" "\<not> t_running x" for x evs y
    using that
  proof (induction rule: timer_run.induct)
    case (run_more t e t1 evs t2)
    have "t_calls t1 + calling t1 = t_calls t + calling t \<and> \<not> t_running t1 \<and> length (t_threads t1) = length (t_threads t)
        \<and> (\<forall>i < length (t_threads t1). t_threads t1 ! i = Calling \<longrightarrow> t_threads t ! i = Calling)"
    proof (cases e)
      case (Thread i)
      then have "t1 = run_thread i t" using run_more.hyps(1) by (simp add: timer_step_simps)
      then show ?thesis using calling_run_thread(1-3) [OF run_more.prems(2), of i] calling_run_thread(4) [OF run_more.prems(2)] by auto
    qed (use run_more in \<open>auto elim!: timer_stepE simp: calling_def timer_stop_def setRepetitive_def setTimeout_def setInterval_def\<close>)
    with run_more.IH run_more.prems show ?case by simp
  qed simp
  from this [OF assms] show ?thesis by (simp add: timer_stop_def calling_def run_thread_def)
qed

text \<open>The function is called after \<open>stop\<close>.\<close>

lemma stop_leaves_calls_in_flight_witness:
  "(let t = fold run_thread [0, 0, 0] (snd (timer_start (Timer_new 5 True)));
        t' = run_thread 0 (timer_stop t)
    in t_calls t = 0 \<and> calling t = 1 \<and> t_calls t' + calling t' = 1 \<and> t_calls t' = 1)"
proof -
  let ?t = "fold run_thread [0, 0, 0] (snd (timer_start (Timer_new 5 True)))"
  have t: "?t = \<lparr>t_periodic = True, t_running = True, t_interval = 5, t_threads = [Calling], t_calls = 0\<rparr>"
    by (simp add: started_new run_thread_record)
  have "timer_run (timer_stop ?t) [Thread 0] (run_thread 0 (timer_stop ?t))"
    unfolding t by (simp add: timer_run_simps timer_step_simps timer_stop_def)
  then have "t_calls (run_thread 0 (timer_stop ?t)) + calling (run_thread 0 (timer_stop ?t)) = t_calls ?t + calling ?t"
    by (rule stop_leaves_calls_in_flight [THEN conjunct1]) simp
  then show ?thesis
    unfolding t by (simp add: calling_def timer_stop_def run_thread_record Let_def)
qed

text \<open>A schedule: the indices of the threads in the order in which they take their steps.\<close>

definition run_threads :: "nat list \<Rightarrow> timer \<Rightarrow> timer" where
  "run_threads is t = fold run_thread is t"

text \<open>
  A timer that is stopped and started again while its thread sleeps has two threads in the loop,
  and one round of each calls the function twice.
\<close>

theorem restart_doubles_calls:
  assumes "ms \<noteq> 0"
  shows "(let t1 = run_thread 0 (snd (timer_start (Timer_new ms True)));
              t2 = snd (timer_start (timer_stop t1))
          in t_threads t1 = [Sleeping] \<and> fst (timer_start (timer_stop t1)) \<and> live t2 = 2
            \<and> t_calls (run_threads [1, 0, 0, 0, 1, 1, 1] t2) = 2)"
  using assms
  by (simp add: started_new run_thread_record run_threads_def timer_start_record timer_stop_def live_def Let_def)

lemma restart_doubles_calls_witness:
  "t_calls (run_threads [1, 0, 0, 0, 1, 1, 1] (snd (timer_start (timer_stop
     (run_thread 0 (snd (timer_start (Timer_new 10 True)))))))) = 2"
  using restart_doubles_calls [of 10] unfolding Let_def by simp

text \<open>
  A restart can also be lost: when the stopped thread is about to leave \<open>run\<close>, \<open>start\<close> returns
  true, but the old thread then resets \<open>m_running\<close>, and the new thread ends without a single call.
\<close>

theorem restart_can_be_lost:
  assumes "ms \<noteq> 0"
  shows "(let t1 = run_threads [0, 0] (snd (timer_start (Timer_new ms True)));
              t2 = run_thread 0 (timer_stop t1);
              t3 = snd (timer_start t2);
              t4 = run_threads [0, 1, 1] t3
          in fst (timer_start t2) \<and> t_calls t4 = 0 \<and> t_threads t4 = [Returned, Returned])"
  using assms
  by (simp add: started_new run_thread_record run_threads_def timer_start_record timer_stop_def Let_def)

lemma restart_can_be_lost_witness:
  "fst (timer_start (run_thread 0 (timer_stop (run_threads [0, 0] (snd (timer_start (Timer_new 10 True)))))))"
  using restart_can_be_lost [of 10] unfolding Let_def by simp

text \<open>
  A one-shot timer calls its function exactly once: from \<open>start\<close> on, as long as the owner does not
  interfere, there was no call before the thread has woken and exactly one after it has passed the test,
  and when the thread has returned the timer can be started again.
\<close>

theorem one_shot_calls_once:
  assumes "d \<noteq> 0"
  defines "t0 \<equiv> snd (timer_start (setTimeout d Timer_default))"
  assumes "timer_run t0 evs t" "\<forall>e \<in> set evs. \<exists>i. e = Thread i"
  shows "t_calls t \<le> 1
    \<and> (t_threads t = [Returned] \<longrightarrow> t_calls t = 1 \<and> fst (timer_start t))
    \<and> (6 \<le> length evs \<longrightarrow> t_threads t = [Returned])"
proof -
  define at :: "nat \<Rightarrow> timer \<Rightarrow> bool" where "at n x \<longleftrightarrow> \<not> t_periodic x \<and> t_interval x = d \<and> t_threads x = [[Loop_head, Sleeping, Woken, Calling, After_call, Leaving, Returned] ! min n 6]
    \<and> t_calls x = (if n \<le> 3 then 0 else 1) \<and> t_running x = (n < 6)" for n x
  have step: "at (Suc n) (run_thread 0 x)" if "at n x" for n x
  proof -
    have "n = 0 \<or> n = 1 \<or> n = 2 \<or> n = 3 \<or> n = 4 \<or> n = 5 \<or> 6 \<le> n" by linarith
    then show ?thesis
      using that by (elim disjE) (auto simp: at_def run_thread_def run_pc_def Let_def numeral_2_eq_2 numeral_3_eq_3)
  qed
  have runs: "at (n + length evs) y" if "timer_run x evs y" "\<forall>e \<in> set evs. \<exists>i. e = Thread i" "at n x" for x evs y n
    using that
  proof (induction arbitrary: n rule: timer_run.induct)
    case (run_more t e t1 evs t2)
    obtain i where e: "e = Thread i" using run_more.prems(1) by auto
    have "length (t_threads t) = 1" using run_more.prems(2) by (simp add: at_def)
    then have "t1 = run_thread 0 t" using run_more.hyps(1) e by (auto simp: timer_step_simps)
    then show ?case using run_more.IH [of "Suc n"] run_more.prems step by simp
  qed simp
  have "at 0 t0" using assms(1) by (simp add: at_def t0_def timer_start_def setTimeout_def Timer_default_def)
  from runs [OF assms(3,4) this] have t: "at (length evs) t" by simp
  have "length evs = 0 \<or> length evs = 1 \<or> length evs = 2 \<or> length evs = 3 \<or> length evs = 4 \<or> length evs = 5 \<or> 6 \<le> length evs"
    by linarith
  then show ?thesis
    using t assms(1) by (elim disjE) (auto simp: at_def timer_start_def)
qed

lemma one_shot_calls_once_witness:
  "t_calls (run_thread 0 (snd (timer_start (setTimeout 7 Timer_default)))) \<le> 1"
proof -
  have "timer_run (snd (timer_start (setTimeout 7 Timer_default))) [Thread 0]
      (run_thread 0 (snd (timer_start (setTimeout 7 Timer_default))))"
    by (simp add: timer_run_simps timer_step_simps timer_start_def setTimeout_def Timer_default_def)
  then show ?thesis using one_shot_calls_once [of 7 "[Thread 0]"] by simp
qed

end
