(* ===== verification/BackupManager.thy ===== *)
theory BackupManager
  imports MapManagerBackup Timer
begin

section \<open>BackupManager (include/backupmanager.h, src/backupmanager.cpp)\<close>

text \<open>
  The backup manager rotates nine generations of the two backup files and asks the map manager to write
  new ones, from a timer; a restore reads the current files. \<open>boost::filesystem\<close> is a parameter: its two
  operations are a record, and \<open>posix_files\<close> states their documented behaviour. The manager it points
  to is an argument of the operations that use it.
\<close>

subsection \<open>boost::filesystem\<close>

record filesystem =
  fs_exists :: "string \<Rightarrow> disk \<Rightarrow> bool"
  fs_rename :: "string \<Rightarrow> string \<Rightarrow> disk \<Rightarrow> unit outcome \<times> disk"

text \<open>A rename of an existing file gives its contents to the new name, which it replaces.\<close>

definition posix_files :: "filesystem \<Rightarrow> bool" where
  "posix_files fs \<longleftrightarrow> (\<forall>name dk. fs_exists fs name dk = (dk_files dk name \<noteq> None))
     \<and> (\<forall>old new dk. old \<noteq> new \<longrightarrow> dk_files dk old \<noteq> None \<longrightarrow>
          fs_rename fs old new dk
            = (Returns (), dk\<lparr>dk_files := (dk_files dk)(new := dk_files dk old, old := None)\<rparr>))"

subsection \<open>State and operations\<close>

record backup_manager =
  b_verbosity :: level
  b_backupTerm :: uint
  b_timer :: timer
  b_keyFilename :: string
  b_frequencyFilename :: string

definition BackupManager_new :: "uint \<Rightarrow> level \<Rightarrow> backup_manager" where
  "BackupManager_new term0 v =
     \<lparr>b_verbosity = v, b_backupTerm = term0, b_timer = Timer_new (1000 * term0) True,
      b_keyFilename = [], b_frequencyFilename = []\<rparr>"

definition setFilenames :: "string \<Rightarrow> string \<Rightarrow> string \<Rightarrow> backup_manager \<Rightarrow> backup_manager" where
  "setFilenames kfName ffName fExt b =
     b\<lparr>b_keyFilename := c_string kfName @ ''.'' @ c_string fExt,
       b_frequencyFilename := c_string ffName @ ''.'' @ c_string fExt\<rparr>"

text \<open>The result of \<open>m_timer.start\<close> is ignored.\<close>

definition backup_start :: "backup_manager \<Rightarrow> bool \<times> backup_manager" where
  "backup_start b =
     (if getInterval (b_timer b) = 0 \<or> b_keyFilename b = [] \<or> b_frequencyFilename b = [] then (False, b)
      else (True, b\<lparr>b_timer := snd (timer_start (b_timer b))\<rparr>))"

definition backup_stop :: "backup_manager \<Rightarrow> backup_manager" where
  "backup_stop b = b\<lparr>b_timer := timer_stop (b_timer b)\<rparr>"

subsection \<open>renameFiles\<close>

text \<open>Where the generation number goes: the name with an underscore before its extension, and the place.\<close>

definition generation_base :: "string \<Rightarrow> exn + string \<times> size_type" where
  "generation_base filename =
     (let p = find_last_char filename (CHR ''.'');
          pos = (if p = npos then word_of_nat (length filename) else p)
      in case insert_at pos ''_'' filename of
           Inl e \<Rightarrow> Inl e
         | Inr fName \<Rightarrow> Inr (fName, pos + 1))"

text \<open>One file of generation \<open>i - 1\<close> becomes generation \<open>i\<close>; generation 0 is the current file.\<close>

definition rename_generation ::
  "filesystem \<Rightarrow> string \<Rightarrow> string \<times> size_type \<Rightarrow> nat \<Rightarrow> disk \<Rightarrow> unit outcome \<times> disk" where
  "rename_generation fs current base i dk =
     (let (fName, pos) = base
      in case (if i = 1 then Inr current else insert_at pos [digit_char (i - 1)] fName) of
           Inl e \<Rightarrow> (Throws e, dk)
         | Inr oldFile \<Rightarrow>
             if fs_exists fs oldFile dk
             then (case insert_at pos [digit_char i] fName of
                     Inl e \<Rightarrow> (Throws e, dk)
                   | Inr newFile \<Rightarrow> fs_rename fs oldFile newFile dk)
             else (Returns (), dk))"

text \<open>The loop for \<open>i\<close> from 9 down to 1: the key file, then the frequency file.\<close>

fun rename_loop ::
  "filesystem \<Rightarrow> backup_manager \<Rightarrow> string \<times> size_type \<Rightarrow> string \<times> size_type \<Rightarrow> nat \<Rightarrow> disk
     \<Rightarrow> unit outcome \<times> disk" where
  "rename_loop fs b kbase fbase 0 dk = (Returns (), dk)"
| "rename_loop fs b kbase fbase (Suc i) dk =
     (let (r, dk1) = rename_generation fs (b_keyFilename b) kbase (Suc i) dk
      in if r \<noteq> Returns () then (r, dk1)
         else
           let (r', dk2) = rename_generation fs (b_frequencyFilename b) fbase (Suc i) dk1
           in if r' \<noteq> Returns () then (r', dk2) else rename_loop fs b kbase fbase i dk2)"

definition renameFiles :: "filesystem \<Rightarrow> backup_manager \<Rightarrow> disk \<Rightarrow> unit outcome \<times> disk" where
  "renameFiles fs b dk =
     (case generation_base (b_keyFilename b) of
        Inl e \<Rightarrow> (Throws e, dk)
      | Inr kbase \<Rightarrow>
          (case generation_base (b_frequencyFilename b) of
             Inl e \<Rightarrow> (Throws e, dk)
           | Inr fbase \<Rightarrow> rename_loop fs b kbase fbase 9 dk))"

subsection \<open>The two requests\<close>

text \<open>A failure of the map manager's backup is only logged: the call returns as after a success.\<close>

definition manager_backupRequest ::
  "filesystem \<Rightarrow> backup_manager \<Rightarrow> map_manager \<Rightarrow> disk \<Rightarrow> unit outcome \<times> disk" where
  "manager_backupRequest fs b mgr dk =
     (let (r, dk1) = renameFiles fs b dk
      in if r \<noteq> Returns () then (r, dk1)
         else
           let (ok, dk2) = backupRequest (b_keyFilename b) (b_frequencyFilename b) dk1 mgr
           in (map_outcome (\<lambda>_. ()) ok, dk2))"

definition manager_restoreRequest ::
  "backup_manager \<Rightarrow> disk \<Rightarrow> map_manager \<Rightarrow> bool outcome \<times> map_manager" where
  "manager_restoreRequest b dk mgr = restoreRequest (b_keyFilename b) (b_frequencyFilename b) dk mgr"

subsection \<open>The names of the generations\<close>

definition generation :: "string \<Rightarrow> string \<Rightarrow> nat \<Rightarrow> string" where
  "generation name ext i =
     (if i = 0 then name @ ''.'' @ ext else name @ ''_'' @ [digit_char i] @ ''.'' @ ext)"

lemma generation_base_eq:
  assumes "CHR ''.'' \<notin> set ext" "length name < 2 ^ 64 - 1"
  shows "generation_base (name @ ''.'' @ ext) = Inr (name @ ''_.'' @ ext, word_of_nat (Suc (length name)))"
proof -
  have "find_last_char (name @ CHR ''.'' # ext) (CHR ''.'') = word_of_nat (length name)"
    by (rule find_last_char_split [OF assms(1)])
  moreover have "(word_of_nat (length name) :: size_type) \<noteq> npos"
    by (rule word_of_nat_neq_npos [OF assms(2)])
  ultimately show ?thesis
    using insert_at_nat [of name "''_''" "''.'' @ ext"] assms(2)
    by (simp add: generation_base_def Let_def add.commute)
qed

lemma insert_generation:
  assumes "length name < 2 ^ 64 - 1"
  shows "insert_at (word_of_nat (Suc (length name))) [digit_char i] (name @ ''_.'' @ ext)
    = Inr (name @ ''_'' @ [digit_char i] @ ''.'' @ ext)"
  using insert_at_nat [of "name @ ''_''" "[digit_char i]" "''.'' @ ext"] assms by simp

text \<open>One rename in terms of the names of the generations.\<close>

definition rotate_step :: "(nat \<Rightarrow> string) \<Rightarrow> nat \<Rightarrow> (string \<Rightarrow> string option) \<Rightarrow> string \<Rightarrow> string option" where
  "rotate_step nm i files =
     (if files (nm (i - 1)) = None then files
      else files(nm i := files (nm (i - 1)), nm (i - 1) := None))"

lemma rename_generation_eq:
  assumes "posix_files fs" "length name < 2 ^ 64 - 1" "0 < i"
    "generation name ext (i - 1) \<noteq> generation name ext i"
  shows "rename_generation fs (name @ ''.'' @ ext) (name @ ''_.'' @ ext, word_of_nat (Suc (length name))) i dk
    = (Returns (), dk\<lparr>dk_files := rotate_step (generation name ext) i (dk_files dk)\<rparr>)"
proof -
  have old: "(if i = 1 then Inr (name @ ''.'' @ ext)
      else insert_at (word_of_nat (Suc (length name))) [digit_char (i - 1)] (name @ ''_.'' @ ext))
      = Inr (generation name ext (i - 1))"
    using insert_generation [OF assms(2), of "i - 1" ext] assms(3) by (auto simp: generation_def)
  have new: "insert_at (word_of_nat (Suc (length name))) [digit_char i] (name @ ''_.'' @ ext)
      = Inr (generation name ext i)"
    using insert_generation [OF assms(2), of i ext] assms(3) by (simp add: generation_def)
  have fs: "fs_exists fs n dk = (dk_files dk n \<noteq> None)"
    "dk_files dk (generation name ext (i - 1)) \<noteq> None \<Longrightarrow>
      fs_rename fs (generation name ext (i - 1)) (generation name ext i) dk
        = (Returns (), dk\<lparr>dk_files := (dk_files dk)(generation name ext i := dk_files dk (generation name ext (i - 1)),
            generation name ext (i - 1) := None)\<rparr>)" for n
    using assms(1,4) unfolding posix_files_def by blast+
  show ?thesis
    unfolding rename_generation_def Let_def split_conv old new sum.case fs(1)
    using fs(2) by (simp add: rotate_step_def)
qed

subsection \<open>The rotation\<close>

text \<open>What generation \<open>m\<close> holds after a rotation of the files \<open>f\<close>.\<close>

definition shifted :: "(nat \<Rightarrow> string) \<Rightarrow> (string \<Rightarrow> string option) \<Rightarrow> nat \<Rightarrow> string option" where
  "shifted nm f m =
     (if m = 0 then None
      else if f (nm (m - 1)) \<noteq> None then f (nm (m - 1)) else if m = 9 then f (nm 9) else None)"

text \<open>The files after the steps from 9 down to \<open>j + 1\<close>.\<close>

definition rotated_to :: "(nat \<Rightarrow> string) \<Rightarrow> nat \<Rightarrow> (string \<Rightarrow> string option) \<Rightarrow> (string \<Rightarrow> string option) \<Rightarrow> bool" where
  "rotated_to nm j f g \<longleftrightarrow>
     (\<forall>m \<le> 9. g (nm m) = (if j < m then shifted nm f m else if m = j \<and> j \<noteq> 9 then None else f (nm m)))"

lemma rotate_step_frame: "n \<notin> nm ` {..9} \<Longrightarrow> i \<le> 9 \<Longrightarrow> rotate_step nm i f n = f n"
  by (auto simp: rotate_step_def)

lemma rotated_to_step:
  assumes inj: "inj_on nm {..9}" and r: "rotated_to nm (Suc j) f g" and j: "Suc j \<le> 9"
  shows "rotated_to nm j f (rotate_step nm (Suc j) g)"
  unfolding rotated_to_def
proof (intro allI impI)
  fix m :: nat assume m: "m \<le> 9"
  have eq: "nm a = nm b \<longleftrightarrow> a = b" if "a \<le> 9" "b \<le> 9" for a b
    using inj_on_eq_iff [OF inj] that by simp
  have g: "g (nm k) = (if Suc j < k then shifted nm f k else if k = Suc j \<and> Suc j \<noteq> 9 then None else f (nm k))"
    if "k \<le> 9" for k
    using r that unfolding rotated_to_def by blast
  have gj: "g (nm j) = f (nm j)" using g [of j] j by simp
  have step: "rotate_step nm (Suc j) g (nm m) =
      (if f (nm j) = None then g (nm m) else if m = j then None else if m = Suc j then f (nm j) else g (nm m))"
    using eq [of m j] eq [of m "Suc j"] eq [of "Suc j" j] m j gj by (simp add: rotate_step_def)
  consider "m < j" | "m = j" | "m = Suc j" | "Suc j < m" by linarith
  then show "rotate_step nm (Suc j) g (nm m) =
      (if j < m then shifted nm f m else if m = j \<and> j \<noteq> 9 then None else f (nm m))"
  proof cases
    case 3
    then show ?thesis using step g [of "Suc j"] j by (simp add: shifted_def)
  qed (use step g [OF m] gj j in \<open>simp_all\<close>)
qed

lemma rotated_to_frame:
  assumes "rotated_to nm j f g" "\<forall>m \<le> 9. h (nm m) = g (nm m)"
  shows "rotated_to nm j f h"
  using assms by (simp add: rotated_to_def)

definition names_of :: "backup_manager \<Rightarrow> string \<Rightarrow> string \<Rightarrow> string \<Rightarrow> bool" where
  "names_of b kname fname ext \<longleftrightarrow> b_keyFilename b = kname @ ''.'' @ ext
     \<and> b_frequencyFilename b = fname @ ''.'' @ ext \<and> CHR ''.'' \<notin> set ext
     \<and> length kname < 2 ^ 64 - 1 \<and> length fname < 2 ^ 64 - 1
     \<and> distinct (map (generation kname ext) [0..<10] @ map (generation fname ext) [0..<10])"

lemma names_ofD:
  assumes "names_of b kname fname ext"
  shows "inj_on (generation kname ext) {..9}" "inj_on (generation fname ext) {..9}"
    and "\<And>i j. i \<le> 9 \<Longrightarrow> j \<le> 9 \<Longrightarrow> generation kname ext i \<noteq> generation fname ext j"
proof -
  have "set [0..<10] = {..9::nat}" by auto
  then have inj: "inj_on (generation kname ext) {..9}" "inj_on (generation fname ext) {..9}"
    and dis: "generation kname ext ` {..9} \<inter> generation fname ext ` {..9} = {}"
    using assms by (simp_all add: names_of_def distinct_map del: upt_Suc)
  show "inj_on (generation kname ext) {..9}" "inj_on (generation fname ext) {..9}" by (rule inj)+
  show "generation kname ext i \<noteq> generation fname ext j" if "i \<le> 9" "j \<le> 9" for i j
    using dis that by (metis IntI atMost_iff empty_iff imageI)
qed

lemma rename_loop_rotates:
  assumes fs: "posix_files fs" and names: "names_of b kname fname ext" and i: "i \<le> 9"
    and k: "rotated_to (generation kname ext) i f (dk_files dk)"
    and q: "rotated_to (generation fname ext) i f (dk_files dk)"
    and other: "\<And>n. n \<notin> generation kname ext ` {..9} \<Longrightarrow> n \<notin> generation fname ext ` {..9} \<Longrightarrow> dk_files dk n = f n"
  shows "\<exists>g. rename_loop fs b (kname @ ''_.'' @ ext, word_of_nat (Suc (length kname)))
      (fname @ ''_.'' @ ext, word_of_nat (Suc (length fname))) i dk = (Returns (), dk\<lparr>dk_files := g\<rparr>)
    \<and> rotated_to (generation kname ext) 0 f g \<and> rotated_to (generation fname ext) 0 f g
    \<and> (\<forall>n. n \<notin> generation kname ext ` {..9} \<longrightarrow> n \<notin> generation fname ext ` {..9} \<longrightarrow> g n = f n)"
  using i k q other
proof (induction i arbitrary: dk)
  case 0
  then show ?case by (intro exI [of _ "dk_files dk"]) simp
next
  case (Suc i)
  let ?k = "generation kname ext" and ?q = "generation fname ext"
  note inj = names_ofD [OF names]
  note name = names [unfolded names_of_def]
  let ?g1 = "rotate_step ?k (Suc i) (dk_files dk)"
  let ?g2 = "rotate_step ?q (Suc i) ?g1"
  have ne: "?k i \<noteq> ?k (Suc i)" "?q i \<noteq> ?q (Suc i)"
    using inj_onD [OF inj(1), of i "Suc i"] inj_onD [OF inj(2), of i "Suc i"] Suc.prems(1) by auto
  have 1: "rename_generation fs (b_keyFilename b) (kname @ ''_.'' @ ext, word_of_nat (Suc (length kname))) (Suc i) dk
      = (Returns (), dk\<lparr>dk_files := ?g1\<rparr>)"
    using rename_generation_eq [OF fs, of kname "Suc i" ext dk] ne(1) name by simp
  have 2: "rename_generation fs (b_frequencyFilename b) (fname @ ''_.'' @ ext, word_of_nat (Suc (length fname)))
      (Suc i) (dk\<lparr>dk_files := ?g1\<rparr>) = (Returns (), dk\<lparr>dk_files := ?g2\<rparr>)"
    using rename_generation_eq [OF fs, of fname "Suc i" ext "dk\<lparr>dk_files := ?g1\<rparr>"] ne(2) name by simp
  have q1: "?g1 (?q m) = dk_files dk (?q m)" if "m \<le> 9" for m
    using that Suc.prems(1) inj(3) by (intro rotate_step_frame) fastforce+
  have k2: "?g2 (?k m) = ?g1 (?k m)" if "m \<le> 9" for m
    using that Suc.prems(1) inj(3) by (intro rotate_step_frame) fastforce+
  have "rotated_to ?k i f ?g2"
    using rotated_to_frame [OF rotated_to_step [OF inj(1) Suc.prems(2,1)]] k2 by blast
  moreover have "rotated_to ?q i f ?g2"
    using rotated_to_frame [OF Suc.prems(3)] q1 Suc.prems(1) by (intro rotated_to_step [OF inj(2)]) blast+
  moreover have "?g2 n = f n" if "n \<notin> ?k ` {..9}" "n \<notin> ?q ` {..9}" for n
    using that Suc.prems(1,4) rotate_step_frame [of n ?q "Suc i"] rotate_step_frame [of n ?k "Suc i"] by simp
  moreover have "rename_loop fs b (kname @ ''_.'' @ ext, word_of_nat (Suc (length kname)))
      (fname @ ''_.'' @ ext, word_of_nat (Suc (length fname))) (Suc i) dk
    = rename_loop fs b (kname @ ''_.'' @ ext, word_of_nat (Suc (length kname)))
      (fname @ ''_.'' @ ext, word_of_nat (Suc (length fname))) i (dk\<lparr>dk_files := ?g2\<rparr>)"
    by (simp only: rename_loop.simps Let_def 1 2 split_conv) simp
  ultimately show ?case
    using Suc.IH [of "dk\<lparr>dk_files := ?g2\<rparr>"] Suc.prems(1) by simp
qed

lemma renameFiles_rotates:
  assumes fs: "posix_files fs" and names: "names_of b kname fname ext"
  obtains g where "renameFiles fs b dk = (Returns (), dk\<lparr>dk_files := g\<rparr>)"
    and "\<And>m. m \<le> 9 \<Longrightarrow> g (generation kname ext m) = shifted (generation kname ext) (dk_files dk) m"
    and "\<And>m. m \<le> 9 \<Longrightarrow> g (generation fname ext m) = shifted (generation fname ext) (dk_files dk) m"
    and "\<And>n. n \<notin> generation kname ext ` {..9} \<Longrightarrow> n \<notin> generation fname ext ` {..9} \<Longrightarrow> g n = dk_files dk n"
proof -
  have start: "rotated_to nm 9 (dk_files dk) (dk_files dk)" for nm by (simp add: rotated_to_def)
  have final: "g (nm m) = shifted nm f m" if "rotated_to nm 0 f g" "m \<le> 9" for nm f g m
    using that by (cases m) (simp_all add: rotated_to_def shifted_def)
  have bases: "generation_base (b_keyFilename b) = Inr (kname @ ''_.'' @ ext, word_of_nat (Suc (length kname)))"
    "generation_base (b_frequencyFilename b) = Inr (fname @ ''_.'' @ ext, word_of_nat (Suc (length fname)))"
    using names generation_base_eq unfolding names_of_def by metis+
  obtain g where "renameFiles fs b dk = (Returns (), dk\<lparr>dk_files := g\<rparr>)"
    "rotated_to (generation kname ext) 0 (dk_files dk) g" "rotated_to (generation fname ext) 0 (dk_files dk) g"
    "\<forall>n. n \<notin> generation kname ext ` {..9} \<longrightarrow> n \<notin> generation fname ext ` {..9} \<longrightarrow> g n = dk_files dk n"
    using rename_loop_rotates [OF fs names _ start start]
    unfolding renameFiles_def bases sum.case by auto
  then show ?thesis using that [of g] final by blast
qed

subsection \<open>The snapshots it keeps\<close>

definition backup_ready :: "filesystem \<Rightarrow> backup_manager \<Rightarrow> string \<Rightarrow> string \<Rightarrow> string \<Rightarrow> disk \<Rightarrow> bool" where
  "backup_ready fs b kname fname ext dk \<longleftrightarrow> posix_files fs \<and> names_of b kname fname ext
     \<and> usable_disk (b_keyFilename b) (b_frequencyFilename b) dk"

lemma usable_disk_files [simp]: "usable_disk kf ff (dk\<lparr>dk_files := g\<rparr>) = usable_disk kf ff dk"
  by (simp add: usable_disk_def)

lemma manager_backup_eq:
  assumes "backup_ready fs b kname fname ext dk"
  obtains dk1 where "renameFiles fs b dk = (Returns (), dk1)"
    and "usable_disk (b_keyFilename b) (b_frequencyFilename b) dk1"
    and "snd (manager_backupRequest fs b mgr dk) =
      snd (backupRequest (b_keyFilename b) (b_frequencyFilename b) dk1 mgr)"
    and "\<And>m. m \<le> 9 \<Longrightarrow> dk_files dk1 (generation kname ext m) = shifted (generation kname ext) (dk_files dk) m"
    and "\<And>m. m \<le> 9 \<Longrightarrow> dk_files dk1 (generation fname ext m) = shifted (generation fname ext) (dk_files dk) m"
proof -
  have fs: "posix_files fs" and names: "names_of b kname fname ext"
    and us: "usable_disk (b_keyFilename b) (b_frequencyFilename b) dk"
    using assms by (simp_all add: backup_ready_def)
  obtain g where g: "renameFiles fs b dk = (Returns (), dk\<lparr>dk_files := g\<rparr>)"
    "\<And>m. m \<le> 9 \<Longrightarrow> g (generation kname ext m) = shifted (generation kname ext) (dk_files dk) m"
    "\<And>m. m \<le> 9 \<Longrightarrow> g (generation fname ext m) = shifted (generation fname ext) (dk_files dk) m"
    by (rule renameFiles_rotates [OF fs names, of dk]) blast
  show ?thesis
    by (rule that [OF g(1)]) (use g us in \<open>simp_all add: manager_backupRequest_def split_beta Let_def\<close>)
qed

interpretation rotated: snapshot_store "\<lambda>mgr dk. snd (manager_backupRequest fs b mgr dk)"
  "\<lambda>dk mgr. snd (manager_restoreRequest b dk mgr)" "\<lambda>mgr. (m_pKeyMap mgr, m_pFrequencyMap mgr)" savable
  "backup_ready fs b kname fname ext" for fs b kname fname ext
proof
  fix s s' d assume s: "savable s" and ready: "backup_ready fs b kname fname ext d"
  obtain dk1 where dk1: "usable_disk (b_keyFilename b) (b_frequencyFilename b) dk1"
    "snd (manager_backupRequest fs b s d) = snd (backupRequest (b_keyFilename b) (b_frequencyFilename b) dk1 s)"
    by (rule manager_backup_eq [OF ready, of s]) blast
  show "backup_ready fs b kname fname ext (snd (manager_backupRequest fs b s d))"
    using ready backup.save_usable [OF s dk1(1)] dk1(2) by (simp add: backup_ready_def)
  show "(m_pKeyMap (snd (manager_restoreRequest b (snd (manager_backupRequest fs b s d)) s')),
      m_pFrequencyMap (snd (manager_restoreRequest b (snd (manager_backupRequest fs b s d)) s')))
      = (m_pKeyMap s, m_pFrequencyMap s)"
    using backup.load_saved [OF s dk1(1), of s'] dk1(2) by (simp add: manager_restoreRequest_def)
qed

subsection \<open>Properties\<close>

text \<open>
  C25. \<open>renameFiles\<close> rotates both files through their generations: afterwards there is no current file,
  generation 1 holds what was current, generation \<open>m\<close> holds what was in generation \<open>m - 1\<close>, the old
  generation 9 is gone where there was a generation 8, and no other file of the disk has changed.
\<close>

theorem rename_rotates_generations:
  assumes fs: "posix_files fs" and names: "names_of b kname fname ext"
  shows "\<exists>dk'. renameFiles fs b dk = (Returns (), dk')
    \<and> (\<forall>nm \<in> {generation kname ext, generation fname ext}.
         dk_files dk' (nm 0) = None
         \<and> (\<forall>m < 8. dk_files dk' (nm (Suc m)) = dk_files dk (nm m))
         \<and> dk_files dk' (nm 9) = (if dk_files dk (nm 8) = None then dk_files dk (nm 9) else dk_files dk (nm 8)))
    \<and> (\<forall>n. n \<notin> (generation kname ext ` {..9}) \<union> (generation fname ext ` {..9}) \<longrightarrow>
         dk_files dk' n = dk_files dk n)"
proof (rule renameFiles_rotates [OF fs names, of dk], goal_cases)
  case (1 g)
  have "g (nm 0) = None \<and> (\<forall>m < 8. g (nm (Suc m)) = dk_files dk (nm m))
      \<and> g (nm 9) = (if dk_files dk (nm 8) = None then dk_files dk (nm 9) else dk_files dk (nm 8))"
    if "\<And>m. m \<le> 9 \<Longrightarrow> g (nm m) = shifted nm (dk_files dk) m" for nm
    using that [of 0] that [of 9] that [of "Suc _"] by (simp add: shifted_def)
  with 1 show ?case by (intro exI [of _ "dk\<lparr>dk_files := g\<rparr>"]) simp
qed

definition disk_filesystem :: filesystem where
  "disk_filesystem =
     \<lparr>fs_exists = (\<lambda>name dk. dk_files dk name \<noteq> None),
      fs_rename = (\<lambda>old new dk. (Returns (), dk\<lparr>dk_files := (dk_files dk)(new := dk_files dk old, old := None)\<rparr>))\<rparr>"

lemma posix_disk_filesystem: "posix_files disk_filesystem"
  by (simp add: posix_files_def disk_filesystem_def)

text \<open>The backup manager as \<open>main\<close> sets it up.\<close>

definition tracker_backup :: backup_manager where
  "tracker_backup = setFilenames ''keys'' ''frequencies'' ''csv'' (BackupManager_new 3600 Error)"

lemma names_of_tracker: "names_of tracker_backup ''keys'' ''frequencies'' ''csv''"
proof -
  have "distinct (map (generation ''keys'' ''csv'') [0..<10] @ map (generation ''frequencies'' ''csv'') [0..<10])"
    by code_simp
  moreover have "b_keyFilename tracker_backup = ''keys.csv'' \<and> b_frequencyFilename tracker_backup = ''frequencies.csv''"
    by code_simp
  ultimately show ?thesis unfolding names_of_def by simp
qed

lemma rename_rotates_generations_witness:
  defines "dk \<equiv> \<lparr>dk_files = [''keys.csv'' \<mapsto> ''x'', ''keys_1.csv'' \<mapsto> ''y''], dk_readable = (\<lambda>_. True),
    dk_writable = (\<lambda>_. True), dk_read_limit = (\<lambda>_. None), dk_write_limit = (\<lambda>_. None), dk_buffer = 8191\<rparr>"
  shows "\<exists>dk'. renameFiles disk_filesystem tracker_backup dk = (Returns (), dk')
    \<and> dk_files dk' ''keys.csv'' = None"
  using rename_rotates_generations [OF posix_disk_filesystem names_of_tracker, of dk]
  by (auto simp: generation_def)

text \<open>
  C20. The backup taken last is the one that is restored: after any number of backups of managers whose
  entries can be stored, the last of them included, a restore through the same backup manager gives both
  maps of the last one, whatever manager it restores into.
\<close>

theorem restore_gives_last_backup:
  assumes "backup_ready fs b kname fname ext dk" "\<forall>mgr \<in> set mgrs. savable mgr" "savable mgr"
  defines "dk' \<equiv> fold (\<lambda>mgr dk. snd (manager_backupRequest fs b mgr dk)) (mgrs @ [mgr]) dk"
  shows "m_pKeyMap (snd (manager_restoreRequest b dk' mgr2)) = m_pKeyMap mgr
    \<and> m_pFrequencyMap (snd (manager_restoreRequest b dk' mgr2)) = m_pFrequencyMap mgr"
  using rotated.load_latest [OF assms(1-3), of mgr2] by (simp add: dk'_def)

lemma restore_gives_last_backup_witness:
  defines "dk \<equiv> \<lparr>dk_files = (\<lambda>_. None), dk_readable = (\<lambda>_. True), dk_writable = (\<lambda>_. True),
      dk_read_limit = (\<lambda>_. None), dk_write_limit = (\<lambda>_. None), dk_buffer = 8191\<rparr>"
    and "mgr \<equiv> addOrUpdateKey ''a'' ''u'' 80 MapManager_default"
  shows "m_pKeyMap (snd (manager_restoreRequest tracker_backup
      (fold (\<lambda>mgr dk. snd (manager_backupRequest disk_filesystem tracker_backup mgr dk))
        [MapManager_default, mgr] dk) MapManager_default)) = m_pKeyMap mgr"
proof -
  have "usable_disk (b_keyFilename tracker_backup) (b_frequencyFilename tracker_backup) dk"
    using names_ofD(3) [OF names_of_tracker, of 0 0] names_of_tracker
    by (simp add: usable_disk_def dk_def names_of_def generation_def)
  then have "backup_ready disk_filesystem tracker_backup ''keys'' ''frequencies'' ''csv'' dk"
    by (simp add: backup_ready_def posix_disk_filesystem names_of_tracker)
  moreover have "savable MapManager_default" by (simp add: savable_def rank_inv_default) (simp add: MapManager_default_def)
  moreover have "rank_inv mgr"
    unfolding mgr_def by (rule rank_inv_addOrUpdateKey [OF rank_inv_default])
      (simp add: prev_order_def MapManager_default_def)
  then have "savable mgr"
    by (simp add: savable_def) (simp add: mgr_def addOrUpdateKey_def notify_one_def MapManager_default_def
        storable_def FIELD_SEPARATOR_def newline_def Let_def)
  ultimately show ?thesis
    using restore_gives_last_backup [of disk_filesystem tracker_backup "''keys''" "''frequencies''" "''csv''" dk
        "[MapManager_default]" mgr MapManager_default] by simp
qed

text \<open>
  A backup that cannot write its files reports nothing and loses the current generation: the rotation
  has already moved the current files away, so the call returns as after a success, and a restore
  afterwards fails to open its files and leaves the manager as it is.
\<close>

theorem failed_backup_loses_current:
  assumes fs: "posix_files fs" and names: "names_of b kname fname ext"
    and ro: "\<not> dk_writable dk (b_keyFilename b)" "\<not> dk_writable dk (b_frequencyFilename b)"
    and mgr: "m_writingData mgr = 0"
  shows "\<exists>dk'. manager_backupRequest fs b mgr dk = (Returns (), dk')
    \<and> dk_files dk' (generation kname ext 1) = dk_files dk (b_keyFilename b)
    \<and> manager_restoreRequest b dk' mgr2 = (Returns False, mgr2)"
proof (rule renameFiles_rotates [OF fs names, of dk], goal_cases)
  case (1 g)
  let ?dk = "dk\<lparr>dk_files := g\<rparr>"
  have cur: "b_keyFilename b = generation kname ext 0" "b_frequencyFilename b = generation fname ext 0"
    using names by (simp_all add: names_of_def generation_def)
  have "backupRequest (b_keyFilename b) (b_frequencyFilename b) ?dk mgr = (Returns True, ?dk)"
    using ro mgr dump_frequencies_failed [of open_out_failed "m_pFrequencyMap mgr"]
      dump_keys_failed [of open_out_failed "m_pKeyMap mgr"]
    by (simp add: backupRequest_def ofstream_open_def store_file_def)
  then have "manager_backupRequest fs b mgr dk = (Returns (), ?dk)"
    using 1(1) by (simp add: manager_backupRequest_def)
  moreover have "g (b_keyFilename b) = None" using 1(2) [of 0] cur by (simp add: shifted_def)
  then have "manager_restoreRequest b ?dk mgr2 = (Returns False, mgr2)"
    by (simp add: manager_restoreRequest_def restoreRequest_def ifstream_open_def open_in_failed_def is_fail_def)
  moreover have "g (generation kname ext 1) = dk_files dk (b_keyFilename b)"
    using 1(2) [of 1] cur by (simp add: shifted_def)
  ultimately show ?case by (intro exI [of _ ?dk]) simp
qed

lemma failed_backup_loses_current_witness:
  defines "dk \<equiv> \<lparr>dk_files = [''keys.csv'' \<mapsto> ''x''], dk_readable = (\<lambda>_. True),
    dk_writable = (\<lambda>_. False), dk_read_limit = (\<lambda>_. None), dk_write_limit = (\<lambda>_. None), dk_buffer = 8191\<rparr>"
  shows "\<exists>dk'. manager_backupRequest disk_filesystem tracker_backup MapManager_default dk = (Returns (), dk')
    \<and> manager_restoreRequest tracker_backup dk' MapManager_default = (Returns False, MapManager_default)"
  using failed_backup_loses_current [OF posix_disk_filesystem names_of_tracker, of dk MapManager_default]
  by (auto simp: dk_def MapManager_default_def)

text \<open>
  The interval of the backup timer is the term in milliseconds as long as that fits in 32 bits: for a
  term of 1 to 4294967 seconds the timer gets exactly that, \<open>start\<close> succeeds once the file names are
  set and launches one thread, and a second \<open>start\<close> also returns true but launches none. A longer term
  wraps around and the backups come sooner than asked for.
\<close>

theorem backup_timer_interval:
  fixes s :: uint and kfName ffName fExt :: string and v :: level
  defines "b \<equiv> setFilenames kfName ffName fExt (BackupManager_new s v)"
  shows "if unat s \<le> 4294967
     then unat (t_interval (b_timer b)) = 1000 * unat s
       \<and> (0 < unat s \<longrightarrow> fst (backup_start b) \<and> live (b_timer (snd (backup_start b))) = 1
            \<and> backup_start (snd (backup_start b)) = (True, snd (backup_start b)))
       \<and> (unat s = 0 \<longrightarrow> backup_start b = (False, b))
     else unat (t_interval (b_timer b)) < 1000 * unat s"
proof -
  have interval: "unat (t_interval (b_timer b)) = (1000 * unat s) mod 2 ^ 32"
    by (simp add: b_def BackupManager_new_def setFilenames_def Timer_new_def unat_word_ariths)
  have "(1000 * unat s) mod 2 ^ 32 < 1000 * unat s" if "\<not> unat s \<le> 4294967"
  proof -
    have "(1000 * unat s) mod 2 ^ 32 < 2 ^ 32" by simp
    also have "\<dots> \<le> 1000 * unat s" using that by simp
    finally show ?thesis .
  qed
  moreover have exact: "(1000 * unat s) mod 2 ^ 32 = 1000 * unat s" if "unat s \<le> 4294967"
    using that by simp
  moreover have "fst (backup_start b) \<and> live (b_timer (snd (backup_start b))) = 1
      \<and> backup_start (snd (backup_start b)) = (True, snd (backup_start b))"
    if "unat s \<le> 4294967" "0 < unat s"
  proof -
    have "t_interval (b_timer b) \<noteq> 0" using interval exact [OF that(1)] that(2) by auto
    then show ?thesis
      by (simp add: b_def backup_start_def setFilenames_def BackupManager_new_def Timer_new_def
          getInterval_def timer_start_record live_def)
  qed
  moreover have "backup_start b = (False, b)" if "unat s = 0"
    using that by (simp add: b_def backup_start_def setFilenames_def BackupManager_new_def Timer_new_def
        getInterval_def unat_eq_0)
  ultimately show ?thesis using interval by simp
qed

lemma backup_timer_interval_witness:
  "fst (backup_start tracker_backup) \<and> unat (t_interval (b_timer tracker_backup)) = 3600000"
  using backup_timer_interval [of 3600 "''keys''" "''frequencies''" "''csv''" Error]
  by (simp add: tracker_backup_def)

end
