(* ===== verification/MessageServer.thy ===== *)
theory MessageServer
  imports MessageQueueProps BackupManager
begin

section \<open>MessageServer (include/messageserver.h, src/messageserver.cpp)\<close>

text \<open>
  The dispatcher of the requests: a target and a payload in, a code and a reply out. The objects the
  server points to are parts of its state: the message queue with the manager behind it (the manager of
  the queue and of the server are the same object, as in \<open>main\<close>), the backup manager, the disk, and the
  signals the process has raised. The system time is an argument, in seconds from the epoch.
\<close>

subsection \<open>State\<close>

datatype signal = SIGHUP | SIGINT | SIGQUIT

record 'q server =
  m_pMapManager :: bool                 \<comment> \<open>the pointer is set; the object is the consumer of the queue\<close>
  m_pMessageQueue :: "'q queue_system"
  m_pBackupManager :: backup_manager
  sv_disk :: disk
  sv_signals :: "signal list"

definition CMD_UNKNOWN :: int where "CMD_UNKNOWN = - 1"
definition CMD_FAILED :: int where "CMD_FAILED = 0"
definition CMD_SUCCEEDED :: int where "CMD_SUCCEEDED = 1"

definition payloadDelimiter :: char where
  "payloadDelimiter = CHR '',''"

abbreviation manager_of :: "'q server \<Rightarrow> map_manager" where
  "manager_of sv \<equiv> consumer (m_pMessageQueue sv)"

subsection \<open>The calls to the manager\<close>

definition server_getTopHotkeys :: "key_frequency list \<Rightarrow> 'q server \<Rightarrow> key_frequency list outcome" where
  "server_getTopHotkeys v sv = (if m_pMapManager sv then getTopHotkeys (manager_of sv) v else Returns v)"

definition server_getTotalKeys :: "'q server \<Rightarrow> uint" where
  "server_getTotalKeys sv = (if m_pMapManager sv then getTotalKeyNumber (manager_of sv) else 0)"

definition server_isHotKey :: "string \<Rightarrow> 'q server \<Rightarrow> bool outcome" where
  "server_isHotKey key sv = (if m_pMapManager sv then isHotKey key (manager_of sv) else Returns False)"

text \<open>\<open>keySent\<close> and \<open>setTopKeyNumber\<close> of the interface go to the manager directly, not by the queue.\<close>

definition server_keySent :: "string \<Rightarrow> string \<Rightarrow> uint \<Rightarrow> 'q server \<Rightarrow> 'q server" where
  "server_keySent key url port sv =
     (if m_pMapManager sv
      then sv\<lparr>m_pMessageQueue := (m_pMessageQueue sv)\<lparr>consumer := addOrUpdateKey key url port (manager_of sv)\<rparr>\<rparr>
      else sv)"

definition server_setTopKeyNumber :: "uint \<Rightarrow> 'q server \<Rightarrow> 'q server" where
  "server_setTopKeyNumber n sv =
     (if m_pMapManager sv
      then sv\<lparr>m_pMessageQueue := (m_pMessageQueue sv)
             \<lparr>consumer := setTopKeyReportBaseSize (ucast n) (manager_of sv)\<rparr>\<rparr>
      else sv)"

subsection \<open>keySent: the three parts of the payload\<close>

text \<open>Both searches for the delimiter start at the beginning of the payload.\<close>

definition split_payload :: "string \<Rightarrow> exn + string \<times> string \<times> uint" where
  "split_payload inData =
     (let start = 0; end1 = find_char inData payloadDelimiter
      in if end1 = npos
         then (case substr inData start npos of Inl e \<Rightarrow> Inl e | Inr key \<Rightarrow> Inr (key, [], 0))
         else case substr inData start (end1 - start) of
                Inl e \<Rightarrow> Inl e
              | Inr key \<Rightarrow>
                  (let start2 = end1 + 1; end2 = find_char inData payloadDelimiter
                   in if end2 = npos
                      then (case substr inData start2 npos of Inl e \<Rightarrow> Inl e | Inr url \<Rightarrow> Inr (key, url, 0))
                      else case substr inData start2 (end2 - start2) of
                             Inl e \<Rightarrow> Inl e
                           | Inr url \<Rightarrow>
                               (case substr inData (1 + end2) npos of
                                  Inl Out_of_range \<Rightarrow> Inr (key, url, 0)
                                | Inl Invalid_argument \<Rightarrow> Inr (key, url, 0)
                                | Inl e \<Rightarrow> Inl e
                                | Inr sPort \<Rightarrow>
                                    (case stoi sPort of
                                       Inr port \<Rightarrow> Inr (key, url, word_of_int port)
                                     | Inl Invalid_argument \<Rightarrow> Inr (key, url, 0)
                                     | Inl Out_of_range \<Rightarrow> Inr (key, url, 0)
                                     | Inl e \<Rightarrow> Inl e))))"

subsection \<open>getTopHotKeys: the text of the report\<close>

definition quote :: string where
  "quote = [CHR 0x22]"

function json_loop :: "key_frequency list \<Rightarrow> nat \<Rightarrow> nat \<Rightarrow> string" where
  "json_loop v mx i =
     (if i < mx then
        ''{'' @ quote @ ''Key'' @ quote @ '': '' @ quote @ kf_key (v ! i) @ quote @ '','' @ quote
          @ ''Frequency'' @ quote @ '': '' @ kf_frequency (v ! i) @ ''}''
          @ (if i < mx - 1 then '','' else []) @ json_loop v mx (Suc i)
      else [])"
  by pat_completeness auto
termination
  by (relation "measure (\<lambda>(v, mx, i). mx - i)") auto

declare json_loop.simps [simp del]

definition report_text :: "key_frequency list \<Rightarrow> string" where
  "report_text v = (let mx = (if 10 \<le> length v then 10 else length v) in ''{['' @ json_loop v mx 0 @ '']}'')"

subsection \<open>time: \<open>gmtime\<close> and \<open>put_time\<close>\<close>

definition leap_year :: "nat \<Rightarrow> bool" where
  "leap_year y \<longleftrightarrow> y mod 4 = 0 \<and> (y mod 100 \<noteq> 0 \<or> y mod 400 = 0)"

definition days_in_year :: "nat \<Rightarrow> nat" where
  "days_in_year y = (if leap_year y then 366 else 365)"

definition days_in_months :: "nat \<Rightarrow> nat list" where
  "days_in_months y = [31, if leap_year y then 29 else 28, 31, 30, 31, 30, 31, 31, 30, 31, 30, 31]"

function civil_year :: "nat \<Rightarrow> nat \<Rightarrow> nat \<times> nat" where
  "civil_year y d = (if d < days_in_year y then (y, d) else civil_year (Suc y) (d - days_in_year y))"
  by pat_completeness auto
termination
  by (relation "measure (\<lambda>(y, d). d)") (auto simp: days_in_year_def)

declare civil_year.simps [simp del]

fun civil_month :: "nat \<Rightarrow> nat list \<Rightarrow> nat \<Rightarrow> nat \<times> nat" where
  "civil_month m [] d = (m, d)"
| "civil_month m (n # ns) d = (if d < n then (m, d) else civil_month (Suc m) ns (d - n))"

definition two_digits :: "nat \<Rightarrow> string" where
  "two_digits n = (if n < 10 then ''0'' else []) @ to_string n"

definition utc_text :: "nat \<Rightarrow> string" where
  "utc_text now =
     (let (y, yd) = civil_year 1970 (now div 86400);
          (m, d) = civil_month 1 (days_in_months y) yd;
          s = now mod 86400
      in to_string y @ ''-'' @ two_digits m @ ''-'' @ two_digits (Suc d) @ '' ''
           @ two_digits (s div 3600) @ '':'' @ two_digits (s mod 3600 div 60) @ '':'' @ two_digits (s mod 60))"

subsection \<open>onMessage\<close>

text \<open>
  The branches of \<open>onMessage\<close>, one for each target: the code and the new value of \<open>outData\<close>, or how the
  call ends otherwise, and the server. An exception that is not caught in a branch leaves through the
  caller.
\<close>

type_synonym 'q reply = "(int \<times> string) outcome \<times> 'q server"

text \<open>
  The message of a reported key is built with five arguments: the port is converted to the 16 bits of the short,
  and the number, which the worker stores as the port, keeps its default 0.
\<close>

definition message_keySent :: "'q lockfree \<Rightarrow> string \<Rightarrow> 'q server \<Rightarrow> 'q reply" where
  "message_keySent lf inData sv =
     (case split_payload inData of
        Inl e \<Rightarrow> (Throws e, sv)
      | Inr (key, url, port) \<Rightarrow>
          (Returns (CMD_SUCCEEDED, ''reported key sent : '' @ key),
           sv\<lparr>m_pMessageQueue :=
             queue_send lf (Message_strings cmd_addKey key url 0 (ucast port) 0) (m_pMessageQueue sv)\<rparr>))"

definition message_isHotKey :: "string \<Rightarrow> 'q server \<Rightarrow> 'q reply" where
  "message_isHotKey inData sv =
     (map_outcome (\<lambda>hot. (CMD_SUCCEEDED, if hot then ''YES'' else ''NO'')) (server_isHotKey inData sv), sv)"

definition message_getTopHotKeys :: "'q server \<Rightarrow> 'q reply" where
  "message_getTopHotKeys sv =
     (map_outcome (\<lambda>v. (CMD_SUCCEEDED, report_text v)) (server_getTopHotkeys [] sv), sv)"

definition message_totalKeys :: "'q server \<Rightarrow> 'q reply" where
  "message_totalKeys sv = (Returns (CMD_SUCCEEDED, to_string (unat (server_getTotalKeys sv))), sv)"

definition message_setTopHotKeys :: "'q lockfree \<Rightarrow> string \<Rightarrow> 'q server \<Rightarrow> 'q reply" where
  "message_setTopHotKeys lf inData sv =
     (case stoi inData of
        Inl Invalid_argument \<Rightarrow> (Returns (CMD_FAILED, ''Invalid Argument: '' @ inData), sv)
      | Inl Out_of_range \<Rightarrow> (Returns (CMD_FAILED, ''Argument out of range: '' @ inData), sv)
      | Inl e \<Rightarrow> (Throws e, sv)
      | Inr num \<Rightarrow>
          if num \<le> 0
          then (Returns (CMD_FAILED, ''Argument should be greater than zero: '' @ inData), sv)
          else (Returns (CMD_SUCCEEDED, ''Top key report size is now '' @ inData),
                sv\<lparr>m_pMessageQueue :=
                  queue_send lf (Message_numbers cmd_setRankingLength 0 (word_of_int num) 0) (m_pMessageQueue sv)\<rparr>))"

definition message_signal :: "string \<Rightarrow> signal \<Rightarrow> 'q server \<Rightarrow> 'q reply" where
  "message_signal reply sig sv = (Returns (CMD_SUCCEEDED, reply), sv\<lparr>sv_signals := sv_signals sv @ [sig]\<rparr>)"

definition message_restore :: "'q server \<Rightarrow> 'q reply" where
  "message_restore sv =
     (let (r, mgr) = manager_restoreRequest (m_pBackupManager sv) (sv_disk sv) (manager_of sv)
      in (map_outcome (\<lambda>ok. if ok then (CMD_SUCCEEDED, ''Restored OK.'') else (CMD_FAILED, ''Restore FAILED.'')) r,
          sv\<lparr>m_pMessageQueue := (m_pMessageQueue sv)\<lparr>consumer := mgr\<rparr>\<rparr>))"

definition message_time :: "nat \<Rightarrow> 'q server \<Rightarrow> 'q reply" where
  "message_time now sv =
     (Returns (CMD_SUCCEEDED, ''Current time is <b>'' @ utc_text now @ ''</b> UTC. It is <b>''
        @ to_string now @ ''</b> sec from epoch (01-01-1970).''), sv)"

definition onMessage ::
  "'q lockfree \<Rightarrow> nat \<Rightarrow> string \<Rightarrow> string \<Rightarrow> string \<Rightarrow> 'q server \<Rightarrow> 'q reply" where
  "onMessage lf now inTarget inData outData sv =
     (if inTarget = ''keySent'' then message_keySent lf inData sv
      else if inTarget = ''isHotKey'' then message_isHotKey inData sv
      else if inTarget = ''getTopHotKeys'' then message_getTopHotKeys sv
      else if inTarget = ''totalKeys'' then message_totalKeys sv
      else if inTarget = ''setTopHotKeys'' \<or> inTarget = ''setKeyReportBaseSize'' then
        message_setTopHotKeys lf inData sv
      else if inTarget = ''shutdown'' then message_signal ''Shutdown in progress.'' SIGQUIT sv
      else if inTarget = ''restart'' then message_signal ''Restart in progress.'' SIGHUP sv
      else if inTarget = ''restore'' then message_restore sv
      else if inTarget = ''time'' then message_time now sv
      else (Returns (CMD_UNKNOWN, outData), sv))"

lemmas onMessage_defs = onMessage_def message_keySent_def message_isHotKey_def message_getTopHotKeys_def
  message_totalKeys_def message_setTopHotKeys_def message_signal_def message_restore_def message_time_def

end
