(* ===== verification/MessageServerProps.thy ===== *)
theory MessageServerProps
  imports MessageServer
begin

section \<open>Properties of the message server\<close>

text \<open>
  What each request answers and changes, the contract of the functor the communication server calls,
  and the requests together with the worker behind the queue: which of the acknowledged keys the manager
  ends up counting.
\<close>

subsection \<open>The payload of keySent\<close>

lemma stoi_errors: "stoi s = Inl e \<Longrightarrow> e = Invalid_argument \<or> e = Out_of_range"
  by (auto simp: stoi_def split: option.splits if_splits)

definition port_of :: "string \<Rightarrow> uint" where
  "port_of s = (case stoi s of Inr port \<Rightarrow> word_of_int port | Inl _ \<Rightarrow> 0)"

lemma split_payload_plain:
  assumes "payloadDelimiter \<notin> set s" "length s < 2 ^ 64"
  shows "split_payload s = Inr (s, [], 0)"
  using assms by (simp add: split_payload_def find_char_npos substr_to_end)

lemma split_payload_comma:
  assumes k: "payloadDelimiter \<notin> set k" and len: "length (k @ payloadDelimiter # r) < 2 ^ 64 - 1"
  shows "split_payload (k @ payloadDelimiter # r) = Inr (k, r, port_of r)"
proof -
  let ?s = "k @ payloadDelimiter # r" and ?n = "word_of_nat (length k) :: size_type"
  have n: "?n \<noteq> npos" "find_char ?s payloadDelimiter = ?n"
    using len by (simp_all add: word_of_nat_neq_npos find_char_split [OF k])
  have key: "substr ?s 0 (?n - 0) = Inr k" using substr_prefix [of k "payloadDelimiter # r"] len by simp
  have wrap: "?n - (?n + 1) = npos" by (simp add: npos_def)
  have suc: "?n + 1 = word_of_nat (Suc (length k))" by simp
  have "Suc (length k) < 2 ^ LENGTH(64)" using len by simp
  then have un: "unat (?n + 1) = Suc (length k)" unfolding suc by (rule unat_of_nat_small)
  then have url: "substr ?s (?n + 1) npos = Inr r" using substr_to_end [of ?s "?n + 1"] len by simp
  then have port: "substr ?s (1 + ?n) npos = Inr r" by (simp add: add.commute)
  have eq: "split_payload ?s = (case stoi r of Inr p \<Rightarrow> Inr (k, r, word_of_int p)
      | Inl Invalid_argument \<Rightarrow> Inr (k, r, 0) | Inl Out_of_range \<Rightarrow> Inr (k, r, 0) | Inl e \<Rightarrow> Inl e)"
    unfolding split_payload_def Let_def n(2) wrap key url port sum.case if_not_P [OF n(1)] ..
  show ?thesis
  proof (cases "stoi r")
    case (Inl e)
    from stoi_errors [OF this] Inl show ?thesis by (elim disjE) (simp_all add: eq port_of_def)
  qed (simp add: eq port_of_def)
qed

text \<open>The key, url and port that any payload of realistic length gives.\<close>

definition key_of :: "string \<Rightarrow> string" where
  "key_of s = takeWhile (\<lambda>c. c \<noteq> payloadDelimiter) s"

lemma split_payload_total:
  assumes "length s < 2 ^ 64 - 1"
  obtains url port where "split_payload s = Inr (key_of s, url, port)"
proof (cases "payloadDelimiter \<in> set s")
  case False
  then have "key_of s = s" by (auto simp: key_of_def takeWhile_eq_all_conv)
  then show ?thesis using split_payload_plain [OF False] assms that by simp
next
  case True
  then obtain k r where s: "s = k @ payloadDelimiter # r" "payloadDelimiter \<notin> set k"
    by (auto dest: split_list_first)
  then have "key_of s = k" by (auto simp: key_of_def takeWhile_append takeWhile_eq_all_conv)
  then show ?thesis using split_payload_comma [OF s(2)] assms s(1) that by simp
qed

subsection \<open>The contract of the reporter\<close>

text \<open>
  What the communication server relies on: the code is one of three, and a target that is not found
  changes nothing.
\<close>

locale reporter =
  fixes handle :: "string \<Rightarrow> string \<Rightarrow> string \<Rightarrow> 's \<Rightarrow> (int \<times> string) outcome \<times> 's"
  assumes handle_code: "handle inTarget inData outData s = (Returns (code, reply), s') \<Longrightarrow>
      code = - 1 \<or> code = 0 \<or> code = 1"
    and handle_unknown: "handle inTarget inData outData s = (Returns (code, reply), s') \<Longrightarrow> code < 0 \<Longrightarrow>
      s' = s \<and> reply = outData"
begin

lemma accepted_iff:
  "handle inTarget inData outData s = (Returns (code, reply), s') \<Longrightarrow> 0 \<le> code \<longleftrightarrow> code = 0 \<or> code = 1"
  using handle_code by fastforce

lemma rejected_runs:
  assumes "\<forall>(t, d) \<in> set reqs. \<exists>c r s1. handle t d outData s = (Returns (c, r), s1) \<and> c < 0"
  shows "fold (\<lambda>(t, d) x. snd (handle t d outData x)) reqs s = s"
  using assms
proof (induction reqs)
  case (Cons req reqs)
  obtain t d where req: "req = (t, d)" by (cases req)
  then obtain c r s1 where "handle t d outData s = (Returns (c, r), s1)" "c < 0" using Cons.prems by auto
  then have "snd (handle t d outData s) = s" using handle_unknown by fastforce
  then show ?case using Cons req by simp
qed simp

end

lemma map_outcome_Returns [simp]: "map_outcome f r = Returns y \<longleftrightarrow> (\<exists>x. r = Returns x \<and> y = f x)"
  by (cases r) auto

interpretation server: reporter "onMessage lf now" for lf now
  by unfold_locales
    (auto simp: onMessage_defs CMD_SUCCEEDED_def CMD_FAILED_def CMD_UNKNOWN_def Let_def split_beta
      split: if_splits sum.splits exn.splits)

subsection \<open>Requests and the worker\<close>

text \<open>A run: each event is a request with its target and payload, or a step of the worker.\<close>

fun run_server :: "'q lockfree \<Rightarrow> nat \<Rightarrow> (string \<times> string) option list \<Rightarrow> 'q server
    \<Rightarrow> ((int \<times> string) list \<times> 'q server) outcome" where
  "run_server lf now [] sv = Returns ([], sv)"
| "run_server lf now (Some req # evs) sv =
     (let (r, sv1) = onMessage lf now (fst req) (snd req) [] sv
      in case r of
           Returns reply \<Rightarrow> map_outcome (\<lambda>(rs, sv2). (reply # rs, sv2)) (run_server lf now evs sv1)
         | Throws e \<Rightarrow> Throws e | Waits \<Rightarrow> Waits | Undefined \<Rightarrow> Undefined | Terminates \<Rightarrow> Terminates)"
| "run_server lf now (None # evs) sv =
     (case run_step lf (m_pMessageQueue sv) of
        Returns st \<Rightarrow> run_server lf now evs (sv\<lparr>m_pMessageQueue := st\<rparr>)
      | Throws e \<Rightarrow> Throws e | Waits \<Rightarrow> Waits | Undefined \<Rightarrow> Undefined | Terminates \<Rightarrow> Terminates)"

definition requests :: "(string \<times> string) option list \<Rightarrow> (string \<times> string) list" where
  "requests evs = List.map_filter (\<lambda>e. e) evs"

lemma requests_simps [simp]:
  "requests [] = []" "requests (Some req # evs) = req # requests evs" "requests (None # evs) = requests evs"
  by (simp_all add: requests_def map_filter_simps)

text \<open>The messages a request sends.\<close>

definition messages_of :: "string \<Rightarrow> string \<Rightarrow> message list" where
  "messages_of inTarget inData =
     (if inTarget = ''keySent'' then
        (case split_payload inData of
           Inl _ \<Rightarrow> [] | Inr (key, url, port) \<Rightarrow> [Message_strings cmd_addKey key url 0 (ucast port) 0])
      else if inTarget = ''setTopHotKeys'' \<or> inTarget = ''setKeyReportBaseSize'' then
        (case stoi inData of
           Inl _ \<Rightarrow> []
         | Inr num \<Rightarrow> if num \<le> 0 then [] else [Message_numbers cmd_setRankingLength 0 (word_of_int num) 0])
      else [])"

lemma messages_of_cases:
  obtains (none) "messages_of t d = []" | (one) m where "messages_of t d = [m]" "ordinary_message m"
proof -
  have ord: "ordinary_message (Message_strings cmd_addKey s1 s2 a b c)"
    "ordinary_message (Message_numbers cmd_setRankingLength a b c)" for s1 s2 a b c
    by (simp_all add: ordinary_message_def Message_strings_def Message_numbers_def)
  show ?thesis
  proof (cases "t = ''keySent''")
    case True
    then show ?thesis
      using none one ord
      by (cases "split_payload d"; cases "projr (split_payload d)") (simp_all add: messages_of_def)
  next
    case False
    show ?thesis
    proof (cases "(t = ''setTopHotKeys'' \<or> t = ''setKeyReportBaseSize'') \<and> (\<exists>num. stoi d = Inr num \<and> 0 < num)")
      case True
      then show ?thesis using False one ord by (auto simp: messages_of_def)
    next
      case no: False
      show ?thesis by (rule none) (cases "stoi d"; use no False in \<open>auto simp: messages_of_def\<close>)
    qed
  qed
qed

text \<open>
  The server at work: the queue is working, the manager satisfies its invariant, and there is room for
  what is pending and for \<open>n\<close> more messages in every count.
\<close>

definition serving :: "('q \<Rightarrow> pointer list) \<Rightarrow> nat \<Rightarrow> 'q queue_system \<Rightarrow> bool" where
  "serving contents n st \<longleftrightarrow> working contents st \<and> rank_inv (consumer st)
     \<and> (\<forall>k. frequency_of (consumer st) k + length (pending contents st) + n < 2 ^ 64)"

lemma serving_less: "serving contents n st \<Longrightarrow> m \<le> n \<Longrightarrow> serving contents m st"
  unfolding serving_def by (meson add_le_mono1 le_less_trans nat_add_left_cancel_le)

lemma serving_step:
  assumes lf: "fifo_queue lf contents" and s: "serving contents n st"
  obtains st1 where "run_step lf st = Returns st1" "serving contents n st1"
    "eventual_consumer contents st1 = eventual_consumer contents st"
proof -
  have w: "working contents st" and inv: "rank_inv (consumer st)"
    and room: "frequency_of (consumer st) k + length (pending contents st) + n < 2 ^ 64" for k
    using s by (simp_all add: serving_def)
  have ok: "queue_ok contents st" using w by (simp add: working_def)
  have step: "run_step lf st = Returns (work lf st)" by (rule run_step_work(1) [OF lf ok])
  have "rank_inv (consumer (work lf st))
      \<and> frequency_of (consumer (work lf st)) k + length (pending contents (work lf st)) + n < 2 ^ 64" for k
    using run_step_consumer [OF lf ok step]
  proof (elim disjE exE conjE)
    fix m assume m: "pending contents st = m # pending contents (work lf st)"
      "consumer (work lf st) = apply_message m (consumer st)"
    have "\<forall>k. frequency_of (consumer st) k < 2 ^ 64 - 1"
    proof
      fix k show "frequency_of (consumer st) k < 2 ^ 64 - 1" using room [of k] m(1) by simp
    qed
    then show ?thesis
      using apply_message_counts [OF inv, of m k] room [of k] m by (auto simp: adds_def)
  qed (use inv room [of k] in simp_all)
  then have "serving contents n (work lf st)" using work_cases [OF lf w] by (simp add: serving_def)
  then show ?thesis using that [OF step] work_cases [OF lf w] by blast
qed

lemma serving_send:
  assumes lf: "fifo_queue lf contents" and s: "serving contents (Suc n) st" and ms: "ms = [] \<or> ms = [m] \<and> ordinary_message m"
  shows "serving contents n (fold (queue_send lf) ms st)"
    and "eventual_consumer contents (fold (queue_send lf) ms st)
      = fold apply_message ms (eventual_consumer contents st)"
proof -
  have w: "working contents st" and ok: "queue_ok contents st" and run: "m_running st"
    using s by (simp_all add: serving_def working_def)
  have room: "frequency_of (consumer st) k + length (pending contents st) + Suc n < 2 ^ 64" for k
    using s by (simp add: serving_def)
  show "serving contents n (fold (queue_send lf) ms st)"
    using ms
  proof
    assume "ms = []"
    have "frequency_of (consumer st) k + length (pending contents st) + n < 2 ^ 64" for k
      using room [of k] by simp
    then show ?thesis using s \<open>ms = []\<close> by (simp add: serving_def)
  next
    assume m: "ms = [m] \<and> ordinary_message m"
    then show ?thesis
      using s room working_send [OF lf w] queue_send_ok [OF lf ok, of m] run by (simp add: serving_def)
  qed
  show "eventual_consumer contents (fold (queue_send lf) ms st)
      = fold apply_message ms (eventual_consumer contents st)"
    using ms eventual_send_running [OF lf ok run] by auto
qed

text \<open>The readers answer while the server is at work.\<close>

lemma readers_answer:
  assumes "rank_inv (manager_of sv)"
  obtains hot v where "server_isHotKey key sv = Returns hot" "server_getTopHotkeys [] sv = Returns v"
  using isHotKey_iff [OF assms, of key] getTopHotkeys_eq [OF assms, of "[]"]
  by (cases "m_pMapManager sv") (auto simp: server_isHotKey_def server_getTopHotkeys_def)

lemma onMessage_answers:
  assumes inv: "rank_inv (manager_of sv)" and t: "t \<noteq> ''restore''" and d: "length d < 2 ^ 64 - 1"
  obtains r sv1 where "onMessage lf now t d [] sv = (Returns r, sv1)"
    and "m_pMessageQueue sv1 = fold (queue_send lf) (messages_of t d) (m_pMessageQueue sv)"
    and "t = ''keySent'' \<longrightarrow> r = (CMD_SUCCEEDED, ''reported key sent : '' @ key_of d)"
proof -
  obtain url port where split: "split_payload d = Inr (key_of d, url, port)" by (rule split_payload_total [OF d])
  obtain hot v where reads: "server_isHotKey d sv = Returns hot" "server_getTopHotkeys [] sv = Returns v"
    by (rule readers_answer [OF inv])
  show ?thesis
  proof (cases "t = ''keySent''")
    case True
    then have "onMessage lf now t d [] sv = (Returns (CMD_SUCCEEDED, ''reported key sent : '' @ key_of d),
        sv\<lparr>m_pMessageQueue := queue_send lf (Message_strings cmd_addKey (key_of d) url 0 (ucast port) 0) (m_pMessageQueue sv)\<rparr>)"
      using split by (simp add: onMessage_defs)
    then show ?thesis by (rule that) (simp_all add: True messages_of_def split)
  next
    case False
    note not_key = this
    show ?thesis
    proof (cases "t = ''setTopHotKeys'' \<or> t = ''setKeyReportBaseSize''")
      case True
      then show ?thesis
      proof (cases "stoi d")
        case (Inl e)
        have "\<exists>r. onMessage lf now t d [] sv = (Returns r, sv)"
          using stoi_errors [OF Inl] True not_key Inl by (elim disjE) (simp_all add: onMessage_defs)
        then show ?thesis using True not_key Inl that [of _ sv] by (auto simp: messages_of_def)
      next
        case (Inr num)
        let ?sv = "sv\<lparr>m_pMessageQueue := fold (queue_send lf) (messages_of t d) (m_pMessageQueue sv)\<rparr>"
        have "\<exists>r. onMessage lf now t d [] sv = (Returns r, ?sv)"
          using True not_key Inr by (cases "num \<le> 0") (auto simp: onMessage_defs messages_of_def)
        then show ?thesis using not_key that [of _ ?sv] by auto
      qed
    next
      case False
      then have "messages_of t d = []" using not_key by (simp add: messages_of_def)
      moreover have "\<exists>r sv1. onMessage lf now t d [] sv = (Returns r, sv1) \<and> m_pMessageQueue sv1 = m_pMessageQueue sv"
        using False not_key t reads by (simp add: onMessage_defs)
      ultimately show ?thesis using that not_key by force
    qed
  qed
qed

text \<open>The messages of all the requests of a run.\<close>

definition messages_sent :: "(string \<times> string) list \<Rightarrow> message list" where
  "messages_sent reqs = concat (map (\<lambda>(t, d). messages_of t d) reqs)"

lemma messages_sent_Cons [simp]:
  "messages_sent ((t, d) # reqs) = messages_of t d @ messages_sent reqs" "messages_sent [] = []"
  by (simp_all add: messages_sent_def)

lemma run_server_serving:
  assumes lf: "fifo_queue lf contents" and s: "serving contents (length (requests evs)) (m_pMessageQueue sv)"
    and evs: "\<forall>(t, d) \<in> set (requests evs). t \<noteq> ''restore'' \<and> length d < 2 ^ 64 - 1"
  shows "\<exists>rs sv1. run_server lf now evs sv = Returns (rs, sv1)
    \<and> list_all2 (\<lambda>(t, d) r. t = ''keySent'' \<longrightarrow> r = (CMD_SUCCEEDED, ''reported key sent : '' @ key_of d)) (requests evs) rs
    \<and> working contents (m_pMessageQueue sv1)
    \<and> eventual_consumer contents (m_pMessageQueue sv1)
      = fold apply_message (messages_sent (requests evs)) (eventual_consumer contents (m_pMessageQueue sv))"
  using s evs
proof (induction evs arbitrary: sv)
  case Nil
  then show ?case by (simp add: serving_def)
next
  case (Cons e evs)
  show ?case
  proof (cases e)
    case None
    obtain st1 where st1: "run_step lf (m_pMessageQueue sv) = Returns st1"
      "serving contents (length (requests (e # evs))) st1"
      "eventual_consumer contents st1 = eventual_consumer contents (m_pMessageQueue sv)"
      by (rule serving_step [OF lf Cons.prems(1)])
    then show ?thesis using Cons.IH [of "sv\<lparr>m_pMessageQueue := st1\<rparr>"] Cons.prems(2) None by simp
  next
    case (Some req)
    obtain t d where req: "req = (t, d)" by (cases req)
    have td: "t \<noteq> ''restore''" "length d < 2 ^ 64 - 1" using Cons.prems(2) Some req by auto
    have inv: "rank_inv (manager_of sv)" using Cons.prems(1) by (simp add: serving_def)
    obtain r sv1 where answer: "onMessage lf now t d [] sv = (Returns r, sv1)"
      "m_pMessageQueue sv1 = fold (queue_send lf) (messages_of t d) (m_pMessageQueue sv)"
      "t = ''keySent'' \<longrightarrow> r = (CMD_SUCCEEDED, ''reported key sent : '' @ key_of d)"
      by (rule onMessage_answers [OF inv td])
    have sent: "serving contents (length (requests evs)) (m_pMessageQueue sv1)
        \<and> eventual_consumer contents (m_pMessageQueue sv1)
          = fold apply_message (messages_of t d) (eventual_consumer contents (m_pMessageQueue sv))"
      using serving_send [OF lf, of "length (requests evs)" "m_pMessageQueue sv" "messages_of t d"]
        Cons.prems(1) Some answer(2) by (cases rule: messages_of_cases [of t d]) auto
    then obtain rs sv2 where "run_server lf now evs sv1 = Returns (rs, sv2)"
      "list_all2 (\<lambda>(t, d) r. t = ''keySent'' \<longrightarrow> r = (CMD_SUCCEEDED, ''reported key sent : '' @ key_of d)) (requests evs) rs"
      "working contents (m_pMessageQueue sv2)"
      "eventual_consumer contents (m_pMessageQueue sv2)
        = fold apply_message (messages_sent (requests evs)) (eventual_consumer contents (m_pMessageQueue sv1))"
      using Cons.IH [of sv1] Cons.prems(2) Some by auto
    then show ?thesis
      using answer sent Some req by (intro exI [of _ "r # rs"] exI [of _ sv2]) simp
  qed
qed

text \<open>The keys of the requests that report one, and how often the manager is told each of them.\<close>

definition keys_sent :: "(string \<times> string) list \<Rightarrow> string list" where
  "keys_sent reqs = map (\<lambda>(t, d). key_of d) (filter (\<lambda>(t, d). t = ''keySent'') reqs)"

lemma adds_append: "adds k (xs @ ys) = adds k xs + adds k ys"
  by (simp add: adds_def)

lemma adds_messages_sent:
  assumes "\<forall>(t, d) \<in> set reqs. length d < 2 ^ 64 - 1"
  shows "adds k (messages_sent reqs) = count_list (keys_sent reqs) k"
  using assms
proof (induction reqs)
  case (Cons req reqs)
  obtain t d where req: "req = (t, d)" by (cases req)
  obtain url port where "split_payload d = Inr (key_of d, url, port)"
    using split_payload_total [of d] Cons.prems req by auto
  then have "adds k (messages_of t d) = (if t = ''keySent'' \<and> key_of d = k then 1 else 0)"
  proof (cases "t = ''keySent''")
    case False
    have "messages_of t d = [] \<or> (\<exists>b. messages_of t d = [Message_numbers cmd_setRankingLength 0 b 0])"
      using False by (cases "stoi d") (auto simp: messages_of_def)
    then show ?thesis using False by (auto simp: adds_def)
  qed (simp add: messages_of_def adds_def)
  then show ?case using Cons req by (simp add: adds_append keys_sent_def)
qed (simp add: adds_def keys_sent_def)

lemma messages_sent_length: "length (messages_sent reqs) \<le> length reqs"
proof (induction reqs)
  case (Cons req reqs)
  obtain t d where "req = (t, d)" by (cases req)
  with Cons show ?case by (cases rule: messages_of_cases [of t d]) auto
qed simp

lemma serving_started:
  assumes "contents q = []" "n < 2 ^ 64"
  shows "serving contents n (started q (MapManager_new a b l))"
  using working_started [of contents q "MapManager_new a b l"] assms rank_inv_new
  by (simp add: serving_def pending_def pending_pointers_def held_def started_eq)

subsection \<open>Properties\<close>

text \<open>
  Every acknowledged key is counted. For a tracker as \<open>main\<close> starts it and any interleaving of
  requests other than \<open>restore\<close> with steps of the worker: every request is answered, every \<open>keySent\<close>
  with the text that acknowledges its key, and once the worker has had three steps for each pending
  message (and one) the manager's count of each key is the number of \<open>keySent\<close> requests that named it,
  with no message left on the heap.
\<close>

theorem acknowledged_keys_are_counted:
  fixes n m l :: uint
  assumes lf: "fifo_queue lf contents" and q: "contents q = []"
    and sv: "m_pMessageQueue sv = started q (MapManager_new n m l)"
    and evs: "\<forall>(t, d) \<in> set (requests evs). t \<noteq> ''restore'' \<and> length d < 2 ^ 64 - 1"
    and few: "length (requests evs) < 2 ^ 64 - 1"
  shows "\<exists>rs sv1. run_server lf now evs sv = Returns (rs, sv1)
    \<and> list_all2 (\<lambda>(t, d) r. t = ''keySent'' \<longrightarrow> r = (CMD_SUCCEEDED, ''reported key sent : '' @ key_of d)) (requests evs) rs
    \<and> (\<forall>steps \<ge> 3 * length (pending contents (m_pMessageQueue sv1)) + 1.
         \<exists>st. run_queue lf (worker_steps steps) (m_pMessageQueue sv1) = Returns st
           \<and> (\<forall>k. frequency_of (consumer st) k = count_list (keys_sent (requests evs)) k)
           \<and> heap st = (\<lambda>_. None))"
proof -
  let ?ms = "messages_sent (requests evs)" and ?mm = "MapManager_new n m l"
  have "serving contents (length (requests evs)) (m_pMessageQueue sv)"
    unfolding sv using q few by (intro serving_started) simp_all
  then obtain rs sv1 where run: "run_server lf now evs sv = Returns (rs, sv1)"
    "list_all2 (\<lambda>(t, d) r. t = ''keySent'' \<longrightarrow> r = (CMD_SUCCEEDED, ''reported key sent : '' @ key_of d)) (requests evs) rs"
    and w: "working contents (m_pMessageQueue sv1)"
    and ev: "eventual_consumer contents (m_pMessageQueue sv1) = fold apply_message ?ms ?mm"
    using run_server_serving [OF lf _ evs, of sv now] eventual_started [of contents q ?mm] q sv by auto
  have "length ?ms < 2 ^ 64" using messages_sent_length [of "requests evs"] few by simp
  then have counts: "frequency_of (fold apply_message ?ms ?mm) k = count_list (keys_sent (requests evs)) k" for k
    using fold_apply_message_counts [OF rank_inv_new, of n m l ?ms k] adds_messages_sent [of "requests evs" k]
      evs by auto
  have "\<exists>st. run_queue lf (worker_steps steps) (m_pMessageQueue sv1) = Returns st
      \<and> (\<forall>k. frequency_of (consumer st) k = count_list (keys_sent (requests evs)) k) \<and> heap st = (\<lambda>_. None)"
    if "3 * length (pending contents (m_pMessageQueue sv1)) + 1 \<le> steps" for steps
    using run_queue_drains [OF lf w that] counts unfolding ev by auto
  then show ?thesis using run by blast
qed

definition tracker_server :: "pointer list server" where
  "tracker_server =
     \<lparr>m_pMapManager = True, m_pMessageQueue = started [] (MapManager_new 10 20 0),
      m_pBackupManager = tracker_backup,
      sv_disk = \<lparr>dk_files = (\<lambda>_. None), dk_readable = (\<lambda>_. True), dk_writable = (\<lambda>_. True),
        dk_read_limit = (\<lambda>_. None), dk_write_limit = (\<lambda>_. None), dk_buffer = 8191\<rparr>,
      sv_signals = []\<rparr>"

lemma acknowledged_keys_are_counted_witness:
  "\<exists>rs sv1. run_server list_lockfree 0 [Some (''keySent'', ''a''), None, Some (''isHotKey'', ''a''),
      Some (''keySent'', ''a,host,80'')] tracker_server = Returns (rs, sv1)
    \<and> (\<forall>steps \<ge> 3 * length (pending (\<lambda>q. q) (m_pMessageQueue sv1)) + 1.
         \<exists>st. run_queue list_lockfree (worker_steps steps) (m_pMessageQueue sv1) = Returns st
           \<and> frequency_of (consumer st) ''a'' = 2)"
proof -
  have "m_pMessageQueue tracker_server = started [] (MapManager_new 10 20 0)" by (simp add: tracker_server_def)
  moreover have "count_list (keys_sent [(''keySent'', ''a''), (''isHotKey'', ''a''), (''keySent'', ''a,host,80'')]) ''a'' = 2"
    by code_simp
  ultimately show ?thesis
    using acknowledged_keys_are_counted [OF fifo_list, of "[]" tracker_server 10 20 0
        "[Some (''keySent'', ''a''), None, Some (''isHotKey'', ''a''), Some (''keySent'', ''a,host,80'')]" 0]
    by fastforce
qed

text \<open>
  The port of a \<open>keySent\<close> payload is never stored. For a payload of a key, a comma and a rest the whole
  rest, further commas included, is taken as the url; the number it begins with, or 0, is cut to 16 bits and put in
  the short of the message; and when the worker handles the message, it stores the number of the message, which is 0,
  as the port of the key. The reply says that the key was reported.
\<close>

theorem key_sent_loses_port:
  assumes "payloadDelimiter \<notin> set key" "length (key @ payloadDelimiter # r) < 2 ^ 64 - 1"
  shows "\<exists>m. onMessage lf now ''keySent'' (key @ payloadDelimiter # r) out sv =
      (Returns (CMD_SUCCEEDED, ''reported key sent : '' @ key),
       sv\<lparr>m_pMessageQueue := queue_send lf m (m_pMessageQueue sv)\<rparr>)
    \<and> getCommand m = cmd_addKey \<and> getShort m = ucast (port_of r)
    \<and> (\<forall>mgr. rank_inv mgr \<longrightarrow> (\<exists>d. map_of (m_pKeyMap (apply_message m mgr)) key = Some d
         \<and> kd_url d = r \<and> kd_port d = 0))"
proof -
  let ?m = "Message_strings cmd_addKey key r 0 (ucast (port_of r)) 0"
  have "onMessage lf now ''keySent'' (key @ payloadDelimiter # r) out sv =
      (Returns (CMD_SUCCEEDED, ''reported key sent : '' @ key),
       sv\<lparr>m_pMessageQueue := queue_send lf ?m (m_pMessageQueue sv)\<rparr>)"
    using split_payload_comma [OF assms] by (simp add: onMessage_defs)
  moreover have "\<exists>d. map_of (m_pKeyMap (apply_message ?m mgr)) key = Some d \<and> kd_url d = r \<and> kd_port d = 0"
    if "rank_inv mgr" for mgr
    using map_of_insert_or_assign [OF rank_invD(1) [OF that], of key]
    by (simp add: apply_message_def addOrUpdateKey_eq [OF rank_invD(1,4) [OF that]])
  ultimately show ?thesis by (intro exI [of _ ?m]) simp
qed

lemma key_sent_loses_port_witness:
  "\<exists>m d. onMessage list_lockfree 0 ''keySent'' ''k,8080'' [] tracker_server =
      (Returns (CMD_SUCCEEDED, ''reported key sent : k''),
       tracker_server\<lparr>m_pMessageQueue := queue_send list_lockfree m (m_pMessageQueue tracker_server)\<rparr>)
    \<and> getShort m = 8080 \<and> map_of (m_pKeyMap (apply_message m (manager_of tracker_server))) ''k'' = Some d
    \<and> kd_url d = ''8080'' \<and> kd_port d = 0"
proof -
  have "port_of ''8080'' = 8080" by code_simp
  moreover have "rank_inv (manager_of tracker_server)" by (simp add: tracker_server_def started_eq rank_inv_new)
  ultimately show ?thesis
    using key_sent_loses_port [of "''k''" "''8080''" list_lockfree 0 "[]" tracker_server]
    by (fastforce simp: payloadDelimiter_def)
qed

text \<open>
  The number of a \<open>setTopHotKeys\<close> request is cut to 16 bits: for any number from 1 to \<open>2 ^ 31 - 1\<close> the
  reply announces the number as given, while the message carries its low 16 bits; a multiple of 65536
  sets the report size to 0, and the report is then empty.
\<close>

theorem set_top_keys_truncates:
  assumes "0 < num" "num < 2 ^ 31"
  defines "d \<equiv> to_string num"
  shows "onMessage lf now ''setTopHotKeys'' d out sv =
      (Returns (CMD_SUCCEEDED, ''Top key report size is now '' @ d),
       sv\<lparr>m_pMessageQueue := queue_send lf (Message_numbers cmd_setRankingLength 0 (word_of_nat num) 0)
         (m_pMessageQueue sv)\<rparr>)
    \<and> unat (m_nshort (Message_numbers cmd_setRankingLength 0 (word_of_nat num) 0)) = num mod 65536
    \<and> (num mod 65536 = 0 \<longrightarrow> m_writingData mgr = 0 \<longrightarrow>
         getTopHotkeys (apply_message (Message_numbers cmd_setRankingLength 0 (word_of_nat num) 0) mgr) [] = Returns [])"
proof -
  have stoi: "stoi d = Inr (int num)" unfolding d_def by (rule stoi_to_string [OF assms(2)])
  have n: "unat (word_of_nat num :: ushort) = num mod 65536" by (simp add: unat_of_nat take_bit_eq_mod)
  have "getTopHotkeys (apply_message (Message_numbers cmd_setRankingLength 0 (word_of_nat num) 0) mgr) [] = Returns []"
    if "num mod 65536 = 0"
  proof -
    have "(word_of_nat num :: ushort) = 0" using n that by (simp add: unat_eq_0)
    then have "m_baseReportElementNumber (apply_message (Message_numbers cmd_setRankingLength 0 (word_of_nat num) 0) mgr) = 0"
      "m_writingData (apply_message (Message_numbers cmd_setRankingLength 0 (word_of_nat num) 0) mgr) = 0"
      by (simp_all add: apply_message_def setTopKeyReportBaseSize_def Let_def)
    moreover have "report_loop fm 0 pos 0 [] = []" for fm pos by (cases pos) simp_all
    ultimately show ?thesis by (simp add: getTopHotkeys_def)
  qed
  then show ?thesis using stoi n assms(1) by (simp add: onMessage_defs)
qed

lemma set_top_keys_truncates_witness:
  "fst (onMessage list_lockfree 0 ''setTopHotKeys'' (to_string 65536) [] tracker_server) =
     Returns (CMD_SUCCEEDED, ''Top key report size is now '' @ to_string 65536)
   \<and> getTopHotkeys (apply_message (Message_numbers cmd_setRankingLength 0 (word_of_nat 65536) 0) MapManager_default) []
     = Returns []"
  using set_top_keys_truncates [of 65536 list_lockfree 0 "[]" tracker_server MapManager_default]
  by (simp add: MapManager_default_def)

text \<open>
  What \<open>setTopHotKeys\<close> refuses: text without a number, a number that does not fit in 32 bits, and a
  number that is not positive give \<open>CMD_FAILED\<close>, and no message is sent; every other text sends one.
\<close>

theorem set_top_keys_accepts:
  shows "\<exists>code reply sv1. onMessage lf now ''setTopHotKeys'' d out sv = (Returns (code, reply), sv1)
    \<and> (code = CMD_SUCCEEDED) = (\<exists>num. stoi d = Inr num \<and> 0 < num)
    \<and> (code \<noteq> CMD_SUCCEEDED \<longrightarrow> code = CMD_FAILED \<and> sv1 = sv)
    \<and> (code = CMD_SUCCEEDED \<longrightarrow> (\<exists>b. sv1 = sv\<lparr>m_pMessageQueue :=
         queue_send lf (Message_numbers cmd_setRankingLength 0 b 0) (m_pMessageQueue sv)\<rparr>))"
proof (cases "stoi d")
  case (Inl e)
  from stoi_errors [OF this] Inl show ?thesis
    by (elim disjE) (simp_all add: onMessage_defs CMD_FAILED_def CMD_SUCCEEDED_def)
next
  case (Inr num)
  then show ?thesis
    by (cases "num \<le> 0") (auto simp: onMessage_defs CMD_FAILED_def CMD_SUCCEEDED_def)
qed

lemma set_top_keys_accepts_witness:
  "\<exists>code reply sv1. onMessage list_lockfree 0 ''setTopHotKeys'' ''0'' [] tracker_server = (Returns (code, reply), sv1)
    \<and> code = CMD_FAILED \<and> sv1 = tracker_server"
proof -
  have "stoi ''0'' = Inr 0" by code_simp
  then show ?thesis
    using set_top_keys_accepts [of list_lockfree 0 "''0''" "[]" tracker_server] by auto
qed

text \<open>
  Which requests change the state: the two that report keys and resize, \<open>shutdown\<close>, \<open>restart\<close> and
  \<open>restore\<close>. The four readers leave the server as it is, and any other target does too, with
  \<open>CMD_UNKNOWN\<close> and the reply text untouched.
\<close>

theorem readers_change_nothing:
  assumes "t \<notin> {''keySent'', ''setTopHotKeys'', ''setKeyReportBaseSize'', ''shutdown'', ''restart'', ''restore''}"
  shows "snd (onMessage lf now t d out sv) = sv
    \<and> (t \<notin> {''isHotKey'', ''getTopHotKeys'', ''totalKeys'', ''time''} \<longrightarrow>
         fst (onMessage lf now t d out sv) = Returns (CMD_UNKNOWN, out))
    \<and> (t \<in> {''isHotKey'', ''getTopHotKeys'', ''totalKeys'', ''time''} \<longrightarrow> rank_inv (manager_of sv) \<longrightarrow>
         (\<exists>reply. fst (onMessage lf now t d out sv) = Returns (CMD_SUCCEEDED, reply)))"
proof -
  have "\<exists>reply. fst (onMessage lf now t d out sv) = Returns (CMD_SUCCEEDED, reply)"
    if "t \<in> {''isHotKey'', ''getTopHotKeys'', ''totalKeys'', ''time''}" "rank_inv (manager_of sv)"
  proof -
    note inv = that(2)
    obtain hot v where "server_isHotKey d sv = Returns hot" "server_getTopHotkeys [] sv = Returns v"
      by (rule readers_answer [OF inv])
    then show ?thesis using that(1) by (auto simp: onMessage_defs)
  qed
  then show ?thesis using assms by (simp add: onMessage_defs)
qed

lemma readers_change_nothing_witness:
  "snd (onMessage list_lockfree 0 ''purge'' ''5'' ''x'' tracker_server) = tracker_server
   \<and> fst (onMessage list_lockfree 0 ''purge'' ''5'' ''x'' tracker_server) = Returns (CMD_UNKNOWN, ''x'')"
  using readers_change_nothing [of "''purge''" list_lockfree 0 "''5''" "''x''" tracker_server] by simp

text \<open>The text of one entry of the report, and the entries joined with commas.\<close>

definition report_entry :: "key_frequency \<Rightarrow> string" where
  "report_entry e = ''{'' @ quote @ ''Key'' @ quote @ '': '' @ quote @ kf_key e @ quote @ '','' @ quote
     @ ''Frequency'' @ quote @ '': '' @ kf_frequency e @ ''}''"

fun joined :: "string list \<Rightarrow> string" where
  "joined [] = []"
| "joined [x] = x"
| "joined (x # y # xs) = x @ '','' @ joined (y # xs)"

lemma json_loop_step:
  "i < mx \<Longrightarrow> json_loop v mx i = report_entry (v ! i) @ (if i < mx - 1 then '','' else []) @ json_loop v mx (Suc i)"
  by (simp add: json_loop.simps [of v mx i] report_entry_def)

lemma json_loop_joined:
  assumes "mx \<le> length v" "i \<le> mx"
  shows "json_loop v mx i = joined (map report_entry (drop i (take mx v)))"
  using assms
proof (induction v mx i rule: json_loop.induct)
  case (1 v mx i)
  show ?case
  proof (cases "i < mx")
    case True
    have split: "drop i (take mx v) = v ! i # drop (Suc i) (take mx v)"
      using True "1.prems" by (simp add: Cons_nth_drop_Suc [symmetric])
    have rest: "drop (Suc i) (take mx v) = [] \<longleftrightarrow> \<not> i < mx - 1" using True "1.prems" by auto
    have "json_loop v mx (Suc i) = joined (map report_entry (drop (Suc i) (take mx v)))"
      using 1 True by simp
    then show ?thesis
      unfolding json_loop_step [OF True] split using True rest
      by (cases "drop (Suc i) (take mx v)") simp_all
  qed (use "1.prems" in \<open>simp add: json_loop.simps [of v mx]\<close>)
qed

text \<open>
  The reply to \<open>getTopHotKeys\<close> is the report of the manager cut to its first ten entries, whatever the
  report size, between \<open>{[\<close> and \<open>]}\<close> and joined with commas.
\<close>

theorem top_request_lists_ten:
  assumes "rank_inv (manager_of sv)" "m_pMapManager sv"
  shows "\<exists>v. getTopHotkeys (manager_of sv) [] = Returns v
    \<and> onMessage lf now ''getTopHotKeys'' d out sv =
        (Returns (CMD_SUCCEEDED, ''{['' @ joined (map report_entry (take 10 v)) @ '']}''), sv)"
proof -
  obtain v where v: "getTopHotkeys (manager_of sv) [] = Returns v" using getTopHotkeys_eq [OF assms(1)] by blast
  have "report_text v = ''{['' @ joined (map report_entry (take 10 v)) @ '']}''"
    using json_loop_joined [of "min 10 (length v)" v 0] by (simp add: report_text_def Let_def min_def)
  then show ?thesis using v assms(2) by (simp add: onMessage_defs server_getTopHotkeys_def)
qed

lemma top_request_lists_ten_witness:
  "\<exists>v. getTopHotkeys (manager_of tracker_server) [] = Returns v
    \<and> onMessage list_lockfree 0 ''getTopHotKeys'' [] [] tracker_server =
        (Returns (CMD_SUCCEEDED, ''{['' @ joined (map report_entry (take 10 v)) @ '']}''), tracker_server)"
  by (rule top_request_lists_ten) (simp_all add: tracker_server_def started_eq rank_inv_new)

end
