(* ===== verification/WebServer.thy ===== *)
theory WebServer
  imports HttpConnection MessageServerProps
begin

section \<open>WebServer and Listener (include/web/webserver.h, listener.h, src/web/webserver.cpp, listener.cpp)\<close>

text \<open>
  The web server hands the reporter of the message server to its listener, as the functor for POST, and
  its own \<open>onGetMessage\<close> for GET. The listener accepts connections on one acceptor and runs each on the
  thread of the pool that took it. \<open>boost::asio\<close> is a parameter: its events (a client connects, accepting
  fails, a connection ends) are the labels of a step relation. An empty \<open>std::function\<close> is None; calling
  it throws.
\<close>

subsection \<open>Listener\<close>

text \<open>A thread runs the I/O context without a handler, or serves a connection, or was joined by \<open>stop\<close>.\<close>

datatype pool_thread = Idle | Serving | Joined

record 's listener =
  l_threadQty :: ushort
  l_accepting :: bool                 \<comment> \<open>an \<open>async_accept\<close> is pending\<close>
  l_threads :: "pool_thread list"     \<comment> \<open>\<open>m_threads\<close>, then the caller of \<open>run\<close>\<close>
  l_stopped :: bool                   \<comment> \<open>the I/O context is stopped\<close>
  l_getFunctor :: "'s get_functor option"
  l_postFunctor :: "'s post_functor option"

definition max_threads :: ushort where
  "max_threads = 208"

definition Listener_new :: "ushort \<Rightarrow> 's listener" where
  "Listener_new threadQty =
     \<lparr>l_threadQty = threadQty, l_accepting = False, l_threads = [], l_stopped = False,
      l_getFunctor = None, l_postFunctor = None\<rparr>"

definition setReporters :: "'s get_functor option \<Rightarrow> 's post_functor option \<Rightarrow> 's listener \<Rightarrow> 's listener" where
  "setReporters gf pf l = l\<lparr>l_getFunctor := gf, l_postFunctor := pf\<rparr>"

definition listener_accept :: "'s listener \<Rightarrow> 's listener" where
  "listener_accept l = l\<lparr>l_accepting := True\<rparr>"

text \<open>The loop of \<open>run\<close> that creates the pool, for \<open>i\<close> from \<open>threadQty - 1\<close> down to 1.\<close>

fun spawn_loop :: "nat \<Rightarrow> pool_thread list \<Rightarrow> pool_thread list" where
  "spawn_loop 0 ts = ts"
| "spawn_loop (Suc i) ts = spawn_loop i (ts @ [Idle])"

definition listener_run :: "'s listener \<Rightarrow> 's listener" where
  "listener_run l =
     l\<lparr>l_threads := (if 1 < l_threadQty l then spawn_loop (unat (l_threadQty l - 1)) [] else []) @ [Idle]\<rparr>"

text \<open>
  \<open>waitThreadsToFinish\<close> on thread \<open>caller\<close> joins every thread of \<open>m_threads\<close> but the caller, in order. A
  thread that serves a connection does not end before its client; one without a handler ends once the
  I/O context is stopped; joining a thread that was joined before throws. A call that waits is left at the
  thread it waits for.
\<close>

fun join_loop :: "nat \<Rightarrow> bool \<Rightarrow> nat \<Rightarrow> pool_thread list \<Rightarrow> unit outcome \<times> pool_thread list" where
  "join_loop caller stopped i [] = (Returns (), [])"
| "join_loop caller stopped i (t # ts) =
     (if i = caller then (let (r, ts1) = join_loop caller stopped (Suc i) ts in (r, t # ts1))
      else case t of
             Joined \<Rightarrow> (Throws System_error, t # ts)
           | Serving \<Rightarrow> (Waits, t # ts)
           | Idle \<Rightarrow>
               if stopped then (let (r, ts1) = join_loop caller stopped (Suc i) ts in (r, Joined # ts1))
               else (Waits, t # ts))"

definition waitThreadsToFinish :: "nat \<Rightarrow> 's listener \<Rightarrow> unit outcome \<times> 's listener" where
  "waitThreadsToFinish caller l =
     (if 1 < l_threadQty l then
        (let n = length (l_threads l) - 1;
             (r, ts) = join_loop caller (l_stopped l) 0 (take n (l_threads l))
         in (r, l\<lparr>l_threads := ts @ drop n (l_threads l)\<rparr>))
      else (Returns (), l))"

definition listener_stop :: "nat \<Rightarrow> 's listener \<Rightarrow> unit outcome \<times> 's listener" where
  "listener_stop caller l = waitThreadsToFinish caller (l\<lparr>l_stopped := True\<rparr>)"

text \<open>
  The destructor waits for the threads again, then \<open>m_threads\<close> is destroyed. An exception that leaves a
  destructor ends the process, and so does a \<open>std::thread\<close> that is destroyed without having been joined.
\<close>

definition listener_destroy :: "nat \<Rightarrow> 's listener \<Rightarrow> unit outcome \<times> 's listener" where
  "listener_destroy caller l =
     (let (r, l1) = waitThreadsToFinish caller l
      in case r of
           Throws e \<Rightarrow> (Terminates, l1)
         | Returns u \<Rightarrow>
             (if \<forall>t \<in> set (butlast (l_threads l1)). t = Joined then Returns () else Terminates, l1)
         | _ \<Rightarrow> (r, l1))"

text \<open>
  The pointers that keep a listener alive: that of the web server, and the copy in every handler of
  \<open>async_accept\<close>, which is pending or runs on a serving thread.
\<close>

definition serving_threads :: "'s listener \<Rightarrow> nat" where
  "serving_threads l = length (filter (\<lambda>t. t = Serving) (l_threads l))"

definition listener_owners :: "'s listener \<Rightarrow> nat" where
  "listener_owners l = 1 + (if l_accepting l then 1 else 0) + serving_threads l"

text \<open>
  The steps of the handler of \<open>async_accept\<close>: a thread takes a connection and is busy with it until it is
  over; only then it accepts again, unless the connection was shutting down.
\<close>

datatype listener_event =
    Connected nat
  | Accept_failed nat
  | Closed nat bool
  | Stop_called nat

inductive listener_step :: "'s listener \<Rightarrow> listener_event \<Rightarrow> 's listener \<Rightarrow> bool" where
  step_connected:
    "\<not> l_stopped l \<Longrightarrow> l_accepting l \<Longrightarrow> i < length (l_threads l) \<Longrightarrow> l_threads l ! i = Idle \<Longrightarrow>
     listener_step l (Connected i) (l\<lparr>l_accepting := False, l_threads := (l_threads l)[i := Serving]\<rparr>)"
| step_failed:
    "\<not> l_stopped l \<Longrightarrow> l_accepting l \<Longrightarrow> i < length (l_threads l) \<Longrightarrow> l_threads l ! i = Idle \<Longrightarrow>
     listener_step l (Accept_failed i) (listener_accept l)"
| step_closed:
    "i < length (l_threads l) \<Longrightarrow> l_threads l ! i = Serving \<Longrightarrow>
     listener_step l (Closed i False) (listener_accept (l\<lparr>l_threads := (l_threads l)[i := Idle]\<rparr>))"
| step_shutting_down:
    "i < length (l_threads l) \<Longrightarrow> l_threads l ! i = Serving \<Longrightarrow>
     listener_step l (Closed i True) (l\<lparr>l_threads := (l_threads l)[i := Idle], l_stopped := True\<rparr>)"
| step_stop:
    "listener_step l (Stop_called caller) (snd (listener_stop caller l))"

inductive_cases listener_stepE: "listener_step l e l'"

text \<open>The listener after a sequence of events.\<close>

inductive listener_reach :: "'s listener \<Rightarrow> listener_event list \<Rightarrow> 's listener \<Rightarrow> bool" where
  reach_refl: "listener_reach l [] l"
| reach_step: "listener_reach l es l1 \<Longrightarrow> listener_step l1 e l2 \<Longrightarrow> listener_reach l (es @ [e]) l2"

subsection \<open>WebServer\<close>

record 's webserver =
  w_nPort :: ushort
  w_nThreads :: ushort
  w_topMessageFunctor :: "'s post_functor option"
  w_qListener :: "'s listener"

definition onGetMessage :: "'s webserver \<Rightarrow> 's get_functor" where
  "onGetMessage w inTarget outPayload s =
     (case w_topMessageFunctor w of
        None \<Rightarrow> (Throws Bad_function_call, s)
      | Some f \<Rightarrow> f inTarget [] outPayload s)"

text \<open>The local functor is \<open>onGetMessage\<close> of the one instance, so it is rebuilt with the instance.\<close>

definition WebServer_new :: "ushort \<Rightarrow> ushort \<Rightarrow> 's webserver" where
  "WebServer_new port threads =
     (let w = \<lparr>w_nPort = port, w_nThreads = threads, w_topMessageFunctor = None,
                w_qListener = Listener_new threads\<rparr>
      in w\<lparr>w_qListener := setReporters (Some (onGetMessage w)) None (w_qListener w)\<rparr>)"

definition setReporter :: "'s post_functor \<Rightarrow> 's webserver \<Rightarrow> 's webserver" where
  "setReporter pf w =
     (let w1 = w\<lparr>w_topMessageFunctor := Some pf\<rparr>
      in w1\<lparr>w_qListener := setReporters (Some (onGetMessage w1)) (Some pf) (w_qListener w1)\<rparr>)"

definition webserver_start :: "'s webserver \<Rightarrow> 's webserver" where
  "webserver_start w = w\<lparr>w_qListener := listener_run (listener_accept (w_qListener w))\<rparr>"

definition webserver_stop :: "nat \<Rightarrow> 's webserver \<Rightarrow> bool outcome \<times> 's webserver" where
  "webserver_stop caller w =
     (let (r, l) = listener_stop caller (w_qListener w) in (map_outcome (\<lambda>_. True) r, w\<lparr>w_qListener := l\<rparr>))"

text \<open>The end of a web server gives up its pointer to the listener, which ends the listener if it was the last.\<close>

definition webserver_destroy :: "nat \<Rightarrow> 's webserver \<Rightarrow> unit outcome \<times> 's webserver" where
  "webserver_destroy caller w =
     (if listener_owners (w_qListener w) = 1
      then (let (r, l) = listener_destroy caller (w_qListener w) in (r, w\<lparr>w_qListener := l\<rparr>))
      else (Returns (), w))"

text \<open>What a connection the listener accepted runs: the two functors of the listener.\<close>

definition call_get :: "'s get_functor option \<Rightarrow> 's get_functor" where
  "call_get gf inTarget out s = (case gf of None \<Rightarrow> (Throws Bad_function_call, s) | Some f \<Rightarrow> f inTarget out s)"

definition call_post :: "'s post_functor option \<Rightarrow> 's post_functor" where
  "call_post pf inTarget inData out s =
     (case pf of None \<Rightarrow> (Throws Bad_function_call, s) | Some f \<Rightarrow> f inTarget inData out s)"

definition serve_connection ::
  "'s listener \<Rightarrow> string option \<Rightarrow> (read_result \<times> bool) list \<Rightarrow> 's \<Rightarrow> unit outcome \<times> connection \<times> 's" where
  "serve_connection l index inputs s =
     connection_run (call_get (l_getFunctor l)) (call_post (l_postFunctor l)) index inputs HttpConnection_new s"

text \<open>
  The connection runs in the handler, on a thread of the pool or on the thread of \<open>main\<close>, and neither
  catches an exception: one that leaves the connection ends the process.
\<close>

definition serve_on_pool ::
  "'s listener \<Rightarrow> string option \<Rightarrow> (read_result \<times> bool) list \<Rightarrow> 's \<Rightarrow> unit outcome \<times> connection \<times> 's" where
  "serve_on_pool l index inputs s =
     (let (r, c, s1) = serve_connection l index inputs s
      in (case r of Throws e \<Rightarrow> Terminates | _ \<Rightarrow> r, c, s1))"

end
