(* ===== verification/HttpProps.thy ===== *)
theory HttpProps
  imports WebServer
begin

section \<open>Properties of the HTTP layer\<close>

text \<open>
  Which bytes \<open>retrieveBody\<close> takes for the body, which status a request gets and what it changes, what a
  request without a length does, and how many connections are served at a time. The status properties
  are proved once for any reporter and rest on its interpretation by \<open>onMessage\<close>.
\<close>

subsection \<open>Searching in the raw bytes\<close>

lemma last_suffix_append:
  "last_suffix P r = Some i \<Longrightarrow> last_suffix P (k @ r) = Some (length k + i)"
  by (induction k) auto

lemma starts_with_Cons: "starts_with (c # pat) (x # s) \<longleftrightarrow> x = c \<and> starts_with pat s"
  by (auto simp: starts_with_def)

lemma last_suffix_skip:
  "c \<notin> set u \<Longrightarrow> last_suffix (starts_with (c # pat)) s = None \<Longrightarrow>
     last_suffix (starts_with (c # pat)) (u @ s) = None"
  by (induction u) (auto simp: starts_with_Cons)

lemma first_suffix_skip:
  "c \<notin> set u \<Longrightarrow> first_suffix (starts_with (c # pat)) (u @ c # pat @ s) = Some (length u)"
proof (induction u)
  case Nil
  then show ?case by (simp add: starts_with_Cons starts_with_append)
qed (auto simp: starts_with_Cons)

lemma first_suffix_all:
  "(\<And>x. x \<in> set u \<Longrightarrow> Q x) \<Longrightarrow> s \<noteq> [] \<Longrightarrow> \<not> Q (hd s) \<Longrightarrow>
     first_suffix (\<lambda>t. t \<noteq> [] \<and> \<not> Q (hd t)) (u @ s) = Some (length u)"
  by (induction u) (cases s, auto)

lemma drop_prefix: "s = xs @ ys \<Longrightarrow> length xs = n \<Longrightarrow> drop n s = ys"
  by auto

lemma position_nat: "n < 2 ^ 64 - 1 \<Longrightarrow> position (Some n) \<noteq> npos \<and> unat (position (Some n)) = n"
  using word_of_nat_neq_npos [of n] unat_of_nat_small [of n, where 'a = 64] by (simp add: position_def)

definition LENGTH_FIELD :: string where
  "LENGTH_FIELD = ''Content-Length: ''"

text \<open>The number that the length field gives, and where the last length field of a message is.\<close>

lemma stoul_length_field:
  fixes n :: nat
  assumes "v = [] \<or> \<not> is_digit (hd v)" "n < 4096"
  shows "stoul (c_string (to_string n @ v)) = Inr (word_of_nat n)"
proof -
  have v: "c_string (to_string n @ v) = to_string n @ c_string v"
    using to_string_no_char [of NUL n] by (simp add: c_string_def is_digit_def NUL_def takeWhile_append)
  have "c_string v = [] \<or> \<not> is_digit (hd (c_string v))"
    using assms(1) by (cases v) (auto simp: c_string_def)
  then show ?thesis unfolding v using assms(2) by (simp add: stoul_def scan_int_to_string)
qed

lemma rfind_length_line:
  assumes gap: "set gap \<subseteq> set CRLF" and last: "last_suffix (starts_with LENGTH_FIELD) t = None"
  shows "rfind (h @ LENGTH_FIELD @ to_string n @ CRLF @ gap @ t) LENGTH_FIELD = position (Some (length h))"
proof -
  let ?line = "LENGTH_FIELD @ to_string n @ CRLF @ gap @ t"
  have chars: "CHR ''C'' \<notin> set (''ontent-Length: '' @ to_string n @ CRLF @ gap)"
    using to_string_no_char [of "CHR ''C''" n] gap by (auto simp: CRLF_def is_digit_def)
  have "last_suffix (starts_with LENGTH_FIELD) ((''ontent-Length: '' @ to_string n @ CRLF @ gap) @ t) = None"
    using last_suffix_skip [OF chars, of "''ontent-Length: ''" t] last by (simp add: LENGTH_FIELD_def)
  then have "last_suffix (starts_with LENGTH_FIELD) ?line = Some 0"
    by (simp add: LENGTH_FIELD_def starts_with_def)
  then show ?thesis
    using last_suffix_append [of "starts_with LENGTH_FIELD" ?line 0 h] by (simp add: rfind_def)
qed

text \<open>
  The bytes of the buffer up to the length line and what follows it: \<open>gap\<close> are the carriage returns and
  newlines after the number, \<open>t\<close> is the first text that is none.
\<close>

lemma retrieveBody_after_length_line:
  fixes n :: nat
  assumes field: "rq_content_length rq = Some (to_string n @ v)" "v = [] \<or> \<not> is_digit (hd v)"
    and n: "0 < n" "n < 4096" "n < length msg" "length msg < 4096"
    and msg: "msg = h @ LENGTH_FIELD @ to_string n @ CRLF @ gap @ t" "NUL \<notin> set msg"
    and gap: "set gap \<subseteq> set CRLF" and t: "t \<noteq> []" "hd t \<notin> set CRLF"
    and last: "last_suffix (starts_with LENGTH_FIELD) t = None"
  shows "retrieveBody rq (msg @ NUL # stale) = Inr (Some (take n t))"
proof -
  note bodylength = stoul_length_field [OF field(2) n(2)]
  have un: "unat (word_of_nat n :: size_type) = n" using n(2) by (intro unat_of_nat_small) simp
  then have bounds: "\<not> ((word_of_nat n :: size_type) = 0 \<or> ms_maxBufferSize \<le> word_of_nat n)"
    using n(1,2) by (auto simp: word_le_unat ms_maxBufferSize_def dest: arg_cong [where f = unat])
  have view: "c_string (msg @ NUL # stale) = msg"
    using msg(2) by (auto simp: c_string_def takeWhile_append takeWhile_eq_all_conv)
  have "unat (size_of msg) = length msg" using n(4) by (simp add: size_of_def unat_of_nat_small)
  then have sizes: "\<not> (size_of msg \<le> word_of_nat n \<or> ms_maxBufferSize \<le> size_of msg)"
    using n un by (simp add: word_le_unat ms_maxBufferSize_def)
  let ?line = "LENGTH_FIELD @ to_string n @ CRLF @ gap @ t"
  have r: "rfind msg LENGTH_FIELD = position (Some (length h))"
    unfolding msg(1) by (rule rfind_length_line [OF gap last])
  let ?d = "length h + (16 + length (to_string n))"
  have cr: "CHR 0x0D \<notin> set (LENGTH_FIELD @ to_string n)"
    using to_string_no_char [of "CHR 0x0D" n] by (simp add: LENGTH_FIELD_def is_digit_def)
  have h: "length h < 2 ^ 64 - 1" "?d < 2 ^ 64 - 1" "length msg < 2 ^ 64 - 1" using n(4) msg(1) by auto
  have "first_suffix (starts_with CRLF) ?line = Some (16 + length (to_string n))"
    using first_suffix_skip [OF cr, of "[CHR 0x0A]" "gap @ t"] by (simp add: CRLF_def LENGTH_FIELD_def)
  then have f: "find_from msg CRLF (position (Some (length h))) = position (Some ?d)"
    using position_nat [OF h(1)] msg(1) by (simp add: find_from_def)
  let ?b = "?d + (2 + length gap)"
  have drop_d: "drop ?d msg = (CRLF @ gap) @ t"
    by (rule drop_prefix [of _ "h @ LENGTH_FIELD @ to_string n"]) (simp_all add: msg(1) LENGTH_FIELD_def)
  have "first_suffix (\<lambda>s. s \<noteq> [] \<and> hd s \<notin> set CRLF) ((CRLF @ gap) @ t) = Some (length (CRLF @ gap))"
    using gap t by (intro first_suffix_all [where Q = "\<lambda>c. c \<in> set CRLF"]) auto
  then have first: "first_suffix (\<lambda>s. s \<noteq> [] \<and> hd s \<notin> set CRLF) (drop ?d msg) = Some (2 + length gap)"
    unfolding drop_d by (simp add: CRLF_def)
  have "?d < length msg" using t(1) msg(1) by (simp add: LENGTH_FIELD_def)
  then have b: "find_first_not_of msg CRLF (position (Some ?d)) = position (Some ?b)"
    unfolding find_first_not_of_def using position_nat [OF h(2)] first by simp
  have "?b < length msg" using t(1) msg(1) by (simp add: LENGTH_FIELD_def CRLF_def)
  then have ub: "position (Some ?b) \<noteq> npos" "unat (position (Some ?b)) = ?b"
    using position_nat [of ?b] h(3) by simp_all
  have "drop ?b msg = t"
    by (rule drop_prefix [of _ "h @ LENGTH_FIELD @ to_string n @ CRLF @ gap"])
      (simp_all add: msg(1) LENGTH_FIELD_def CRLF_def)
  then have "substr msg (position (Some ?b)) (word_of_nat n) = Inr (take n t)"
    using ub \<open>?b < length msg\<close> un by (simp add: substr_def)
  then show ?thesis
    unfolding retrieveBody_def field(1) option.case bodylength sum.case if_not_P [OF bounds] Let_def view
      if_not_P [OF sizes] r [unfolded LENGTH_FIELD_def]
    using position_nat [OF h(1)] position_nat [OF h(2)] ub by (simp add: f b)
qed

subsection \<open>Any reporter behind the connection\<close>

lemma insertHtml_result [simp]: "rs_result (insertHtmlInResponse rs p h t) = rs_result rs"
  by (simp add: insertHtmlInResponse_def)

lemmas status_defs = status_ok_def status_not_found_def status_internal_server_error_def
  status_bad_request_def

context reporter
begin

lemma get_response:
  assumes "createGetResponse (\<lambda>t out. handle t [] out) index rq rs s = (Returns rs', s')" "rq_target rq \<noteq> ''/''"
  shows "rs_result rs' \<in> {status_ok, status_internal_server_error, status_not_found}
    \<and> (rs_result rs' = status_not_found \<longrightarrow> s' = s)"
proof -
  obtain r s1 where h: "handle (drop_slash (rq_target rq)) [] [] s = (r, s1)" by (rule prod.exhaust)
  then obtain code reply where r: "r = Returns (code, reply)"
    using assms by (cases r) (auto simp: createGetResponse_def Let_def)
  show ?thesis
  proof (cases "0 \<le> code")
    case True
    then show ?thesis
      using assms h r
      by (cases "code = 0") (auto simp: createGetResponse_def Let_def status_defs)
  next
    case False
    then show ?thesis
      using assms h r handle_unknown [OF h [unfolded r]]
      by (auto simp: createGetResponse_def Let_def)
  qed
qed

lemma post_response:
  assumes "createPostResponse handle buffer rq rs s = (Returns rs', s')"
  shows "rs_result rs' \<in> {status_ok, status_internal_server_error, status_not_found}
    \<and> (rs_result rs' = status_not_found \<longrightarrow> s' = s)"
proof -
  obtain body where body: "retrieveBody rq buffer = Inr body"
    using assms by (cases "retrieveBody rq buffer") (auto simp: createPostResponse_def Let_def)
  show ?thesis
  proof (cases "body = None \<or> body = Some []")
    case True
    then show ?thesis using assms body by (auto simp: createPostResponse_def Let_def)
  next
    case False
    obtain r s1 where h: "handle (drop_slash (rq_target rq)) (the body) [] s = (r, s1)" by (rule prod.exhaust)
    then obtain code reply where r: "r = Returns (code, reply)"
      using assms body False by (cases r) (auto simp: createPostResponse_def Let_def)
    show ?thesis
    proof (cases "0 \<le> code")
      case True
      then show ?thesis
        using assms h r body False
        by (cases "code = 0") (auto simp: createPostResponse_def Let_def status_defs)
    next
      case neg: False
      then show ?thesis
        using assms h r body False handle_unknown [OF h [unfolded r]]
        by (auto simp: createPostResponse_def Let_def)
    qed
  qed
qed

end

subsection \<open>The tracker's web server\<close>

text \<open>The web server after the constructor of \<open>MessageServer\<close> has set its reporter.\<close>

definition tracker_web :: "'q lockfree \<Rightarrow> nat \<Rightarrow> ushort \<Rightarrow> ushort \<Rightarrow> 'q server webserver" where
  "tracker_web lf now port threads = setReporter (onMessage lf now) (WebServer_new port threads)"

lemma tracker_web_functors:
  "call_get (l_getFunctor (w_qListener (tracker_web lf now port threads))) = (\<lambda>t out. onMessage lf now t [] out)"
  "call_post (l_postFunctor (w_qListener (tracker_web lf now port threads))) = onMessage lf now"
  by (auto simp: fun_eq_iff tracker_web_def setReporter_def setReporters_def call_get_def call_post_def
      onGetMessage_def Let_def)

text \<open>One request through a connection of the tracker.\<close>

definition tracker_request ::
  "'q lockfree \<Rightarrow> nat \<Rightarrow> string option \<Rightarrow> http_request \<Rightarrow> string \<Rightarrow> 'q server \<Rightarrow> http_response outcome \<times> 'q server" where
  "tracker_request lf now index rq buffer sv =
     (let l = w_qListener (tracker_web lf now 8080 1)
      in processRequest (call_get (l_getFunctor l)) (call_post (l_postFunctor l)) index rq buffer sv)"

lemma tracker_request_eq:
  "tracker_request lf now index rq buffer sv =
     processRequest (\<lambda>t out. onMessage lf now t [] out) (onMessage lf now) index rq buffer sv"
  by (simp add: tracker_request_def tracker_web_functors Let_def)

lemma tracker_request_status:
  assumes "tracker_request lf now index rq buffer sv = (Returns rs, sv')"
  shows "rs_result rs \<in> {200, 400, 404, 500}
    \<and> (rs_result rs = 400 \<or> rs_result rs = 404 \<longrightarrow> sv' = sv)"
proof (cases "rq_method rq")
  case Get
  show ?thesis
  proof (cases "rq_target rq = ''/''")
    case True
    then show ?thesis
      using assms Get by (auto simp: tracker_request_eq processRequest_def createGetResponse_def Let_def
          status_defs split: option.splits)
  next
    case False
    have "createGetResponse (\<lambda>t out. onMessage lf now t [] out) index rq
        \<lparr>rs_result = status_ok, rs_content_type = None, rs_content_length = None,
          rs_server = ''Boost Beast'', rs_version = rq_version rq, rs_keep_alive = True, rs_body = []\<rparr> sv
        = (Returns rs, sv')"
      using assms Get by (simp add: tracker_request_eq processRequest_def Let_def)
    from server.get_response [OF this False] show ?thesis by (auto simp: status_defs)
  qed
next
  case Post
  have "createPostResponse (onMessage lf now) buffer rq
      \<lparr>rs_result = status_no_content, rs_content_type = None, rs_content_length = None,
        rs_server = ''Boost Beast'', rs_version = rq_version rq, rs_keep_alive = True, rs_body = []\<rparr> sv
      = (Returns rs, sv')"
    using assms Post by (simp add: tracker_request_eq processRequest_def Let_def)
  from server.post_response [OF this] show ?thesis by (auto simp: status_defs)
next
  case Other_verb
  then show ?thesis
    using assms by (auto simp: tracker_request_eq processRequest_def Let_def status_defs split: sum.splits)
qed

subsection \<open>Properties\<close>

text \<open>
  C26. Every answered request gets one of four statuses, as HTML, and an error of the client's side (400
  or 404) has changed nothing in the tracker: no count, no message, no signal.
\<close>

theorem client_errors_change_nothing:
  assumes "tracker_request lf now index rq buffer sv = (Returns rs, sv')"
  shows "rs_result rs \<in> {200, 400, 404, 500}
    \<and> (rs_result rs = 400 \<or> rs_result rs = 404 \<longrightarrow> sv' = sv)"
  using tracker_request_status [OF assms] .

definition get_request :: "string \<Rightarrow> http_request" where
  "get_request target =
     \<lparr>rq_method = Get, rq_method_data = ''GET'', rq_target = target, rq_target_data = target,
      rq_version = 11, rq_content_length = None\<rparr>"

lemma client_errors_change_nothing_witness:
  "\<exists>rs. tracker_request list_lockfree 0 None (get_request ''/nothing'') [] tracker_server
      = (Returns rs, tracker_server) \<and> rs_result rs \<in> {200, 400, 404, 500}"
proof -
  have "\<exists>rs. tracker_request list_lockfree 0 None (get_request ''/nothing'') [] tracker_server
      = (Returns rs, tracker_server)"
    by (simp add: tracker_request_eq processRequest_def createGetResponse_def get_request_def drop_slash_def
        onMessage_defs CMD_UNKNOWN_def Let_def)
  then show ?thesis using client_errors_change_nothing by blast
qed

text \<open>
  A GET reaches the commands that take an argument, with an empty one: \<open>GET /keySent\<close> is answered
  with status 200 and reports the empty key, once for each request.
\<close>

theorem get_key_sent_reports_empty_key:
  assumes "rq_method rq = Get" "rq_target rq = ''/keySent''"
  shows "\<exists>rs. tracker_request lf now index rq buffer sv =
      (Returns rs, sv\<lparr>m_pMessageQueue :=
        queue_send lf (Message_strings cmd_addKey [] [] 0 0 0) (m_pMessageQueue sv)\<rparr>)
    \<and> rs_result rs = 200"
proof -
  have "split_payload [] = Inr ([], [], 0)" using split_payload_plain [of "[]"] by simp
  then show ?thesis
    using assms by (simp add: tracker_request_eq processRequest_def createGetResponse_def drop_slash_def
        onMessage_defs CMD_SUCCEEDED_def status_ok_def Let_def)
qed

lemma get_key_sent_reports_empty_key_witness:
  "\<exists>rs. tracker_request list_lockfree 0 None (get_request ''/keySent'') [] tracker_server =
      (Returns rs, tracker_server\<lparr>m_pMessageQueue :=
        queue_send list_lockfree (Message_strings cmd_addKey [] [] 0 0 0) (m_pMessageQueue tracker_server)\<rparr>)
    \<and> rs_result rs = 200"
  by (rule get_key_sent_reports_empty_key) (simp_all add: get_request_def)

text \<open>
  C36. A POST without a \<open>Content-Length\<close> field is never answered: whatever the functors, the exception of
  \<open>std::string\<close> on a null pointer leaves \<open>processRequest\<close> and \<open>run\<close>, with nothing written and the
  functors not called, although the connection is still open; it leaves the handler of the listener too,
  which ends the process.
\<close>

theorem post_without_length_throws:
  assumes "rq_method rq = Post" "rq_content_length rq = None"
  shows "processRequest gf pf index rq buffer s = (Throws Logic_error, s)
    \<and> (\<exists>c. connection_run gf pf index ((Read_request rq buffer, ec) # inputs) HttpConnection_new s
          = (Throws Logic_error, c, s) \<and> c_written c = [] \<and> c_open c)
    \<and> fst (serve_on_pool l index ((Read_request rq buffer, ec) # inputs) s) = Terminates"
proof -
  have p: "processRequest gf pf index rq buffer s = (Throws Logic_error, s)" for gf pf
    using assms by (simp add: processRequest_def createPostResponse_def retrieveBody_def Let_def)
  then show ?thesis
    by (simp add: connection_run_def readRequest_def HttpConnection_new_def serve_on_pool_def serve_connection_def)
qed

lemma post_without_length_throws_witness:
  "fst (tracker_request list_lockfree 0 None ((get_request ''/keySent'')\<lparr>rq_method := Post\<rparr>) [] tracker_server)
     = Throws Logic_error"
  using post_without_length_throws [of "(get_request ''/keySent'')\<lparr>rq_method := Post\<rparr>"
      "\<lambda>t out. onMessage list_lockfree 0 t [] out" "onMessage list_lockfree 0" None "[]" tracker_server
      False "[]" "w_qListener (tracker_web list_lockfree 0 8080 1)"]
  by (simp add: tracker_request_eq get_request_def)

text \<open>
  C32. The body of a POST is found when the length field is the last one: for bytes that end their headers
  with the length line and an empty line, a body of that length that does not begin with a carriage
  return or a newline, and no second length line in what follows (stale bytes of an earlier request
  included), the functor is given exactly the body.
\<close>

theorem body_after_last_field:
  assumes n: "n = length body" "0 < n" "length msg < 4096"
    and field: "rq_content_length rq = Some (to_string n @ CRLF @ v)"
    and msg: "msg = h @ LENGTH_FIELD @ to_string n @ CRLF @ CRLF @ body @ rest" "NUL \<notin> set msg"
    and body: "hd body \<notin> set CRLF"
    and no_second: "last_suffix (starts_with LENGTH_FIELD) (body @ rest) = None"
  shows "retrieveBody rq (msg @ NUL # stale) = Inr (Some body)"
proof -
  have "retrieveBody rq (msg @ NUL # stale) = Inr (Some (take n (body @ rest)))"
  proof (rule retrieveBody_after_length_line [OF field])
    show "CRLF @ v = [] \<or> \<not> is_digit (hd (CRLF @ v))" by (simp add: CRLF_def is_digit_def)
    show "n < length msg" "n < 4096" using n msg(1) by (auto simp: LENGTH_FIELD_def)
    show "body @ rest \<noteq> []" "hd (body @ rest) \<notin> set CRLF" using n body by auto
    show "msg = h @ LENGTH_FIELD @ to_string n @ CRLF @ CRLF @ (body @ rest)" using msg(1) by simp
  qed (use n msg no_second in auto)
  then show ?thesis using n(1) by simp
qed

lemma body_after_last_field_witness:
  "retrieveBody ((get_request ''/keySent'')\<lparr>rq_method := Post, rq_content_length := Some (to_string 3 @ CRLF @ [])\<rparr>)
     ((''POST /keySent HTTP/1.1'' @ CRLF @ LENGTH_FIELD @ to_string 3 @ CRLF @ CRLF @ ''abc'' @ []) @ NUL # ''xyz'')
   = Inr (Some ''abc'')"
proof (rule body_after_last_field [where n = 3 and v = "[]" and h = "''POST /keySent HTTP/1.1'' @ CRLF" and rest = "[]"])
  show "last_suffix (starts_with LENGTH_FIELD) (''abc'' @ []) = None" by code_simp
  show "NUL \<notin> set (''POST /keySent HTTP/1.1'' @ CRLF @ LENGTH_FIELD @ to_string 3 @ CRLF @ CRLF @ ''abc'' @ [])"
    using to_string_no_char [of NUL 3] by (simp add: NUL_def CRLF_def LENGTH_FIELD_def is_digit_def)
qed (simp_all add: LENGTH_FIELD_def CRLF_def to_string.simps [of 3])

text \<open>
  When another field follows the length line, the functor is given the beginning of that field
  instead of the body.
\<close>

theorem body_misread_before_other_field:
  assumes n: "0 < n" "n \<le> length field" "length msg < 4096"
    and rq: "rq_content_length rq = Some (to_string n @ CRLF @ v)"
    and msg: "msg = h @ LENGTH_FIELD @ to_string n @ CRLF @ field @ CRLF @ CRLF @ body" "NUL \<notin> set msg"
    and field: "hd field \<notin> set CRLF"
    and no_second: "last_suffix (starts_with LENGTH_FIELD) (field @ CRLF @ CRLF @ body) = None"
  shows "retrieveBody rq (msg @ NUL # stale) = Inr (Some (take n field))"
proof -
  have "retrieveBody rq (msg @ NUL # stale) = Inr (Some (take n (field @ CRLF @ CRLF @ body)))"
  proof (rule retrieveBody_after_length_line [OF rq])
    show "CRLF @ v = [] \<or> \<not> is_digit (hd (CRLF @ v))" by (simp add: CRLF_def is_digit_def)
    show "n < length msg" "n < 4096" using n msg(1) by (auto simp: LENGTH_FIELD_def)
    show "field @ CRLF @ CRLF @ body \<noteq> []" "hd (field @ CRLF @ CRLF @ body) \<notin> set CRLF"
      using n field by (cases field, auto)+
    show "msg = h @ LENGTH_FIELD @ to_string n @ CRLF @ [] @ (field @ CRLF @ CRLF @ body)" using msg(1) by simp
  qed (use n msg no_second in auto)
  then show ?thesis using n(2) by simp
qed

lemma body_misread_before_other_field_witness:
  "retrieveBody ((get_request ''/keySent'')\<lparr>rq_method := Post, rq_content_length := Some (to_string 3 @ CRLF @ [])\<rparr>)
     ((''POST /keySent HTTP/1.1'' @ CRLF @ LENGTH_FIELD @ to_string 3 @ CRLF @ ''Host: x'' @ CRLF @ CRLF @ ''abc'') @ NUL # [])
   = Inr (Some (take 3 ''Host: x''))"
proof (rule body_misread_before_other_field [where v = "[]" and h = "''POST /keySent HTTP/1.1'' @ CRLF" and body = "''abc''"])
  show "last_suffix (starts_with LENGTH_FIELD) (''Host: x'' @ CRLF @ CRLF @ ''abc'') = None" by code_simp
  show "NUL \<notin> set (''POST /keySent HTTP/1.1'' @ CRLF @ LENGTH_FIELD @ to_string 3 @ CRLF @ ''Host: x'' @ CRLF @ CRLF @ ''abc'')"
    using to_string_no_char [of NUL 3] by (simp add: NUL_def CRLF_def LENGTH_FIELD_def is_digit_def)
qed (simp_all add: LENGTH_FIELD_def CRLF_def to_string.simps [of 3])

subsection \<open>The loop of a connection\<close>

lemma readRequest_frame:
  "c_shuttingDown (fst (snd (readRequest gf pf index input c s))) = c_shuttingDown c"
  by (cases input) (auto simp: readRequest_def connection_stop_def Let_def split: outcome.splits prod.splits)

text \<open>
  C37. A connection is never shutting down: nothing sets the flag, so a run ends only when a read or a
  write fails, or by an exception, and the branch of the listener that stops the I/O context is never
  taken. As long as reads and writes succeed, the thread stays with its client.
\<close>

theorem connection_never_shuts_down:
  "\<not> c_shuttingDown (fst (snd (connection_run gf pf index inputs HttpConnection_new s)))
   \<and> (fst (connection_run gf pf index inputs HttpConnection_new s) = Returns () \<longrightarrow>
        (\<exists>input ec. (input, ec) \<in> set inputs \<and> (input = Read_error \<or> ec)))"
proof -
  have "\<not> c_shuttingDown (fst (snd (run_loop gf pf index inputs c s)))
      \<and> (fst (run_loop gf pf index inputs c s) = Returns () \<longrightarrow> c_running c \<longrightarrow>
          (\<exists>input ec. (input, ec) \<in> set inputs \<and> (input = Read_error \<or> ec)))"
    if "\<not> c_shuttingDown c" for c
    using that
  proof (induction inputs arbitrary: c s)
    case (Cons p inputs)
    obtain input ec where p: "p = (input, ec)" by (cases p)
    obtain r c1 s1 where r: "readRequest gf pf index input c s = (r, c1, s1)" by (rule prod_cases3)
    have c1: "\<not> c_shuttingDown c1" using readRequest_frame [of gf pf index input c s] r Cons.prems by simp
    have stays: "c_running c1 = c_running c" if "input \<noteq> Read_error"
      using r that by (cases input) (auto simp: readRequest_def Let_def split: outcome.splits prod.splits)
    have wr: "\<not> c_shuttingDown (writeResponse ec c1)" "\<not> ec \<Longrightarrow> c_running (writeResponse ec c1) = c_running c1"
      using c1 by (simp_all add: writeResponse_def connection_stop_def Let_def)
    define c2 where "c2 = (if c_writeReady c1 then writeResponse ec c1 else c1)"
    have c2: "\<not> c_shuttingDown c2" "\<not> ec \<Longrightarrow> c_running c2 = c_running c1" using c1 wr by (simp_all add: c2_def)
    have loop: "run_loop gf pf index (p # inputs) c s = (if c_running c then
        (if r \<noteq> Returns () then (r, c1, s1) else if \<not> c_running c1 then (Returns (), c1, s1)
         else run_loop gf pf index inputs c2 s1) else (Returns (), c, s))"
      using r Cons.prems p by (simp add: c2_def)
    show ?case
    proof (cases "c_running c \<and> r = Returns () \<and> c_running c1")
      case True
      then show ?thesis using Cons.IH [OF c2(1), of s1] c2(2) p unfolding loop by auto
    next
      case False
      then show ?thesis using c1 stays Cons.prems p unfolding loop by auto
    qed
  qed simp
  from this [of "HttpConnection_new\<lparr>c_running := True\<rparr>"] show ?thesis
    by (simp add: connection_run_def HttpConnection_new_def)
qed

lemma connection_never_shuts_down_witness:
  "fst (connection_run (\<lambda>t out s. (Returns (1, []), s)) (\<lambda>t d out s. (Returns (1, []), s)) None [(Read_error, False)]
      HttpConnection_new ()) = Returns ()
   \<and> \<not> c_shuttingDown (fst (snd (connection_run (\<lambda>t out s. (Returns (1, []), s)) (\<lambda>t d out s. (Returns (1, []), s)) None
         [(Read_error, False)] HttpConnection_new ())))"
  using connection_never_shuts_down [of "\<lambda>t out s. (Returns (1, []), s)" "\<lambda>t d out s. (Returns (1, []), s)" None
      "[(Read_error, False)]" "()"]
  by (simp add: connection_run_def readRequest_def connection_stop_def HttpConnection_new_def)

text \<open>
  A reference for a connection whose reads and writes succeed: the requests are processed one after the
  other, each on the state the one before left, and each response gets the length of its body.
\<close>

definition with_length :: "http_response \<Rightarrow> http_response" where
  "with_length rs = rs\<lparr>rs_content_length := Some (length (rs_body rs))\<rparr>"

fun answer_all ::
  "(http_request \<Rightarrow> string \<Rightarrow> 's \<Rightarrow> http_response outcome \<times> 's) \<Rightarrow> (http_request \<times> string) list \<Rightarrow> 's
     \<Rightarrow> unit outcome \<times> http_response list \<times> 's" where
  "answer_all process [] s = (Waits, [], s)"
| "answer_all process ((rq, buffer) # rqs) s =
     (let (r, s1) = process rq buffer s
      in case r of
           Returns rs \<Rightarrow> (let (r2, answers, s2) = answer_all process rqs s1 in (r2, with_length rs # answers, s2))
         | _ \<Rightarrow> (map_outcome (\<lambda>_. ()) r, [], s1))"

definition reads_of :: "(http_request \<times> string) list \<Rightarrow> (read_result \<times> bool) list" where
  "reads_of rqs = map (\<lambda>(rq, buffer). (Read_request rq buffer, False)) rqs"

lemma run_loop_answers:
  assumes "c_running c" "\<not> c_shuttingDown c"
  shows "(case run_loop gf pf index (reads_of rqs) c s of (r, c1, s1) \<Rightarrow> (r, c_written c1, s1))
    = (case answer_all (processRequest gf pf index) rqs s of (r, answers, s1) \<Rightarrow> (r, c_written c @ answers, s1))"
  using assms
proof (induction rqs arbitrary: c s)
  case (Cons p rqs)
  obtain rq buffer where p: "p = (rq, buffer)" by (cases p)
  obtain r s1 where r: "processRequest gf pf index rq buffer s = (r, s1)" by (cases "processRequest gf pf index rq buffer s")
  show ?case
  proof (cases r)
    case (Returns rs)
    let ?c = "writeResponse False (c\<lparr>c_response := rs, c_writeReady := True\<rparr>)"
    have c: "c_written ?c = c_written c @ [with_length rs]" "c_running ?c" "\<not> c_shuttingDown ?c"
      using Cons.prems by (simp_all add: writeResponse_def with_length_def)
    have "run_loop gf pf index (reads_of (p # rqs)) c s = run_loop gf pf index (reads_of rqs) ?c s1"
      using Cons.prems r Returns p by (simp add: reads_of_def readRequest_def)
    then show ?thesis using Cons.IH [OF c(2,3), of s1] r Returns p c(1) by (auto split: prod.splits)
  qed (use Cons.prems r p in \<open>simp_all add: reads_of_def readRequest_def\<close>)
qed (simp add: reads_of_def)

text \<open>
  C18. A connection whose reads and writes succeed does what the reference does, for every pair of functors
  and every list of requests: as many responses as requests, in their order, each computed from its own
  request and buffer alone and sent with the length of its body; it stops with the first request whose
  processing does not return, after which nothing is read.
\<close>

theorem requests_answered_in_order:
  "(case connection_run gf pf index (reads_of rqs) HttpConnection_new s of (r, c, s1) \<Rightarrow> (r, c_written c, s1))
   = answer_all (processRequest gf pf index) rqs s"
  using run_loop_answers [of "HttpConnection_new\<lparr>c_running := True\<rparr>" gf pf index rqs s]
  by (simp add: connection_run_def HttpConnection_new_def)

end
