(* ===== verification/ListenerProps.thy ===== *)
theory ListenerProps
  imports HttpProps
begin

text \<open>
  What holds of the listener: clients are served one after the other, the handler of \<open>async_accept\<close> keeps
  the listener alive for ever, and what \<open>stop\<close> and the destructor do with the threads of the pool.
\<close>

subsection \<open>One connection at a time\<close>

text \<open>Either an accept is pending or one thread is serving, or the I/O context was stopped by a client.\<close>

definition sequential :: "'s listener \<Rightarrow> bool" where
  "sequential l \<longleftrightarrow> serving_threads l + (if l_accepting l then 1 else 0) \<le> 1"

lemma serving_set:
  assumes "i < length (l_threads l)"
  shows "serving_threads (l\<lparr>l_threads := (l_threads l)[i := t]\<rparr>) + (if l_threads l ! i = Serving then 1 else 0)
    = serving_threads l + (if t = Serving then 1 else 0)"
  using filter_update_length [OF assms, of "\<lambda>t. t = Serving" t] by (simp add: serving_threads_def)

lemma serving_threads_frame [simp]:
  "serving_threads (l\<lparr>l_accepting := a\<rparr>) = serving_threads l"
  "serving_threads (l\<lparr>l_stopped := b\<rparr>) = serving_threads l"
  "serving_threads (l\<lparr>l_accepting := a, l_threads := ts\<rparr>) = serving_threads (l\<lparr>l_threads := ts\<rparr>)"
  "serving_threads (l\<lparr>l_threads := ts, l_stopped := b\<rparr>) = serving_threads (l\<lparr>l_threads := ts\<rparr>)"
  "serving_threads (l\<lparr>l_threads := ts, l_accepting := a\<rparr>) = serving_threads (l\<lparr>l_threads := ts\<rparr>)"
  by (simp_all add: serving_threads_def)

lemma spawn_loop_eq: "spawn_loop n ts = ts @ replicate n Idle"
  by (induction n arbitrary: ts) (simp_all add: replicate_append_same [symmetric])

lemma spawn_pool:
  "(if 1 < n then spawn_loop (unat (n - 1)) [] else []) @ [Idle] = replicate (max 1 (unat n)) Idle"
  for n :: ushort
proof (cases "1 < n")
  case True
  then have "unat (n - 1) = unat n - 1" by (intro unat_minus_one) auto
  moreover have "1 < unat n" using True unfolding word_less_unat by simp
  moreover from this obtain k where "unat n = Suc k" by (cases "unat n") auto
  ultimately show ?thesis using True by (simp add: spawn_loop_eq replicate_append_same max_def)
next
  case False
  then have "max 1 (unat n) = 1" by (simp add: word_less_unat)
  then show ?thesis using False by simp
qed

lemma started_listener:
  fixes lf now port threads
  defines "l0 \<equiv> w_qListener (webserver_start (tracker_web lf now port threads))"
  shows "l_threads l0 = replicate (max 1 (unat threads)) Idle" "l_threadQty l0 = threads" "l_accepting l0"
    "\<not> l_stopped l0" "serving_threads l0 = 0"
proof -
  have l0: "l0 = listener_run (listener_accept (setReporters
        (Some (onGetMessage ((WebServer_new port threads)\<lparr>w_topMessageFunctor := Some (onMessage lf now)\<rparr>)))
        (Some (onMessage lf now)) (w_qListener (WebServer_new port threads))))"
    by (simp add: l0_def webserver_start_def tracker_web_def setReporter_def Let_def)
  have qty: "l_threadQty (setReporters g h (w_qListener (WebServer_new port threads))) = threads" for g h
    by (simp add: setReporters_def WebServer_new_def Listener_new_def Let_def)
  show th: "l_threads l0 = replicate (max 1 (unat threads)) Idle"
    unfolding l0 listener_run_def listener_accept_def using spawn_pool [of threads]
    by (cases "1 < threads") (simp_all add: qty)
  show "l_threadQty l0 = threads" "l_accepting l0" "\<not> l_stopped l0"
    unfolding l0 listener_run_def listener_accept_def
    by (simp_all add: setReporters_def WebServer_new_def Listener_new_def Let_def)
  show "serving_threads l0 = 0" unfolding serving_threads_def th by simp
qed

lemma join_loop_serving:
  "filter (\<lambda>t. t = Serving) (snd (join_loop caller stopped i ts)) = filter (\<lambda>t. t = Serving) ts"
  by (induction ts arbitrary: i) (auto simp: case_prod_unfold Let_def split: pool_thread.split)

lemma listener_stop_serving: "serving_threads (snd (listener_stop caller l)) = serving_threads l"
proof -
  have "filter (\<lambda>t. t = Serving) (take n ts) @ filter (\<lambda>t. t = Serving) (drop n ts) = filter (\<lambda>t. t = Serving) ts" for n ts
    by (metis append_take_drop_id filter_append)
  then show ?thesis
    by (simp add: serving_threads_def listener_stop_def waitThreadsToFinish_def Let_def case_prod_unfold
        join_loop_serving flip: length_append)
qed

lemma listener_stop_accepting: "l_accepting (snd (listener_stop caller l)) = l_accepting l"
  by (simp add: listener_stop_def waitThreadsToFinish_def Let_def split: prod.splits)

lemma sequential_step:
  assumes "listener_step l e l'" "sequential l"
  shows "sequential l'"
  using assms
proof (induction rule: listener_step.induct)
  case (step_connected l i)
  then show ?case using serving_set [of i l Serving] by (simp add: sequential_def)
next
  case (step_failed l i)
  then show ?case by (simp add: sequential_def listener_accept_def)
next
  case (step_closed i l)
  then show ?case using serving_set [of i l Idle] by (simp add: sequential_def listener_accept_def split: if_splits)
next
  case (step_shutting_down i l)
  then show ?case using serving_set [of i l Idle] by (simp add: sequential_def split: if_splits)
next
  case (step_stop l caller)
  then show ?case using listener_stop_accepting [of caller l] listener_stop_serving [of caller l]
    by (simp add: sequential_def)
qed

text \<open>
  C19. The server serves one client at a time, whatever the number of threads: in every reachable state at
  most one thread is serving, and while one is no \<open>async_accept\<close> is pending, so that a second client is
  not accepted before the first has closed its connection.
\<close>

theorem one_connection_at_a_time:
  assumes "listener_reach (w_qListener (webserver_start (tracker_web lf now port threads))) es l"
  shows "serving_threads l \<le> 1
    \<and> (serving_threads l = 1 \<longrightarrow> \<not> l_accepting l \<and> (\<forall>i l'. \<not> listener_step l (Connected i) l'))"
proof -
  let ?l0 = "w_qListener (webserver_start (tracker_web lf now port threads))"
  have "sequential ?l0" by (simp add: sequential_def started_listener)
  with assms have "sequential l"
    by (induction "?l0" es l rule: listener_reach.induct) (auto intro: sequential_step)
  then show ?thesis by (auto simp: sequential_def elim: listener_stepE split: if_splits)
qed

text \<open>A client that thread 1 of four serves.\<close>

lemma one_client_reach:
  fixes l
  defines "l \<equiv> w_qListener (webserver_start (tracker_web list_lockfree 0 8080 4))"
  shows "listener_reach l [Connected 1] (l\<lparr>l_accepting := False, l_threads := [Idle, Serving, Idle, Idle]\<rparr>)"
proof -
  have "replicate 4 Idle = [Idle, Idle, Idle, Idle]" by (simp add: numeral_eq_Suc)
  then have "l_threads l = [Idle, Idle, Idle, Idle]" "l_accepting l" "\<not> l_stopped l"
    by (simp_all add: l_def started_listener)
  then show ?thesis using reach_step [OF reach_refl step_connected, of l 1] by simp
qed

lemma one_connection_at_a_time_witness:
  "\<forall>l'. \<not> listener_step ((w_qListener (webserver_start (tracker_web list_lockfree 0 8080 4)))
      \<lparr>l_accepting := False, l_threads := [Idle, Serving, Idle, Idle]\<rparr>) (Connected 0) l'"
  using one_connection_at_a_time [OF one_client_reach] by (simp add: serving_threads_def)

subsection \<open>The end of the listener\<close>

lemma join_loop_returns:
  assumes "\<And>j. j < length ts \<Longrightarrow> i + j \<noteq> caller \<Longrightarrow> ts ! j = Idle"
  shows "fst (join_loop caller True i ts) = Returns ()
    \<and> length (snd (join_loop caller True i ts)) = length ts
    \<and> (\<forall>j < length ts. snd (join_loop caller True i ts) ! j = (if i + j = caller then ts ! j else Joined))"
  using assms
proof (induction ts arbitrary: i)
  case (Cons t ts)
  have "ts ! j = Idle" if "j < length ts" "Suc i + j \<noteq> caller" for j
    using Cons.prems [of "Suc j"] that by simp
  note IH = Cons.IH [OF this]
  moreover have "i \<noteq> caller \<Longrightarrow> t = Idle" using Cons.prems [of 0] by simp
  ultimately show ?case by (auto simp: case_prod_unfold Let_def nth_Cons split: nat.splits)
qed simp

lemma join_loop_waits:
  assumes "Joined \<notin> set ts" "j < length ts" "i + j \<noteq> caller" "ts ! j = Serving"
  shows "fst (join_loop caller True i ts) = Waits"
  using assms
proof (induction ts arbitrary: i j)
  case (Cons t ts)
  show ?case
  proof (cases j)
    case (Suc k)
    then show ?thesis using Cons.prems Cons.IH [of k "Suc i"]
      by (auto simp: case_prod_unfold Let_def split: pool_thread.split)
  qed (use Cons.prems in simp)
qed simp

lemma join_loop_again:
  assumes "Serving \<notin> set ts" "Joined \<in> set ts" "i + length ts \<le> caller"
  shows "fst (join_loop caller True i ts) = Throws System_error"
  using assms
proof (induction ts arbitrary: i)
  case (Cons t ts)
  then show ?case by (auto simp: case_prod_unfold Let_def split: pool_thread.split)
qed simp

text \<open>The pool keeps its size, and its threads are joined by nothing but \<open>stop\<close>.\<close>

lemma pool_step:
  assumes "listener_step l e l'" "\<And>c. e \<noteq> Stop_called c"
  shows "l_threadQty l' = l_threadQty l \<and> length (l_threads l') = length (l_threads l)
    \<and> (Joined \<notin> set (l_threads l) \<longrightarrow> Joined \<notin> set (l_threads l'))"
  using assms
proof (induction rule: listener_step.induct)
  case (step_connected l i)
  then show ?case using set_update_subset_insert [of "l_threads l" i Serving] by auto
next
  case (step_closed i l)
  then show ?case using set_update_subset_insert [of "l_threads l" i Idle] by (auto simp: listener_accept_def)
next
  case (step_shutting_down i l)
  then show ?case using set_update_subset_insert [of "l_threads l" i Idle] by auto
next
  case (step_stop l caller)
  then show ?case by blast
qed (simp_all add: listener_accept_def)

lemma pool_reach:
  assumes "listener_reach l0 es l" "\<And>c. Stop_called c \<notin> set es" "Joined \<notin> set (l_threads l0)"
  shows "l_threadQty l = l_threadQty l0 \<and> length (l_threads l) = length (l_threads l0) \<and> Joined \<notin> set (l_threads l)"
  using assms
proof (induction rule: listener_reach.induct)
  case (reach_step l0 es l1 e l2)
  have "l_threadQty l1 = l_threadQty l0 \<and> length (l_threads l1) = length (l_threads l0) \<and> Joined \<notin> set (l_threads l1)"
    using reach_step by auto
  moreover have "e \<noteq> Stop_called c" for c using reach_step.prems(1) [of c] by auto
  ultimately show ?case using pool_step [OF reach_step.hyps(2)] by auto
qed simp

definition other_served :: "nat \<Rightarrow> nat \<Rightarrow> 's listener \<Rightarrow> bool" where
  "other_served caller n l \<longleftrightarrow> (\<exists>i \<in> {..<n}. i \<noteq> caller \<and> l_threads l ! i = Serving)"

text \<open>
  A client that keeps its connection open keeps the call of \<open>stop\<close> from returning: as long as \<open>stop\<close> has not
  been called, the call returns if no other thread of the pool is serving, and waits otherwise. After a
  \<open>stop\<close> that returned, on a thread that was not serving and with another thread in the pool, the
  destructor of the listener, run by \<open>main\<close>, would join a joined thread again and end the process with
  \<open>std::terminate\<close>.
\<close>

theorem stop_waits_for_other_clients:
  assumes reach: "listener_reach (w_qListener (webserver_start (tracker_web lf now port threads))) es l"
    and fresh: "\<And>c. Stop_called c \<notin> set es" and threads: "1 < threads"
  shows "fst (listener_stop caller l) = (if other_served caller (unat threads - 1) l then Waits else Returns ())
    \<and> (\<not> other_served caller (unat threads - 1) l \<longrightarrow> (caller < unat threads - 1 \<longrightarrow> l_threads l ! caller = Idle) \<longrightarrow> (\<exists>i < unat threads - 1. i \<noteq> caller) \<longrightarrow>
        fst (listener_destroy (unat threads - 1) (snd (listener_stop caller l))) = Terminates)"
proof -
  let ?n = "unat threads - 1"
  let ?other = "other_served caller ?n l"
  define ts where "ts = take ?n (l_threads l)"
  have n: "1 < unat threads" using threads by (simp add: word_less_unat)
  have l: "l_threadQty l = threads" "length (l_threads l) = unat threads" "Joined \<notin> set (l_threads l)"
    using pool_reach [OF reach fresh] n by (simp_all add: started_listener)
  have ts: "length ts = ?n" "Joined \<notin> set ts" "\<And>j. j < ?n \<Longrightarrow> ts ! j = l_threads l ! j"
    using l in_set_takeD [of Joined ?n "l_threads l"] by (auto simp: ts_def)
  have stop: "listener_stop caller l = (let (r, us) = join_loop caller True 0 ts
      in (r, l\<lparr>l_stopped := True, l_threads := us @ drop ?n (l_threads l)\<rparr>))"
    using threads l by (simp add: listener_stop_def waitThreadsToFinish_def ts_def Let_def)
  have waits: "fst (listener_stop caller l) = Waits" if ?other
    using that join_loop_waits [OF ts(2), of _ 0 caller] ts unfolding stop other_served_def
    by (auto simp: case_prod_unfold Let_def)
  have idle: "ts ! j = Idle" if "\<not> ?other" "j < length ts" "0 + j \<noteq> caller" for j
    using that ts(1,3) nth_mem [of j ts] ts(2) unfolding other_served_def by (cases "ts ! j") auto
  have returns: "fst (listener_stop caller l) = Returns ()" if "\<not> ?other"
    using join_loop_returns [OF idle [OF that]] unfolding stop by (simp add: case_prod_unfold Let_def)
  have "fst (listener_destroy ?n (snd (listener_stop caller l))) = Terminates"
    if o: "\<not> ?other" and c: "caller < ?n \<longrightarrow> l_threads l ! caller = Idle" and i: "\<exists>i < ?n. i \<noteq> caller"
  proof -
    define us where "us = snd (join_loop caller True 0 ts)"
    have us: "length us = ?n" "\<And>j. j < ?n \<Longrightarrow> us ! j = (if j = caller then ts ! j else Joined)"
      using join_loop_returns [OF idle [OF o]] ts(1) by (auto simp: us_def)
    have no: "Serving \<notin> set us" using us ts(3) c by (auto simp: in_set_conv_nth split: if_splits)
    have "Joined \<in> set us" using us i by (auto simp: in_set_conv_nth)
    then have "fst (join_loop ?n True 0 us) = Throws System_error" using join_loop_again [OF no] us(1) by simp
    moreover have "take ?n (us @ drop ?n (l_threads l)) = us" "length (us @ drop ?n (l_threads l)) = unat threads"
      using us(1) l(2) n by simp_all
    ultimately show ?thesis
      using threads l(1) unfolding stop
      by (simp add: listener_destroy_def waitThreadsToFinish_def case_prod_unfold Let_def us_def)
  qed
  then show ?thesis using waits returns by simp
qed

lemma stop_waits_for_other_clients_witness:
  fixes l
  defines "l \<equiv> w_qListener (webserver_start (tracker_web list_lockfree 0 8080 4))"
  shows "fst (listener_stop 3 l) = Returns ()
    \<and> fst (listener_stop 3 (l\<lparr>l_accepting := False, l_threads := [Idle, Serving, Idle, Idle]\<rparr>)) = Waits"
proof -
  have free: "\<not> other_served 3 3 l" by (auto simp: other_served_def started_listener l_def)
  have busy: "other_served 3 3 (l\<lparr>l_accepting := False, l_threads := [Idle, Serving, Idle, Idle]\<rparr>)"
    by (auto simp: other_served_def intro!: bexI [of _ 1])
  show ?thesis
    using stop_waits_for_other_clients [OF reach_refl [of l, unfolded l_def], of 3] free
      stop_waits_for_other_clients [OF one_client_reach, of 3] busy by (simp add: l_def)
qed

text \<open>
  C33. The destructor of the listener is never run: whatever clients do and whenever \<open>stop\<close> is called,
  the handler of \<open>async_accept\<close>, pending or running, owns a second pointer to the listener (no connection
  is ever shutting down), so giving up the web server's pointer leaves the listener as it is.
\<close>

theorem listener_outlives_server:
  assumes reach: "listener_reach (w_qListener (webserver_start (tracker_web lf now port threads))) es l"
    and closed: "\<And>i. Closed i True \<notin> set es"
  shows "listener_owners l = 2
    \<and> webserver_destroy caller (w\<lparr>w_qListener := l\<rparr>) = (Returns (), w\<lparr>w_qListener := l\<rparr>)"
proof -
  have step: "listener_owners l2 = 2"
    if "listener_step l1 e l2" "listener_owners l1 = 2" "\<And>i. e \<noteq> Closed i True" for l1 l2 :: "'a server listener" and e
    using that
  proof (induction rule: listener_step.induct)
    case (step_connected l i)
    then show ?case using serving_set [of i l Serving] by (simp add: listener_owners_def)
  next
    case (step_failed l i)
    then show ?case by (simp add: listener_owners_def listener_accept_def)
  next
    case (step_closed i l)
    then show ?case using serving_set [of i l Idle] by (simp add: listener_owners_def listener_accept_def split: if_splits)
  next
    case (step_shutting_down i l)
    then show ?case by blast
  next
    case (step_stop l caller)
    then show ?case
      using listener_stop_accepting [of caller l] listener_stop_serving [of caller l] by (simp add: listener_owners_def)
  qed
  have "listener_owners l = 2"
    using reach closed
  proof (induction "w_qListener (webserver_start (tracker_web lf now port threads))" es l rule: listener_reach.induct)
    case reach_refl
    then show ?case by (simp add: listener_owners_def started_listener)
  next
    case (reach_step es l1 e l2)
    then have "listener_owners l1 = 2" "\<And>i. e \<noteq> Closed i True" by auto
    then show ?case using step [OF reach_step.hyps(3)] by blast
  qed
  then show ?thesis by (simp add: webserver_destroy_def)
qed

lemma listener_outlives_server_witness:
  "listener_owners (w_qListener (webserver_start (tracker_web list_lockfree 0 8080 4))) = 2"
  using listener_outlives_server [OF reach_refl, of list_lockfree 0 8080 4 0 "tracker_web list_lockfree 0 8080 4"] by simp

end
