(* ===== verification/Tracker.thy ===== *)
theory Tracker
  imports ListenerProps
begin

section \<open>The program (src/tracker.cpp)\<close>

text \<open>
  \<open>main\<close> in three parts: reading the command line and building the objects, starting them, and what it
  does after the signal that ends the I/O context. \<open>make_address\<close> is a parameter that says whether it
  accepts the text of the address; \<open>argv\<close> includes the name of the program.
\<close>

subsection \<open>The command line\<close>

text \<open>The byte at an index of a C string; the terminator is the last one the code reads.\<close>

definition c_char :: "string \<Rightarrow> nat \<Rightarrow> char" where
  "c_char s i = (if i < length (c_string s) then c_string s ! i else NUL)"

definition parse_threads :: "string list \<Rightarrow> ushort" where
  "parse_threads argv =
     (if 4 \<le> length argv then
        (let t = (ucast (atoi (c_string (argv ! 3))) :: ushort)
         in if 0 < t then (if t < max_threads then t else max_threads) else max_threads)
      else max_threads)"

definition parse_verbosity :: "string list \<Rightarrow> level" where
  "parse_verbosity argv =
     (if 4 \<le> length argv \<and> 5 \<le> length argv \<and> c_char (argv ! 4) 0 = CHR ''-'' \<and> c_char (argv ! 4) 1 = CHR ''v''
         \<and> is_digit (c_char (argv ! 4) 2)
      then fromInt (int (digit_value (c_char (argv ! 4) 2))) (fromInt 0 Error)
      else fromInt 0 Error)"

definition parse_port :: "string list \<Rightarrow> ushort" where
  "parse_port argv = ucast (atoi (c_string (argv ! 2)))"

subsection \<open>Building and starting the objects\<close>

record 'q tracker =
  tk_server :: "'q server"
  tk_web :: "'q server webserver"

definition DEFAULT_REPORTSIZE :: uint where "DEFAULT_REPORTSIZE = 10"
definition MAX_REPORTSIZE :: uint where "MAX_REPORTSIZE = 20"
definition ONE_HOUR :: uint where "ONE_HOUR = 3600"

lemmas tracker_constants = DEFAULT_REPORTSIZE_def MAX_REPORTSIZE_def ONE_HOUR_def

definition EXIT_FAILURE :: int where "EXIT_FAILURE = 1"
definition EXIT_SUCCESS :: int where "EXIT_SUCCESS = 0"

text \<open>
  The constructor of the message server keeps its arguments and gives its functor to the web server. The
  manager, the queue and the backup manager are reached through the server's state.
\<close>

definition MessageServer_new ::
  "'q lockfree \<Rightarrow> nat \<Rightarrow> bool \<Rightarrow> 'q queue_system \<Rightarrow> backup_manager \<Rightarrow> disk \<Rightarrow> 'q server webserver \<Rightarrow> 'q tracker" where
  "MessageServer_new lf now mgr queue bkp dk comsrv =
     \<lparr>tk_server = \<lparr>m_pMapManager = mgr, m_pMessageQueue = queue, m_pBackupManager = bkp,
        sv_disk = dk, sv_signals = []\<rparr>,
      tk_web = setReporter (onMessage lf now) comsrv\<rparr>"

text \<open>
  The objects of \<open>main\<close>, or the exit code, or the exception of \<open>make_address\<close>. The queue starts empty
  as \<open>q\<close>.
\<close>

definition tracker_build ::
  "(string \<Rightarrow> bool) \<Rightarrow> 'q lockfree \<Rightarrow> 'q \<Rightarrow> disk \<Rightarrow> nat \<Rightarrow> string list \<Rightarrow> exn + int + 'q tracker" where
  "tracker_build make_address lf q dk now argv =
     (if length argv < 3 then Inr (Inl EXIT_FAILURE)
      else
        let threadQty = parse_threads argv; verbosity = parse_verbosity argv
        in if \<not> make_address (c_string (argv ! 1)) then Inl Boost_system_error
           else
             let mapMgr = MapManager_new DEFAULT_REPORTSIZE MAX_REPORTSIZE (toUint verbosity);
                 queue = setConsumer True (ThreadedMessageQueue_new q mapMgr);
                 backupMgr = setFilenames ''keys'' ''frequencies'' ''csv'' (BackupManager_new ONE_HOUR verbosity);
                 webSrv = WebServer_new (parse_port argv) threadQty
             in Inr (Inr (MessageServer_new lf now True queue backupMgr dk webSrv)))"

text \<open>\<open>start\<close> and \<open>stop\<close> of the message server are those of its communication server.\<close>

definition messageServer_start :: "'q tracker \<Rightarrow> bool \<times> 'q tracker" where
  "messageServer_start tk = (True, tk\<lparr>tk_web := webserver_start (tk_web tk)\<rparr>)"

definition messageServer_stop :: "nat \<Rightarrow> 'q tracker \<Rightarrow> bool outcome \<times> 'q tracker" where
  "messageServer_stop caller tk = (let (r, w) = webserver_stop caller (tk_web tk) in (r, tk\<lparr>tk_web := w\<rparr>))"

text \<open>\<open>queue.start\<close>, \<open>backupMgr.start\<close> and \<open>msgSrv.start\<close>; their results are ignored.\<close>

definition tracker_start :: "'q tracker \<Rightarrow> 'q tracker" where
  "tracker_start tk =
     snd (messageServer_start (tk\<lparr>tk_server := (tk_server tk)\<lparr>
          m_pMessageQueue := snd (queue_start (m_pMessageQueue (tk_server tk))),
          m_pBackupManager := snd (backup_start (m_pBackupManager (tk_server tk)))\<rparr>\<rparr>))"

subsection \<open>The end of the program\<close>

definition signal_number :: "signal \<Rightarrow> int" where
  "signal_number s = (case s of SIGHUP \<Rightarrow> 1 | SIGINT \<Rightarrow> 2 | SIGQUIT \<Rightarrow> 3)"

definition exit_code :: "signal \<Rightarrow> int" where
  "exit_code s = (if s = SIGHUP then 128 + signal_number SIGHUP else EXIT_SUCCESS)"

text \<open>After the I/O context has stopped: the backup manager, then the queue; then the exit code.\<close>

definition tracker_stop :: "signal \<Rightarrow> 'q tracker \<Rightarrow> int outcome \<times> 'q tracker" where
  "tracker_stop s tk =
     (let sv = tk_server tk;
          (r, queue) = queue_stop (m_pMessageQueue sv)
      in (map_outcome (\<lambda>_. exit_code s) r,
          tk\<lparr>tk_server := sv\<lparr>m_pBackupManager := backup_stop (m_pBackupManager sv), m_pMessageQueue := queue\<rparr>\<rparr>))"

text \<open>The handler of the signals, on the thread that runs it: the signal is kept and the server stopped.\<close>

definition on_signal :: "nat \<Rightarrow> signal \<Rightarrow> 'q tracker \<Rightarrow> (signal \<times> bool outcome) \<times> 'q tracker" where
  "on_signal caller sig tk = (let (r, tk1) = messageServer_stop caller tk in ((sig, r), tk1))"

text \<open>There is always at least one thread.\<close>

lemma parse_threads_pos: "1 \<le> unat (parse_threads argv)"
proof (cases "unat (parse_threads argv) = 0")
  case True
  then show ?thesis by (simp add: parse_threads_def max_threads_def unat_eq_0 Let_def split: if_splits)
qed simp

subsection \<open>Properties\<close>

text \<open>
  The number of threads is between 1 and 208 for every command line: the third argument when its low
  16 bits are in that range, and 208 when they are larger or zero or when there is no such argument.
\<close>

theorem thread_count_bounds:
  "1 \<le> unat (parse_threads argv) \<and> unat (parse_threads argv) \<le> 208
   \<and> (4 \<le> length argv \<longrightarrow> c_string (argv ! 3) = to_string n \<longrightarrow> n < 2 ^ 31 \<longrightarrow>
        unat (parse_threads argv) = (if n mod 65536 = 0 then 208 else min 208 (n mod 65536)))"
proof -
  have mx: "unat max_threads = 208" by (simp add: max_threads_def)
  have cap: "unat (if 0 < t then (if t < max_threads then t else max_threads) else max_threads)
      = (if unat t = 0 then 208 else min 208 (unat t))" for t :: ushort
    unfolding word_less_unat if_distrib [of unat] mx by simp
  have eq: "unat (parse_threads argv) = (if 4 \<le> length argv then
      (if unat (ucast (atoi (c_string (argv ! 3))) :: ushort) = 0 then 208
       else min 208 (unat (ucast (atoi (c_string (argv ! 3))) :: ushort))) else 208)"
    by (cases "4 \<le> length argv") (simp_all only: parse_threads_def Let_def if_True if_False cap mx)
  have range: "1 \<le> unat (parse_threads argv) \<and> unat (parse_threads argv) \<le> 208" unfolding eq by simp
  have "unat (parse_threads argv) = (if n mod 65536 = 0 then 208 else min 208 (n mod 65536))"
    if "4 \<le> length argv" "c_string (argv ! 3) = to_string n" "n < 2 ^ 31"
  proof -
    have "scan_int (to_string n) = Some (int n)" using scan_int_to_string [of "[]" n] by simp
    then have atoi: "atoi (c_string (argv ! 3)) = word_of_nat n" using that(2,3) by (simp add: atoi_def)
    have "unat (ucast (word_of_nat n :: uint) :: ushort) = n mod 65536"
      by (simp add: unsigned_ucast_eq unat_of_nat take_bit_eq_mod mod_mod_cancel)
    then show ?thesis unfolding eq atoi using that(1) by simp
  qed
  then show ?thesis using range by blast
qed

lemma thread_count_bounds_witness:
  "unat (parse_threads [''tracker'', ''0.0.0.0'', ''8080'', ''250'']) = 208"
proof -
  have "c_string ''250'' = to_string 250"
    by code_simp
  then show ?thesis
    using thread_count_bounds [of "[''tracker'', ''0.0.0.0'', ''8080'', ''250'']" 250] by simp
qed

text \<open>
  What \<open>main\<close> starts, for every command line it accepts: the queue runs in front of an empty manager
  with base size 10 and maximum 20; the backup timer has one thread and an interval of an hour; the web
  server accepts connections with as many threads as the command line gives, and both its functors reach
  \<open>onMessage\<close>. With fewer than two arguments it only returns 1.
\<close>

theorem tracker_starts_serving:
  assumes "3 \<le> length argv" "make_address (c_string (argv ! 1))"
  shows "\<exists>tk v. tracker_build make_address lf q dk now argv = Inr (Inr tk)
    \<and> tracker_build make_address lf q dk now (take 2 argv) = Inr (Inl 1)
    \<and> (let sv = tk_server (tracker_start tk); w = tk_web (tracker_start tk)
       in m_pMessageQueue sv = started q (MapManager_new 10 20 v)
         \<and> live (b_timer (m_pBackupManager sv)) = 1 \<and> t_interval (b_timer (m_pBackupManager sv)) = 3600000
         \<and> l_accepting (w_qListener w) \<and> \<not> l_stopped (w_qListener w)
         \<and> l_threads (w_qListener w) = replicate (unat (parse_threads argv)) Idle
         \<and> call_get (l_getFunctor (w_qListener w)) = (\<lambda>t out. onMessage lf now t [] out)
         \<and> call_post (l_postFunctor (w_qListener w)) = onMessage lf now)"
proof -
  let ?n = "parse_threads argv"
  have "1 \<le> unat ?n" by (rule parse_threads_pos)
  then have pool: "(if 1 < ?n then spawn_loop (unat (?n - 1)) [] else []) @ [Idle] = replicate (unat ?n) Idle"
    using spawn_pool [of ?n] by (simp only: max_absorb2)
  have threads: "l_threads (listener_run (listener_accept (setReporters g p (Listener_new ?n)))) = replicate (unat ?n) Idle"
    for g p using pool
    by (simp add: listener_run_def listener_accept_def setReporters_def Listener_new_def split: if_split_asm)
  show ?thesis
    using assms threads
    by (intro exI [of _ "projr (projr (tracker_build make_address lf q dk now argv))"] exI [of _ "toUint (parse_verbosity argv)"])
      (auto simp: tracker_build_def tracker_constants MessageServer_new_def tracker_start_def messageServer_start_def started_def EXIT_FAILURE_def Let_def
        backup_start_def setFilenames_def BackupManager_new_def Timer_new_def getInterval_def
        timer_start_record live_def c_string_def NUL_def webserver_start_def setReporter_def
        setReporters_def WebServer_new_def listener_run_def listener_accept_def Listener_new_def
        call_get_def call_post_def onGetMessage_def fun_eq_iff)
qed

lemma tracker_starts_serving_witness:
  "\<exists>tk v. tracker_build (\<lambda>_. True) list_lockfree [] (sv_disk tracker_server) 0 [''tracker'', ''0.0.0.0'', ''8080''] = Inr (Inr tk)
    \<and> m_pMessageQueue (tk_server (tracker_start tk)) = started [] (MapManager_new 10 20 v)"
  using tracker_starts_serving [of "[''tracker'', ''0.0.0.0'', ''8080'']" "\<lambda>_. True" list_lockfree "[]"
      "sv_disk tracker_server" 0] by (auto simp: Let_def)

text \<open>
  The requests that end the program: \<open>shutdown\<close> and \<open>restart\<close> are answered with 200 and raise one
  signal each and change nothing else; \<open>main\<close> returns 0 after the first and 129 after the second, but only
  once the worker of the queue has ended.
\<close>

theorem shutdown_and_restart:
  assumes "rq_method rq = Get"
  shows "(rq_target rq = ''/shutdown'' \<longrightarrow>
      (\<exists>rs. tracker_request lf now index rq buffer sv = (Returns rs, sv\<lparr>sv_signals := sv_signals sv @ [SIGQUIT]\<rparr>)
        \<and> rs_result rs = 200))
    \<and> (rq_target rq = ''/restart'' \<longrightarrow>
      (\<exists>rs. tracker_request lf now index rq buffer sv = (Returns rs, sv\<lparr>sv_signals := sv_signals sv @ [SIGHUP]\<rparr>)
        \<and> rs_result rs = 200))
    \<and> fst (tracker_stop s tk) =
      (case m_poper (m_pMessageQueue (tk_server tk)) of
         Not_joinable \<Rightarrow> Throws System_error
       | Finished \<Rightarrow> Returns (if s = SIGHUP then 129 else 0)
       | _ \<Rightarrow> Waits)"
proof -
  have "fst (tracker_stop s tk) =
      (case m_poper (m_pMessageQueue (tk_server tk)) of
         Not_joinable \<Rightarrow> Throws System_error
       | Finished \<Rightarrow> Returns (if s = SIGHUP then 129 else 0)
       | _ \<Rightarrow> Waits)"
    by (simp add: tracker_stop_def queue_stop_def queue_join_def exit_code_def signal_number_def
        EXIT_SUCCESS_def Let_def split: worker.splits)
  then show ?thesis
    using assms by (simp add: tracker_request_eq processRequest_def createGetResponse_def drop_slash_def
        onMessage_defs CMD_SUCCEEDED_def status_ok_def Let_def)
qed

lemma shutdown_and_restart_witness:
  "\<exists>rs. tracker_request list_lockfree 0 None (get_request ''/restart'') [] tracker_server
      = (Returns rs, tracker_server\<lparr>sv_signals := [SIGHUP]\<rparr>) \<and> rs_result rs = 200"
proof -
  have "sv_signals tracker_server = []" "rq_method (get_request ''/restart'') = Get"
    "rq_target (get_request ''/restart'') = ''/restart''"
    by (simp_all add: tracker_server_def get_request_def)
  then show ?thesis
    using shutdown_and_restart [of "get_request ''/restart''" list_lockfree 0 None "[]" tracker_server,
        THEN conjunct2, THEN conjunct1] by simp
qed

end
