(* ===== verification/Sessions.thy ===== *)
theory Sessions
  imports ListenerProps
begin

section \<open>Many clients at one listener (src/web/listener.cpp with src/web/http-connection.cpp)\<close>

text \<open>
  The listener and the connections its threads run, one iteration of \<open>HttpConnection::run\<close> at a time, so
  that what happens on different threads can interleave in every way the listener allows. The property
  compares every such run with serving the clients one after the other.
\<close>

subsection \<open>The listener with its connections\<close>

record 's hall =
  h_listener :: "'s listener"
  h_connections :: "nat \<Rightarrow> connection"   \<comment> \<open>the connection of each serving thread\<close>
  h_state :: 's

definition hall_new :: "'s listener \<Rightarrow> 's \<Rightarrow> 's hall" where
  "hall_new l s = \<lparr>h_listener = l, h_connections = (\<lambda>_. HttpConnection_new), h_state = s\<rparr>"

text \<open>One iteration of the loop of \<open>run\<close>.\<close>

definition run_iteration ::
  "'s listener \<Rightarrow> string option \<Rightarrow> read_result \<Rightarrow> bool \<Rightarrow> connection \<Rightarrow> 's \<Rightarrow> unit outcome \<times> connection \<times> 's" where
  "run_iteration l index input ec c s =
     (let (r, c1, s1) = readRequest (call_get (l_getFunctor l)) (call_post (l_postFunctor l)) index input c s
      in (r, if r = Returns () \<and> c_running c1 \<and> c_writeReady c1 then writeResponse ec c1 else c1, s1))"

datatype hall_event =
    Listen listener_event
  | Iterate nat read_result bool

text \<open>
  A thread that takes a connection begins its loop; an iteration that returns leaves the thread at the
  head of the loop; a connection that is over is closed. An iteration that throws ends the process and one
  that waits takes no step.
\<close>

inductive hall_step :: "string option \<Rightarrow> 's hall \<Rightarrow> hall_event \<Rightarrow> 's hall \<Rightarrow> bool" for index where
  hall_connected:
    "listener_step (h_listener h) (Connected i) l \<Longrightarrow>
     hall_step index h (Listen (Connected i)) (h\<lparr>h_listener := l,
       h_connections := (h_connections h)(i := HttpConnection_new\<lparr>c_running := True\<rparr>)\<rparr>)"
| hall_accept_failed:
    "listener_step (h_listener h) (Accept_failed i) l \<Longrightarrow>
     hall_step index h (Listen (Accept_failed i)) (h\<lparr>h_listener := l\<rparr>)"
| hall_stop:
    "listener_step (h_listener h) (Stop_called i) l \<Longrightarrow>
     hall_step index h (Listen (Stop_called i)) (h\<lparr>h_listener := l\<rparr>)"
| hall_iterate:
    "i < length (l_threads (h_listener h)) \<Longrightarrow> l_threads (h_listener h) ! i = Serving \<Longrightarrow>
     c_running (h_connections h i) \<Longrightarrow> \<not> c_shuttingDown (h_connections h i) \<Longrightarrow>
     run_iteration (h_listener h) index input ec (h_connections h i) (h_state h) = (Returns (), c, s) \<Longrightarrow>
     hall_step index h (Iterate i input ec) (h\<lparr>h_connections := (h_connections h)(i := c), h_state := s\<rparr>)"
| hall_closed:
    "\<not> c_running (h_connections h i) \<or> c_shuttingDown (h_connections h i) \<Longrightarrow>
     listener_step (h_listener h) (Closed i (c_shuttingDown (h_connections h i))) l \<Longrightarrow>
     hall_step index h (Listen (Closed i (c_shuttingDown (h_connections h i)))) (h\<lparr>h_listener := l\<rparr>)"

inductive hall_run :: "string option \<Rightarrow> 's hall \<Rightarrow> hall_event list \<Rightarrow> 's hall \<Rightarrow> bool" for index where
  hall_none: "hall_run index h [] h"
| hall_next: "hall_run index h es h1 \<Longrightarrow> hall_step index h1 e h2 \<Longrightarrow> hall_run index h (es @ [e]) h2"

subsection \<open>The reference: one client after the other\<close>

text \<open>What the clients sent, from the events alone: a client's inputs are those up to the next client's arrival.\<close>

definition add_event :: "(read_result \<times> bool) list list \<Rightarrow> hall_event \<Rightarrow> (read_result \<times> bool) list list" where
  "add_event ss e =
     (case e of
        Listen (Connected i) \<Rightarrow> ss @ [[]]
      | Iterate i input ec \<Rightarrow> butlast ss @ [last ss @ [(input, ec)]]
      | _ \<Rightarrow> ss)"

definition sessions :: "hall_event list \<Rightarrow> (read_result \<times> bool) list list" where
  "sessions es = foldl add_event [] es"

definition serve_all :: "'s listener \<Rightarrow> string option \<Rightarrow> (read_result \<times> bool) list list \<Rightarrow> 's \<Rightarrow> 's" where
  "serve_all l index ss s = foldl (\<lambda>s1 inputs. snd (snd (serve_connection l index inputs s1))) s ss"

lemma serve_all_snoc:
  "serve_all l index (ss @ [inputs]) s = snd (snd (serve_connection l index inputs (serve_all l index ss s)))"
  by (simp add: serve_all_def)

subsection \<open>Every run is serial\<close>

lemma run_loop_iteration:
  assumes "c_running c" "\<not> c_shuttingDown c" "run_iteration l index input ec c s = (Returns (), c1, s1)"
  shows "run_loop (call_get (l_getFunctor l)) (call_post (l_postFunctor l)) index ((input, ec) # inputs) c s
    = run_loop (call_get (l_getFunctor l)) (call_post (l_postFunctor l)) index inputs c1 s1"
proof -
  obtain r c0 s0 where r: "readRequest (call_get (l_getFunctor l)) (call_post (l_postFunctor l)) index input c s = (r, c0, s0)"
    by (rule prod_cases3)
  have over: "run_loop gf pf index inputs c0 s0 = (Returns (), c0, s0)" if "\<not> c_running c0" for gf pf
    using that by (cases inputs) auto
  show ?thesis using assms r over by (auto simp: run_iteration_def Let_def split: if_splits)
qed

lemma run_loop_nil: "snd (snd (run_loop gf pf index [] c s)) = s"
  by simp

text \<open>
  The invariant: the listener is sequential and has the functors it began with; the state is that of the
  reference; and a serving thread is where the reference's loop is after the last client's inputs so far.
\<close>

definition hall_inv ::
  "string option \<Rightarrow> 's listener \<Rightarrow> 's \<Rightarrow> (read_result \<times> bool) list list \<Rightarrow> 's hall \<Rightarrow> bool" where
  "hall_inv index l0 s0 ss h \<longleftrightarrow>
     sequential (h_listener h)
   \<and> l_getFunctor (h_listener h) = l_getFunctor l0 \<and> l_postFunctor (h_listener h) = l_postFunctor l0
   \<and> h_state h = serve_all l0 index ss s0
   \<and> (\<forall>i < length (l_threads (h_listener h)). l_threads (h_listener h) ! i = Serving \<longrightarrow>
        ss \<noteq> [] \<and> (\<forall>inputs. serve_connection l0 index (last ss @ inputs) (serve_all l0 index (butlast ss) s0)
          = run_loop (call_get (l_getFunctor l0)) (call_post (l_postFunctor l0)) index inputs
              (h_connections h i) (h_state h)))"

lemma listener_step_functors:
  "listener_step l e l' \<Longrightarrow> l_getFunctor l' = l_getFunctor l \<and> l_postFunctor l' = l_postFunctor l"
  by (induction rule: listener_step.induct)
    (auto simp: listener_accept_def listener_stop_def waitThreadsToFinish_def Let_def split: prod.splits)

text \<open>No step but \<open>Connected\<close> makes a thread serve.\<close>

lemma still_serving:
  assumes "listener_step l e l'" "\<And>j. e \<noteq> Connected j" "i < length (l_threads l')" "l_threads l' ! i = Serving"
  shows "i < length (l_threads l) \<and> l_threads l ! i = Serving"
  using assms
proof (induction rule: listener_step.induct)
  case (step_stop l caller)
  let ?n = "length (l_threads l) - 1"
  have loop: "length (snd (join_loop caller st k ts)) = length ts
      \<and> (\<forall>j < length ts. snd (join_loop caller st k ts) ! j = Serving \<longrightarrow> ts ! j = Serving)" for st k ts
    by (induction ts arbitrary: k) (auto simp: case_prod_unfold Let_def nth_Cons split: pool_thread.split nat.splits)
  show ?case
  proof (cases "1 < l_threadQty l")
    case True
    have th: "l_threads (snd (listener_stop caller l))
        = snd (join_loop caller True 0 (take ?n (l_threads l))) @ drop ?n (l_threads l)"
      using True by (simp add: listener_stop_def waitThreadsToFinish_def Let_def case_prod_unfold)
    note loop0 = loop [of True 0 "take ?n (l_threads l)"]
    have i: "i < length (l_threads l)" using step_stop(2) loop0 unfolding th by auto
    moreover have "l_threads l ! i = Serving"
    proof (cases "i < ?n")
      case False
      then have "i = ?n" using i by linarith
      then show ?thesis using step_stop(3) loop0 unfolding th by (auto simp: nth_append)
    qed (use step_stop(3) loop0 th in \<open>auto simp: nth_append\<close>)
    ultimately show ?thesis by simp
  qed (use step_stop in \<open>simp add: listener_stop_def waitThreadsToFinish_def\<close>)
qed (auto simp: listener_accept_def nth_list_update split: if_splits)

lemma sequential_only:
  assumes "sequential l" "i < length (l_threads l)" "l_threads l ! i = Serving"
    "j < length (l_threads l)" "l_threads l ! j = Serving"
  shows "j = i"
proof (rule ccontr)
  assume "j \<noteq> i"
  then have "card {i, j} \<le> card {k. k < length (l_threads l) \<and> l_threads l ! k = Serving}"
    using assms by (intro card_mono) auto
  then show False
    using \<open>j \<noteq> i\<close> assms(1) by (simp add: sequential_def serving_threads_def length_filter_conv_card split: if_splits)
qed

lemma hall_inv_listen:
  assumes "hall_inv index l0 s0 ss h" "listener_step (h_listener h) e l" "\<And>j. e \<noteq> Connected j"
  shows "hall_inv index l0 s0 ss (h\<lparr>h_listener := l\<rparr>)"
  using assms(1) listener_step_functors [OF assms(2)] sequential_step [OF assms(2)] still_serving [OF assms(2,3)]
  by (auto simp: hall_inv_def)

lemma hall_inv_connected:
  assumes inv: "hall_inv index l0 s0 ss h" and acc: "listener_step (h_listener h) (Connected i) l"
  shows "hall_inv index l0 s0 (ss @ [[]]) (h\<lparr>h_listener := l,
    h_connections := (h_connections h)(i := HttpConnection_new\<lparr>c_running := True\<rparr>)\<rparr>)"
proof -
  have seq: "sequential l" using sequential_step [OF acc] inv by (simp add: hall_inv_def)
  have "i < length (l_threads l)" "l_threads l ! i = Serving" using acc by (auto elim!: listener_stepE)
  note only = sequential_only [OF seq this]
  have starts: "serve_connection l0 index inputs (h_state h)
      = run_loop (call_get (l_getFunctor l0)) (call_post (l_postFunctor l0)) index inputs
          (HttpConnection_new\<lparr>c_running := True\<rparr>) (h_state h)" for inputs
    by (simp add: serve_connection_def connection_run_def)
  show ?thesis
    using inv listener_step_functors [OF acc] seq only starts by (auto simp: hall_inv_def serve_all_snoc)
qed

lemma hall_inv_iterate:
  assumes inv: "hall_inv index l0 s0 ss h"
    and i: "i < length (l_threads (h_listener h))" "l_threads (h_listener h) ! i = Serving"
    and c: "c_running (h_connections h i)" "\<not> c_shuttingDown (h_connections h i)"
      "run_iteration (h_listener h) index input ec (h_connections h i) (h_state h) = (Returns (), c, s)"
  shows "hall_inv index l0 s0 (butlast ss @ [last ss @ [(input, ec)]])
    (h\<lparr>h_connections := (h_connections h)(i := c), h_state := s\<rparr>)"
proof -
  let ?sb = "serve_all l0 index (butlast ss) s0"
  have at: "serve_connection l0 index (last ss @ inputs) ?sb
      = run_loop (call_get (l_getFunctor l0)) (call_post (l_postFunctor l0)) index inputs (h_connections h i) (h_state h)" for inputs
    using inv i by (auto simp: hall_inv_def)
  have "run_iteration l0 index input ec (h_connections h i) (h_state h) = (Returns (), c, s)"
    using c(3) inv by (simp add: run_iteration_def hall_inv_def)
  note iter = run_loop_iteration [OF c(1,2) this]
  have after: "serve_connection l0 index ((last ss @ [(input, ec)]) @ inputs) ?sb
      = run_loop (call_get (l_getFunctor l0)) (call_post (l_postFunctor l0)) index inputs c s" for inputs
    using at [of "(input, ec) # inputs"] iter by simp
  have "serve_all l0 index (butlast ss @ [last ss @ [(input, ec)]]) s0 = s"
    using after [of "[]"] by (simp add: serve_all_snoc)
  then show ?thesis
    using inv after sequential_only [OF _ i] by (auto simp: hall_inv_def)
qed

lemma hall_inv_step:
  assumes inv: "hall_inv index l0 s0 ss h" and step: "hall_step index h e h'"
  shows "hall_inv index l0 s0 (add_event ss e) h'"
  using step inv
proof (induction rule: hall_step.induct)
  case (hall_connected h i l)
  then show ?case using hall_inv_connected by (simp add: add_event_def)
next
  case (hall_iterate i h input ec c s)
  then show ?case using hall_inv_iterate [OF hall_iterate(6)] by (simp add: add_event_def)
qed (use hall_inv_listen in \<open>fastforce simp: add_event_def\<close>)+

text \<open>
  C17. Clients do not interleave: whatever the number of threads and whatever the order in which threads
  take connections, iterate and close them, accepting fails and \<open>stop\<close> is called, the state is what serving
  the clients one after the other leaves, in the order of their arrival, each with all it sent.
\<close>

theorem clients_are_served_in_turn:
  assumes "hall_run index (hall_new (w_qListener (webserver_start (tracker_web lf now port threads))) sv) es h"
  shows "h_state h = serve_all (w_qListener (tracker_web lf now port threads)) index (sessions es) sv"
proof -
  let ?l = "w_qListener (tracker_web lf now port threads)" and ?first = "w_qListener (webserver_start (tracker_web lf now port threads))"
  have "l_getFunctor ?first = l_getFunctor ?l" "l_postFunctor ?first = l_postFunctor ?l"
    by (simp_all add: webserver_start_def listener_run_def listener_accept_def)
  then have new: "hall_inv index ?l sv [] (hall_new ?first sv)"
    by (auto simp: hall_inv_def hall_new_def sequential_def started_listener serve_all_def)
  have "hall_inv index ?l sv (sessions es) h"
    using assms
  proof (induction "hall_new ?first sv" es h rule: hall_run.induct)
    case (hall_next es h1 e h2)
    then show ?case using hall_inv_step [OF _ hall_next.hyps(3)] by (simp add: sessions_def)
  qed (simp add: sessions_def new)
  then show ?thesis by (simp add: hall_inv_def)
qed

text \<open>A run with two clients: the first reports a key and leaves, then the second arrives on another thread.\<close>

definition two_clients :: "hall_event list" where
  "two_clients =
     [Listen (Connected 1), Iterate 1 (Read_request (get_request ''/keySent'') []) False,
      Iterate 1 Read_error False, Listen (Closed 1 False), Listen (Connected 0)]"

lemma hall_run_Cons:
  assumes "hall_step index h e h1" "hall_run index h1 es h2"
  shows "hall_run index h (e # es) h2"
  using assms(2,1)
proof (induction rule: hall_run.induct)
  case (hall_none h1)
  then show ?case using hall_run.hall_next [OF hall_run.hall_none] by fastforce
next
  case (hall_next h1 es h2 e' h3)
  then show ?case using hall_run.hall_next [of index h "e # es"] by simp
qed

lemma two_clients_run:
  fixes l and sv0 :: "pointer list server"
  defines "l \<equiv> w_qListener (webserver_start (tracker_web list_lockfree 0 8080 4))"
  defines "sv \<equiv> sv0\<lparr>m_pMessageQueue :=
    queue_send list_lockfree (Message_strings cmd_addKey [] [] 0 0 0) (m_pMessageQueue sv0)\<rparr>"
  obtains h where "hall_run None (hall_new l sv0) two_clients h" "h_state h = sv"
    "l_threads (h_listener h) = [Serving, Idle, Idle, Idle]" "c_running (h_connections h 0)"
proof -
  let ?req = "get_request ''/keySent''" and ?new = "HttpConnection_new\<lparr>c_running := True\<rparr>"
  let ?rd = "readRequest (call_get (l_getFunctor l)) (call_post (l_postFunctor l)) None"
  have "replicate 4 Idle = [Idle, Idle, Idle, Idle]" by (simp add: numeral_eq_Suc)
  then have l: "l_threads l = [Idle, Idle, Idle, Idle]" "l_accepting l" "\<not> l_stopped l"
    by (simp_all add: l_def started_listener)
  have functors: "call_get (l_getFunctor l) = (\<lambda>t out. onMessage list_lockfree 0 t [] out)"
      "call_post (l_postFunctor l) = onMessage list_lockfree 0"
    unfolding l_def using tracker_web_functors [of list_lockfree 0 8080 4]
    by (simp_all add: webserver_start_def listener_run_def listener_accept_def)
  obtain rs where "processRequest (\<lambda>t out. onMessage list_lockfree 0 t [] out) (onMessage list_lockfree 0) None ?req [] sv0
      = (Returns rs, sv)"
    using get_key_sent_reports_empty_key [of ?req list_lockfree 0 None "[]" sv0]
    by (auto simp: tracker_request_eq get_request_def sv_def)
  then have rd: "?rd (Read_request ?req []) ?new sv0
      = (Returns (), ?new\<lparr>c_response := rs, c_writeReady := True\<rparr>, sv)"
    by (simp add: readRequest_def functors HttpConnection_new_def)
  define c1 where "c1 = writeResponse False (?new\<lparr>c_response := rs, c_writeReady := True\<rparr>)"
  define c2 where "c2 = connection_stop (c1\<lparr>c_writeReady := False\<rparr>)"
  have c: "c_running c1" "\<not> c_shuttingDown c1" "\<not> c_running c2" "\<not> c_shuttingDown c2"
    by (simp_all add: c1_def c2_def writeResponse_def connection_stop_def HttpConnection_new_def)
  define l1 where "l1 = l\<lparr>l_accepting := False, l_threads := [Idle, Serving, Idle, Idle]\<rparr>"
  define l2 where "l2 = l\<lparr>l_accepting := False, l_threads := [Serving, Idle, Idle, Idle]\<rparr>"
  have s1: "listener_step l (Connected 1) l1"
    using step_connected [of l 1] l by (simp add: l1_def)
  have s2: "listener_step l1 (Closed 1 False) l"
  proof -
    have "l\<lparr>l_threads := [Idle, Idle, Idle, Idle], l_accepting := True\<rparr> = l"
      by (intro listener.equality) (simp_all add: l)
    then show ?thesis using step_closed [of 1 l1] by (simp add: l1_def listener_accept_def)
  qed
  have s3: "listener_step l (Connected 0) l2"
    using step_connected [of l 0] l by (simp add: l2_def)
  let ?cs = "h_connections (hall_new l sv0)"
  define h1 where "h1 = \<lparr>h_listener = l1, h_connections = ?cs(1 := ?new), h_state = sv0\<rparr>"
  define h2 where "h2 = \<lparr>h_listener = l1, h_connections = ?cs(1 := c1), h_state = sv\<rparr>"
  define h3 where "h3 = \<lparr>h_listener = l1, h_connections = ?cs(1 := c2), h_state = sv\<rparr>"
  define h4 where "h4 = \<lparr>h_listener = l, h_connections = ?cs(1 := c2), h_state = sv\<rparr>"
  define h5 where "h5 = \<lparr>h_listener = l2, h_connections = ?cs(1 := c2, 0 := ?new), h_state = sv\<rparr>"
  have "hall_step None (hall_new l sv0) (Listen (Connected 1)) h1"
    using hall_connected [of "hall_new l sv0" 1 l1] s1 by (simp add: hall_new_def h1_def)
  moreover have "hall_step None h1 (Iterate 1 (Read_request ?req []) False) h2"
  proof -
    have "run_iteration l1 None (Read_request ?req []) False ?new sv0 = (Returns (), c1, sv)"
      using rd by (simp add: run_iteration_def l1_def c1_def HttpConnection_new_def)
    then show ?thesis
      using hall_iterate [of 1 h1 None "Read_request ?req []" False c1 sv]
      by (simp add: h1_def h2_def l1_def HttpConnection_new_def)
  qed
  moreover have "hall_step None h2 (Iterate 1 Read_error False) h3"
  proof -
    have "run_iteration l1 None Read_error False c1 sv = (Returns (), c2, sv)"
      using c(3) by (simp add: run_iteration_def readRequest_def c2_def)
    then show ?thesis
      using hall_iterate [of 1 h2 None Read_error False c2 sv] c by (simp add: h2_def h3_def l1_def)
  qed
  moreover have "hall_step None h3 (Listen (Closed 1 False)) h4"
    using hall_closed [of h3 1 l] s2 c by (simp add: h3_def h4_def)
  moreover have "hall_step None h4 (Listen (Connected 0)) h5"
    using hall_connected [of h4 0 l2] s3 by (simp add: h4_def h5_def)
  ultimately have "hall_run None (hall_new l sv0) two_clients h5"
    unfolding two_clients_def by (blast intro: hall_run_Cons hall_run.hall_none)
  then show thesis by (rule that) (simp_all add: h5_def l2_def)
qed

lemma clients_are_served_in_turn_witness:
  "serve_all (w_qListener (webserver_start (tracker_web list_lockfree 0 8080 4))) None
     [[(Read_request (get_request ''/keySent'') [], False), (Read_error, False)], []] tracker_server
   = tracker_server\<lparr>m_pMessageQueue :=
       queue_send list_lockfree (Message_strings cmd_addKey [] [] 0 0 0) (m_pMessageQueue tracker_server)\<rparr>"
proof -
  let ?l = "w_qListener (webserver_start (tracker_web list_lockfree 0 8080 4))"
  have s: "sessions two_clients = [[(Read_request (get_request ''/keySent'') [], False), (Read_error, False)], []]"
    by (simp add: sessions_def two_clients_def add_event_def)
  have "serve_all ?l None ss sv = serve_all (w_qListener (tracker_web list_lockfree 0 8080 4)) None ss sv" for ss sv
    by (simp add: serve_all_def serve_connection_def webserver_start_def listener_run_def listener_accept_def)
  note one = this
  obtain h where h: "hall_run None (hall_new ?l tracker_server) two_clients h"
    "h_state h = tracker_server\<lparr>m_pMessageQueue :=
       queue_send list_lockfree (Message_strings cmd_addKey [] [] 0 0 0) (m_pMessageQueue tracker_server)\<rparr>"
    by (rule two_clients_run [of tracker_server])
  show ?thesis using clients_are_served_in_turn [OF h(1)] h(2) unfolding s one by simp
qed

end
