(* ===== verification/System.thy ===== *)
theory System
  imports Tracker Sessions
begin

section \<open>The running tracker: clients, worker and backup timer (src/tracker.cpp)\<close>

text \<open>
  The threads of the running program over one state: the listener's threads with their connections, the
  worker of the message queue, and the thread of the backup timer, whose function is the backup. Any
  order of their steps is a run. The properties say which keys are counted after any run, and what a
  restore gives back after the timer has fired.
\<close>

subsection \<open>The step relation\<close>

text \<open>A thread of the backup timer is about to call its function when it has passed its test of \<open>m_running\<close>.\<close>

definition backup_fires :: "nat \<Rightarrow> 'q server \<Rightarrow> bool" where
  "backup_fires i sv =
     (let t = b_timer (m_pBackupManager sv)
      in i < length (t_threads t) \<and> t_threads t ! i = Calling)"

text \<open>One step of that thread; the function it calls is \<open>BackupManager::backupRequest\<close>.\<close>

definition backup_thread_step :: "filesystem \<Rightarrow> nat \<Rightarrow> 'q server \<Rightarrow> unit outcome \<times> 'q server" where
  "backup_thread_step fs i sv =
     (let b = m_pBackupManager sv; sv1 = sv\<lparr>m_pBackupManager := b\<lparr>b_timer := run_thread i (b_timer b)\<rparr>\<rparr>
      in if backup_fires i sv
         then (let (r, dk) = manager_backupRequest fs b (manager_of sv) (sv_disk sv)
               in (r, sv1\<lparr>sv_disk := dk\<rparr>))
         else (Returns (), sv1))"

datatype system_event =
    Client hall_event
  | Worker
  | Backup_timer nat

text \<open>
  A step that throws ends the process, and one that waits is not taken yet; neither leads to another state.
\<close>

inductive system_step ::
  "filesystem \<Rightarrow> 'q lockfree \<Rightarrow> string option \<Rightarrow> 'q server hall \<Rightarrow> system_event \<Rightarrow> 'q server hall \<Rightarrow> bool"
  for fs lf index where
  system_client: "hall_step index h e h' \<Longrightarrow> system_step fs lf index h (Client e) h'"
| system_worker:
    "run_step lf (m_pMessageQueue (h_state h)) = Returns st \<Longrightarrow>
     system_step fs lf index h Worker (h\<lparr>h_state := (h_state h)\<lparr>m_pMessageQueue := st\<rparr>\<rparr>)"
| system_timer:
    "i < length (t_threads (b_timer (m_pBackupManager (h_state h)))) \<Longrightarrow>
     backup_thread_step fs i (h_state h) = (Returns (), sv) \<Longrightarrow>
     system_step fs lf index h (Backup_timer i) (h\<lparr>h_state := sv\<rparr>)"

inductive_cases system_stepE:
  "system_step fs lf index h (Client e) h'" "system_step fs lf index h Worker h'"
  "system_step fs lf index h (Backup_timer i) h'"

inductive system_run ::
  "filesystem \<Rightarrow> 'q lockfree \<Rightarrow> string option \<Rightarrow> 'q server hall \<Rightarrow> system_event list \<Rightarrow> 'q server hall \<Rightarrow> bool"
  for fs lf index where
  system_none: "system_run fs lf index h [] h"
| system_next: "system_step fs lf index h e h1 \<Longrightarrow> system_run fs lf index h1 es h2 \<Longrightarrow> system_run fs lf index h (e # es) h2"

inductive_simps system_run_simps: "system_run fs lf index h [] h'" "system_run fs lf index h (e # es) h'"

text \<open>What \<open>main\<close> has after it started everything: nobody is connected yet.\<close>

definition tracker_hall :: "'q tracker \<Rightarrow> 'q server hall" where
  "tracker_hall tk = hall_new (w_qListener (tk_web tk)) (tk_server tk)"

subsection \<open>What the clients ask for\<close>

text \<open>The call of a functor that a request leads to: its target and its payload.\<close>

definition request_calls :: "http_request \<Rightarrow> string \<Rightarrow> (string \<times> string) list" where
  "request_calls rq buffer =
     (case rq_method rq of
        Get \<Rightarrow> if rq_target rq = ''/'' then [] else [(drop_slash (rq_target rq), [])]
      | Post \<Rightarrow>
          (case retrieveBody rq buffer of
             Inr (Some body) \<Rightarrow> if body = [] then [] else [(drop_slash (rq_target rq), body)]
           | _ \<Rightarrow> [])
      | Other_verb \<Rightarrow> [])"

definition event_calls :: "system_event \<Rightarrow> (string \<times> string) list" where
  "event_calls e = (case e of Client (Iterate i (Read_request rq buffer) ec) \<Rightarrow> request_calls rq buffer | _ \<Rightarrow> [])"

definition calls_of :: "system_event list \<Rightarrow> (string \<times> string) list" where
  "calls_of es = concat (map event_calls es)"

lemma calls_of_simps [simp]: "calls_of [] = []" "calls_of (e # es) = event_calls e @ calls_of es"
  by (simp_all add: calls_of_def)

lemma event_calls_cases:
  obtains (none) "event_calls e = []" | (one) t d where "event_calls e = [(t, d)]"
proof -
  have "\<exists>c. request_calls rq buffer = [] \<or> request_calls rq buffer = [c]" for rq buffer
    by (auto simp: request_calls_def split: verb.splits sum.splits option.splits)
  then have "event_calls e = [] \<or> (\<exists>c. event_calls e = [c])"
    by (auto simp: event_calls_def split: system_event.splits hall_event.splits read_result.splits)
  then show ?thesis using that by (metis prod.exhaust)
qed

lemma calls_of_length: "length (calls_of es) \<le> length es"
proof (induction es)
  case (Cons e es)
  then show ?case by (cases rule: event_calls_cases [of e]) simp_all
qed simp

text \<open>A payload is shorter than the read buffer.\<close>

lemma substr_length: "substr s pos n = Inr r \<Longrightarrow> length r \<le> unat n"
  by (auto simp: substr_def Let_def split: if_splits)

lemma retrieveBody_length: "retrieveBody rq buffer = Inr (Some body) \<Longrightarrow> length body < 4096"
proof -
  assume "retrieveBody rq buffer = Inr (Some body)"
  then obtain v pos n where "substr v pos n = Inr body" "\<not> ms_maxBufferSize \<le> n"
    by (auto simp: retrieveBody_def Let_def split: option.splits sum.splits if_splits)
  then show ?thesis
    using substr_length [of v pos n body] by (simp add: ms_maxBufferSize_def word_le_nat_alt)
qed

lemma request_calls_short: "(t, d) \<in> set (request_calls rq buffer) \<Longrightarrow> length d < 4096"
  by (auto simp: request_calls_def retrieveBody_length split: verb.splits sum.splits option.splits if_splits)

lemma calls_of_short: "(t, d) \<in> set (calls_of es) \<Longrightarrow> length d < 4096"
  by (auto simp: calls_of_def event_calls_def request_calls_short
      split: system_event.splits hall_event.splits read_result.splits)

subsection \<open>What a request does to the server\<close>

text \<open>No request touches the disk, the backup manager or the pointer to the manager.\<close>

definition same_backup :: "'q server \<Rightarrow> 'q server \<Rightarrow> bool" where
  "same_backup sv sv1 \<longleftrightarrow> m_pBackupManager sv1 = m_pBackupManager sv \<and> sv_disk sv1 = sv_disk sv
     \<and> m_pMapManager sv1 = m_pMapManager sv"

lemma same_backup_refl [simp]: "same_backup sv sv"
  by (simp add: same_backup_def)

lemma message_frames:
  "same_backup sv (snd (message_keySent lf d sv))" "same_backup sv (snd (message_isHotKey d sv))"
  "same_backup sv (snd (message_getTopHotKeys sv))" "same_backup sv (snd (message_totalKeys sv))"
  "same_backup sv (snd (message_setTopHotKeys lf d sv))" "same_backup sv (snd (message_signal reply sig sv))"
  "same_backup sv (snd (message_restore sv))" "same_backup sv (snd (message_time now sv))"
  by (simp_all add: same_backup_def message_keySent_def message_isHotKey_def message_getTopHotKeys_def
      message_totalKeys_def message_setTopHotKeys_def message_signal_def message_restore_def message_time_def
      split_beta split: sum.split exn.split)

lemma onMessage_frame: "onMessage lf now t d out sv = (r, sv1) \<Longrightarrow> same_backup sv sv1"
proof -
  have "same_backup sv (snd (if b then x else y))" if "same_backup sv (snd x)" "same_backup sv (snd y)"
    for b and x y :: "'a reply"
    using that by simp
  note branch = this
  assume eq: "onMessage lf now t d out sv = (r, sv1)"
  have "same_backup sv (snd (onMessage lf now t d out sv))"
    unfolding onMessage_def by (intro branch message_frames) simp
  then show ?thesis unfolding eq by simp
qed

lemma processRequest_call:
  assumes "processRequest (\<lambda>t out. onMessage lf now t [] out) (onMessage lf now) index rq buffer sv = (Returns rs, sv1)"
  shows "request_calls rq buffer = [] \<and> sv1 = sv
    \<or> (\<exists>t d reply. request_calls rq buffer = [(t, d)] \<and> onMessage lf now t d [] sv = (Returns reply, sv1))"
proof (cases "rq_method rq")
  case Get
  then show ?thesis
    using assms
    by (auto simp: processRequest_def createGetResponse_def request_calls_def Let_def split_beta prod_eq_iff
        split: option.splits outcome.splits if_splits)
next
  case Post
  then show ?thesis
    using assms
    by (auto simp: processRequest_def createPostResponse_def request_calls_def Let_def split_beta prod_eq_iff
        split: option.splits sum.splits outcome.splits if_splits)
next
  case Other_verb
  then show ?thesis
    using assms
    by (auto simp: processRequest_def request_calls_def Let_def split: sum.splits)
qed

text \<open>An iteration of a connection of the tracker: at most the one call that its input stands for.\<close>

definition tracker_functors :: "'q lockfree \<Rightarrow> nat \<Rightarrow> 'q server listener \<Rightarrow> bool" where
  "tracker_functors lf now l \<longleftrightarrow> call_get (l_getFunctor l) = (\<lambda>t out. onMessage lf now t [] out)
     \<and> call_post (l_postFunctor l) = onMessage lf now"

lemma run_iteration_call:
  assumes f: "tracker_functors lf now l" and r: "run_iteration l index input ec c sv = (Returns (), c1, sv1)"
  shows "event_calls (Client (Iterate i input ec)) = [] \<and> sv1 = sv
    \<or> (\<exists>t d reply. event_calls (Client (Iterate i input ec)) = [(t, d)] \<and> onMessage lf now t d [] sv = (Returns reply, sv1))"
proof (cases input)
  case (Read_request rq buffer)
  obtain res s1 where p: "processRequest (\<lambda>t out. onMessage lf now t [] out) (onMessage lf now) index rq buffer sv = (res, s1)"
    by (rule prod.exhaust)
  then obtain rs where "res = Returns rs" "s1 = sv1"
    using f r Read_request
    by (auto simp: run_iteration_def readRequest_def tracker_functors_def Let_def split: outcome.splits)
  then show ?thesis using processRequest_call p Read_request by (fastforce simp: event_calls_def)
qed (use r in \<open>simp_all add: run_iteration_def readRequest_def event_calls_def Let_def\<close>)

lemma hall_step_call:
  assumes "hall_step index h e h'" "tracker_functors lf now (h_listener h)"
  shows "tracker_functors lf now (h_listener h')
    \<and> (event_calls (Client e) = [] \<and> h_state h' = h_state h
      \<or> (\<exists>t d reply. event_calls (Client e) = [(t, d)] \<and> onMessage lf now t d [] (h_state h) = (Returns reply, h_state h')))"
  using assms
proof (induction rule: hall_step.induct)
  case (hall_iterate i h input ec c s)
  then show ?case using run_iteration_call by fastforce
qed (use listener_step_functors in \<open>fastforce simp: tracker_functors_def event_calls_def\<close>)+

subsection \<open>Every run keeps the server at work\<close>

text \<open>
  The invariant of a run, with room for \<open>n\<close> more requests, and what the manager will have counted when
  the worker has caught up.
\<close>

definition system_ok :: "('q \<Rightarrow> pointer list) \<Rightarrow> 'q lockfree \<Rightarrow> nat \<Rightarrow> nat \<Rightarrow> 'q server hall \<Rightarrow> bool" where
  "system_ok contents lf now n h \<longleftrightarrow>
     tracker_functors lf now (h_listener h) \<and> serving contents n (m_pMessageQueue (h_state h))"

abbreviation eventual_manager :: "('q \<Rightarrow> pointer list) \<Rightarrow> 'q server hall \<Rightarrow> map_manager" where
  "eventual_manager contents h \<equiv> eventual_consumer contents (m_pMessageQueue (h_state h))"

lemma serving_Suc: "serving contents (Suc n) st \<Longrightarrow> serving contents n st"
  by (erule serving_less) simp

lemma backup_thread_frame:
  "backup_thread_step fs i sv = (r, sv1) \<Longrightarrow> m_pMessageQueue sv1 = m_pMessageQueue sv"
  by (auto simp: backup_thread_step_def Let_def split_beta split: if_splits)

lemma system_ok_step:
  assumes lf: "fifo_queue lf contents" and ok: "system_ok contents lf now (Suc n) h"
    and step: "system_step fs lf index h e h'" and e: "''restore'' \<notin> fst ` set (event_calls e)"
  shows "system_ok contents lf now n h' \<and> eventual_manager contents h' =
    fold apply_message (messages_sent (event_calls e)) (eventual_manager contents h)"
  using step
proof cases
  case (system_client ev)
  have f: "tracker_functors lf now (h_listener h)" and s: "serving contents (Suc n) (m_pMessageQueue (h_state h))"
    using ok by (simp_all add: system_ok_def)
  note call = hall_step_call [OF system_client(2) f]
  show ?thesis
  proof (cases rule: event_calls_cases [of e])
    case none
    then show ?thesis
      using call system_client(1) serving_Suc [OF s] by (simp add: system_ok_def)
  next
    case (one t d)
    then obtain reply where ans: "onMessage lf now t d [] (h_state h) = (Returns reply, h_state h')"
      using call system_client(1) by auto
    have t: "t \<noteq> ''restore''" using e one by simp
    have "(t, d) \<in> set (calls_of [e])" using one by simp
    then have d: "length d < 2 ^ 64 - 1" using calls_of_short [of t d "[e]"] by simp
    have "rank_inv (manager_of (h_state h))" using s by (simp add: serving_def)
    then obtain r sv1 where "onMessage lf now t d [] (h_state h) = (Returns r, sv1)"
      "m_pMessageQueue sv1 = fold (queue_send lf) (messages_of t d) (m_pMessageQueue (h_state h))"
      by (rule onMessage_answers [OF _ t d])
    then have q: "m_pMessageQueue (h_state h') = fold (queue_send lf) (messages_of t d) (m_pMessageQueue (h_state h))"
      using ans by simp
    have ms: "messages_of t d = [] \<or> (\<exists>m. messages_of t d = [m] \<and> ordinary_message m)"
      by (cases rule: messages_of_cases [of t d]) auto
    show ?thesis
      using serving_send [OF lf s, of "messages_of t d"] ms call one by (auto simp: q system_ok_def)
  qed
next
  case (system_worker st)
  have s: "serving contents (Suc n) (m_pMessageQueue (h_state h))" using ok by (simp add: system_ok_def)
  obtain st1 where "run_step lf (m_pMessageQueue (h_state h)) = Returns st1" "serving contents (Suc n) st1"
    "eventual_consumer contents st1 = eventual_manager contents h"
    by (rule serving_step [OF lf s])
  then show ?thesis
    using system_worker ok serving_Suc [of contents n st] by (simp add: system_ok_def event_calls_def)
next
  case (system_timer i sv)
  then show ?thesis
    using ok serving_Suc [of contents n "m_pMessageQueue (h_state h)"] backup_thread_frame [OF system_timer(4)]
    by (simp add: system_ok_def event_calls_def)
qed

lemma messages_sent_append: "messages_sent (xs @ ys) = messages_sent xs @ messages_sent ys"
  by (simp add: messages_sent_def)

lemma system_ok_run:
  assumes lf: "fifo_queue lf contents"
  shows "system_run fs lf index h es h' \<Longrightarrow> system_ok contents lf now (length es + n) h \<Longrightarrow>
    ''restore'' \<notin> fst ` set (calls_of es) \<Longrightarrow> system_ok contents lf now n h' \<and> eventual_manager contents h' =
      fold apply_message (messages_sent (calls_of es)) (eventual_manager contents h)"
proof (induction rule: system_run.induct)
  case (system_next h e h1 es h2)
  then show ?case
    using system_ok_step [OF lf, of now "length es + n" h fs index e h1]
    by (simp add: image_Un messages_sent_append)
qed simp

text \<open>The worker alone, as a run of the system.\<close>

lemma worker_run:
  "run_queue lf (worker_steps n) (m_pMessageQueue (h_state h)) = Returns st \<Longrightarrow>
     system_run fs lf index h (replicate n Worker) (h\<lparr>h_state := (h_state h)\<lparr>m_pMessageQueue := st\<rparr>\<rparr>)"
proof (induction n arbitrary: h)
  case (Suc n)
  obtain st1 where st1: "run_step lf (m_pMessageQueue (h_state h)) = Returns st1"
    "run_queue lf (worker_steps n) st1 = Returns st"
    using Suc.prems by (auto split: outcome.splits)
  let ?h1 = "h\<lparr>h_state := (h_state h)\<lparr>m_pMessageQueue := st1\<rparr>\<rparr>"
  have "system_step fs lf index h Worker ?h1" by (rule system_worker [OF st1(1)])
  moreover have "system_run fs lf index ?h1 (replicate n Worker) (h\<lparr>h_state := (h_state h)\<lparr>m_pMessageQueue := st\<rparr>\<rparr>)"
    using Suc.IH [of ?h1] st1(2) by simp
  ultimately show ?case by (simp add: system_run.system_next)
next
  case 0
  then have st: "st = m_pMessageQueue (h_state h)" by simp
  have "h\<lparr>h_state := (h_state h)\<lparr>m_pMessageQueue := st\<rparr>\<rparr> = h"
    unfolding st by (cases h; cases "h_state h") simp
  then show ?case by (simp only: system_none replicate_0)
qed

subsection \<open>The ports\<close>

text \<open>No port is stored and none is on the way to be.\<close>

definition portless :: "('q \<Rightarrow> pointer list) \<Rightarrow> 'q queue_system \<Rightarrow> bool" where
  "portless contents st \<longleftrightarrow> (\<forall>p \<in> set (m_pKeyMap (consumer st)). kd_port (snd p) = 0)
     \<and> (\<forall>m \<in> set (pending contents st). m_number m = 0)"

lemma apply_message_portless:
  assumes "rank_inv mgr" "m_number m = 0" "\<forall>p \<in> set (m_pKeyMap mgr). kd_port (snd p) = 0"
  shows "\<forall>p \<in> set (m_pKeyMap (apply_message m mgr)). kd_port (snd p) = 0"
proof (cases "m_cmd m = cmd_addKey")
  case True
  then show ?thesis
    using assms set_insert_or_assign [of "m_str1 m" _ "m_pKeyMap mgr"]
    by (fastforce simp: apply_message_def addOrUpdateKey_eq [OF rank_invD(1,4) [OF assms(1)]])
next
  case False
  then have "m_pKeyMap (apply_message m mgr) = m_pKeyMap mgr"
    by (cases "m_cmd m") (simp_all add: apply_message_def setTopKeyReportBaseSize_def Let_def)
  then show ?thesis using assms(3) by simp
qed

lemma messages_of_numbers: "messages_of t d = [] \<or> map m_number (messages_of t d) = [0]"
proof (cases "t = ''keySent''")
  case True
  then show ?thesis
    by (cases "split_payload d"; cases "projr (split_payload d)") (simp_all add: messages_of_def)
next
  case False
  then show ?thesis by (cases "stoi d") (simp_all add: messages_of_def Message_numbers_def)
qed

lemma portless_send:
  assumes "fifo_queue lf contents" "queue_ok contents st" "portless contents st" "m_number m = 0"
  shows "portless contents (queue_send lf m st)"
  using assms queue_send_ok [OF assms(1,2), of m] by (auto simp: portless_def)

lemma portless_step:
  assumes lf: "fifo_queue lf contents" and ok: "system_ok contents lf now (Suc n) h" and p: "portless contents (m_pMessageQueue (h_state h))"
    and step: "system_step fs lf index h e h'" and e: "''restore'' \<notin> fst ` set (event_calls e)"
  shows "portless contents (m_pMessageQueue (h_state h'))"
  using step
proof cases
  case (system_client ev)
  have f: "tracker_functors lf now (h_listener h)" and w: "queue_ok contents (m_pMessageQueue (h_state h))"
    and inv: "rank_inv (manager_of (h_state h))"
    using ok by (simp_all add: system_ok_def serving_def working_def)
  note call = hall_step_call [OF system_client(2) f]
  show ?thesis
  proof (cases rule: event_calls_cases [of e])
    case none
    then show ?thesis using call system_client(1) p by simp
  next
    case (one t d)
    then obtain reply where ans: "onMessage lf now t d [] (h_state h) = (Returns reply, h_state h')"
      using call system_client(1) by auto
    have "(t, d) \<in> set (calls_of [e])" "t \<noteq> ''restore''" using one e by simp_all
    then have td: "t \<noteq> ''restore''" "length d < 2 ^ 64 - 1" using calls_of_short [of t d "[e]"] by simp_all
    obtain r sv1 where "onMessage lf now t d [] (h_state h) = (Returns r, sv1)"
      "m_pMessageQueue sv1 = fold (queue_send lf) (messages_of t d) (m_pMessageQueue (h_state h))"
      by (rule onMessage_answers [OF inv td])
    then have q: "m_pMessageQueue (h_state h') = fold (queue_send lf) (messages_of t d) (m_pMessageQueue (h_state h))"
      using ans by simp
    show ?thesis
      unfolding q using portless_send [OF lf w p] messages_of_numbers [of t d] p by (cases rule: messages_of_cases [of t d]) auto
  qed
next
  case (system_worker st)
  have w: "queue_ok contents (m_pMessageQueue (h_state h))" "rank_inv (consumer (m_pMessageQueue (h_state h)))"
    using ok by (simp_all add: system_ok_def serving_def working_def)
  show ?thesis
    using run_step_consumer [OF lf w(1) system_worker(3)]
  proof (elim disjE exE conjE)
    fix m assume m: "pending contents (m_pMessageQueue (h_state h)) = m # pending contents st"
      "consumer st = apply_message m (consumer (m_pMessageQueue (h_state h)))"
    then show ?thesis using apply_message_portless [OF w(2), of m] p system_worker(2) unfolding portless_def by simp
  qed (use p system_worker(2) in \<open>simp add: portless_def\<close>)
next
  case (system_timer i sv)
  then show ?thesis using p backup_thread_frame [OF system_timer(4)] by simp
qed

lemma portless_run:
  assumes lf: "fifo_queue lf contents"
  shows "system_run fs lf index h es h' \<Longrightarrow> system_ok contents lf now (length es + n) h \<Longrightarrow>
    portless contents (m_pMessageQueue (h_state h)) \<Longrightarrow> ''restore'' \<notin> fst ` set (calls_of es) \<Longrightarrow>
    portless contents (m_pMessageQueue (h_state h'))"
proof (induction rule: system_run.induct)
  case (system_next h e h1 es h2)
  have "system_ok contents lf now (Suc (length es + n)) h" using system_next.prems(1) by simp
  then show ?case
    using system_next portless_step [OF lf _ system_next.prems(2) system_next.hyps(1), of now "length es + n"]
      system_ok_step [OF lf _ system_next.hyps(1), of now "length es + n"]
    by (simp add: image_Un)
qed simp

subsection \<open>Where a run begins\<close>

text \<open>The parts of the tracker that \<open>main\<close> has built and started.\<close>

lemma tracker_started_parts:
  assumes "tracker_build make_address lf q dk now argv = Inr (Inr tk)"
  obtains v where "m_pMessageQueue (tk_server (tracker_start tk)) = started q (MapManager_new 10 20 v)"
    and "tracker_functors lf now (w_qListener (tk_web (tracker_start tk)))"
    and "sv_disk (tk_server (tracker_start tk)) = dk"
    and "b_keyFilename (m_pBackupManager (tk_server (tracker_start tk))) = b_keyFilename tracker_backup"
    and "b_frequencyFilename (m_pBackupManager (tk_server (tracker_start tk))) = b_frequencyFilename tracker_backup"
    and "m_pMapManager (tk_server (tracker_start tk))"
proof -
  have argv: "\<not> length argv < 3" "make_address (c_string (argv ! 1))"
    using assms by (auto simp: tracker_build_def Let_def split: if_splits)
  show ?thesis
    by (rule that [of "toUint (parse_verbosity argv)"])
      (use assms argv in \<open>auto simp: tracker_build_def tracker_constants MessageServer_new_def tracker_start_def messageServer_start_def
        started_def backup_start_def setFilenames_def BackupManager_new_def tracker_backup_def Let_def tracker_functors_def
        webserver_start_def setReporter_def setReporters_def WebServer_new_def listener_run_def listener_accept_def
        Listener_new_def call_get_def call_post_def onGetMessage_def fun_eq_iff\<close>)
qed

lemma tracker_started_web:
  assumes "tracker_build make_address lf q dk now argv = Inr (Inr tk)"
  shows "w_qListener (tk_web (tracker_start tk)) =
    w_qListener (webserver_start (tracker_web lf now (parse_port argv) (parse_threads argv)))"
  using assms by (auto simp: tracker_build_def MessageServer_new_def tracker_start_def messageServer_start_def
      webserver_start_def tracker_web_def Let_def split: if_splits)

lemma system_ok_started:
  assumes build: "tracker_build make_address lf q dk now argv = Inr (Inr tk)" and q: "contents q = []" and n: "n < 2 ^ 64"
  obtains v where "system_ok contents lf now n (tracker_hall (tracker_start tk))"
    and "eventual_manager contents (tracker_hall (tracker_start tk)) = MapManager_new 10 20 v"
proof (rule tracker_started_parts [OF build])
  fix v assume "m_pMessageQueue (tk_server (tracker_start tk)) = started q (MapManager_new 10 20 v)"
    "tracker_functors lf now (w_qListener (tk_web (tracker_start tk)))"
  then show thesis
    using that [of v] serving_started [of contents q n 10 20 v, OF q n] eventual_started [of contents q, OF q]
    by (simp add: system_ok_def tracker_hall_def hall_new_def)
qed

subsection \<open>What a run does to the files\<close>

text \<open>How often the backup timer has called its function.\<close>

abbreviation timer_calls :: "'q server hall \<Rightarrow> nat" where
  "timer_calls h \<equiv> t_calls (b_timer (m_pBackupManager (h_state h)))"

text \<open>The names of the files stay, and the files themselves as long as the timer does not fire.\<close>

definition same_files :: "'q server \<Rightarrow> 'q server \<Rightarrow> bool" where
  "same_files sv sv1 \<longleftrightarrow> b_keyFilename (m_pBackupManager sv1) = b_keyFilename (m_pBackupManager sv)
     \<and> b_frequencyFilename (m_pBackupManager sv1) = b_frequencyFilename (m_pBackupManager sv)
     \<and> t_calls (b_timer (m_pBackupManager sv)) \<le> t_calls (b_timer (m_pBackupManager sv1))
     \<and> (t_calls (b_timer (m_pBackupManager sv1)) = t_calls (b_timer (m_pBackupManager sv)) \<longrightarrow> sv_disk sv1 = sv_disk sv)"

lemma same_files_backup: "same_backup sv sv1 \<Longrightarrow> same_files sv sv1"
  by (simp add: same_backup_def same_files_def)

lemma same_files_timer: "backup_thread_step fs i sv = (r, sv1) \<Longrightarrow> same_files sv sv1"
  by (auto simp: backup_thread_step_def backup_fires_def same_files_def run_thread_def Let_def split_beta split: if_splits)

lemma hall_step_backup:
  assumes "hall_step index h e h'" "tracker_functors lf now (h_listener h)"
  shows "same_backup (h_state h) (h_state h')"
  using hall_step_call [OF assms] onMessage_frame by (metis same_backup_refl)

lemma system_step_files:
  assumes "system_step fs lf index h e h'" "tracker_functors lf now (h_listener h)"
  shows "tracker_functors lf now (h_listener h') \<and> same_files (h_state h) (h_state h')"
  using assms
proof (induction rule: system_step.induct)
  case (system_client h e h')
  then show ?case
    using hall_step_call [OF system_client] same_files_backup [OF hall_step_backup [OF system_client]] by blast
next
  case (system_worker h st)
  then show ?case by (simp add: same_files_def)
next
  case (system_timer i h sv)
  then show ?case using same_files_timer by simp
qed

lemma system_run_files:
  "system_run fs lf index h es h' \<Longrightarrow> tracker_functors lf now (h_listener h) \<Longrightarrow>
     tracker_functors lf now (h_listener h') \<and> same_files (h_state h) (h_state h')"
proof (induction rule: system_run.induct)
  case (system_next h e h1 es h2)
  note system_step_files [OF system_next.hyps(1) system_next.prems]
  then show ?case using system_next.IH by (auto simp: same_files_def)
qed (simp add: same_files_def)

text \<open>The backups of a run leave the disk usable.\<close>

lemma usable_disk_backup [simp]:
  "usable_disk kf ff (snd (backupRequest kname fname dk mm)) = usable_disk kf ff dk"
  by (simp add: backupRequest_def Let_def split_beta)

lemma usable_disk_manager_backup:
  assumes "posix_files fs" "names_of b kname fname ext"
  shows "usable_disk kf ff (snd (manager_backupRequest fs b mgr dk)) = usable_disk kf ff dk"
proof -
  obtain g where g: "renameFiles fs b dk = (Returns (), dk\<lparr>dk_files := g\<rparr>)"
    by (rule renameFiles_rotates [OF assms, of dk])
  show ?thesis by (simp add: manager_backupRequest_def g split_beta)
qed

abbreviation tracker_files :: "'q server \<Rightarrow> bool" where
  "tracker_files sv \<equiv> b_keyFilename (m_pBackupManager sv) = b_keyFilename tracker_backup
     \<and> b_frequencyFilename (m_pBackupManager sv) = b_frequencyFilename tracker_backup"

lemma names_of_tracker_files: "tracker_files sv \<Longrightarrow> names_of (m_pBackupManager sv) ''keys'' ''frequencies'' ''csv''"
  using names_of_tracker by (simp add: names_of_def)

lemma usable_disk_step:
  assumes fs: "posix_files fs" and step: "system_step fs lf index h e h'" and f: "tracker_functors lf now (h_listener h)"
    and files: "tracker_files (h_state h)"
  shows "usable_disk kf ff (sv_disk (h_state h')) = usable_disk kf ff (sv_disk (h_state h))"
  using step
proof cases
  case (system_client ev)
  then show ?thesis using hall_step_backup [OF system_client(2) f] by (simp add: same_backup_def)
next
  case (system_timer i sv)
  have "usable_disk kf ff (snd (manager_backupRequest fs (m_pBackupManager (h_state h)) mgr (sv_disk (h_state h))))
      = usable_disk kf ff (sv_disk (h_state h))" for mgr
    by (rule usable_disk_manager_backup [OF fs names_of_tracker_files [OF files]])
  then show ?thesis
    using system_timer by (auto simp: backup_thread_step_def Let_def split_beta split: if_splits)
qed simp

lemma usable_disk_run:
  assumes fs: "posix_files fs"
  shows "system_run fs lf index h es h' \<Longrightarrow> tracker_functors lf now (h_listener h) \<Longrightarrow> tracker_files (h_state h) \<Longrightarrow>
    usable_disk kf ff (sv_disk (h_state h')) = usable_disk kf ff (sv_disk (h_state h)) \<and> tracker_files (h_state h')"
proof (induction rule: system_run.induct)
  case (system_next h e h1 es h2)
  then show ?case
    using usable_disk_step [OF fs system_next.hyps(1) system_next.prems]
      system_step_files [OF system_next.hyps(1) system_next.prems(1)] by (auto simp: same_files_def)
qed simp

text \<open>A backup of a manager whose entries can be stored: what it returns, and what the files then restore.\<close>

lemma manager_backup_rereads:
  assumes ready: "backup_ready fs b kname fname ext dk" and inv: "rank_inv mgr"
    and entries: "\<forall>q \<in> set (m_pKeyMap mgr). one_line q \<and> (\<exists>d. reread (snd q) = Inr d)"
  obtains dk1 where "manager_backupRequest fs b mgr dk = (Returns (), dk1)"
    and "\<And>mm. manager_restoreRequest b dk1 mm = (Returns True, notify_one (mm\<lparr>m_pKeyMap := map reread_entry (m_pKeyMap mgr),
      m_pFrequencyMap := m_pFrequencyMap mgr, m_writingData := 0\<rparr>))"
proof (rule manager_backup_eq [OF ready, of mgr])
  fix dk1 assume dk1: "renameFiles fs b dk = (Returns (), dk1)" "usable_disk (b_keyFilename b) (b_frequencyFilename b) dk1"
  obtain dk2 where "backupRequest (b_keyFilename b) (b_frequencyFilename b) dk1 mgr = (Returns True, dk2)"
    "\<And>mm. restoreRequest (b_keyFilename b) (b_frequencyFilename b) dk2 mm = (Returns True, notify_one (mm
      \<lparr>m_pKeyMap := map reread_entry (m_pKeyMap mgr), m_pFrequencyMap := m_pFrequencyMap mgr, m_writingData := 0\<rparr>))"
    using backup_then_reread [OF inv dk1(2) entries] by blast
  then show thesis
    using that dk1(1) by (simp add: manager_backupRequest_def manager_restoreRequest_def)
qed

lemma manager_backup_restores:
  assumes ready: "backup_ready fs b kname fname ext dk" and mgr: "savable mgr"
  obtains dk1 where "manager_backupRequest fs b mgr dk = (Returns (), dk1)"
    and "\<And>mm. manager_restoreRequest b dk1 mm = (Returns True, notify_one (mm\<lparr>m_pKeyMap := m_pKeyMap mgr,
      m_pFrequencyMap := m_pFrequencyMap mgr, m_writingData := 0\<rparr>))"
proof -
  have read: "one_line q \<and> reread (snd q) = Inr (snd q)" if "q \<in> set (m_pKeyMap mgr)" for q
    using mgr that storable_one_line [of q] by (auto simp: savable_def)
  then have "map reread_entry (m_pKeyMap mgr) = m_pKeyMap mgr" by (intro map_idI) (simp add: reread_entry_def)
  moreover have "rank_inv mgr" "\<forall>q \<in> set (m_pKeyMap mgr). one_line q \<and> (\<exists>d. reread (snd q) = Inr d)"
    using mgr read by (auto simp: savable_def)
  ultimately show ?thesis using manager_backup_rereads [OF ready, of mgr] that by metis
qed

subsection \<open>Properties\<close>

text \<open>
  C4. The running program counts every key. For every command line that \<open>main\<close> accepts and every run of
  what it starts, with any number of clients, steps of the worker and firings of the backup timer in any
  order and no request to restore: from the state reached, three steps of the worker for each pending
  message (and one) are a run of the program, and then the manager is the initial one with all the
  messages of the requests applied in the order of the requests, its count of each key is how often a
  request reported it, and no message is left on the heap.
\<close>

theorem system_counts_every_key:
  assumes lf: "fifo_queue lf contents" and q: "contents q = []"
    and build: "tracker_build make_address lf q dk now argv = Inr (Inr tk)"
    and run: "system_run fs lf index (tracker_hall (tracker_start tk)) es h"
    and no_restore: "''restore'' \<notin> fst ` set (calls_of es)" and few: "length es < 2 ^ 64 - 1"
    and steps: "3 * length (pending contents (m_pMessageQueue (h_state h))) + 1 \<le> steps"
  shows "\<exists>h' v. system_run fs lf index h (replicate steps Worker) h'
    \<and> manager_of (h_state h') = fold apply_message (messages_sent (calls_of es)) (MapManager_new 10 20 v)
    \<and> (\<forall>k. frequency_of (manager_of (h_state h')) k = count_list (keys_sent (calls_of es)) k)
    \<and> heap (m_pMessageQueue (h_state h')) = (\<lambda>_. None)"
proof -
  let ?ms = "messages_sent (calls_of es)"
  have "length es < 2 ^ 64" using few by simp
  then obtain v where start: "system_ok contents lf now (length es + 0) (tracker_hall (tracker_start tk))"
    "eventual_manager contents (tracker_hall (tracker_start tk)) = MapManager_new 10 20 v"
    using system_ok_started [OF build, of contents "length es"] q by auto
  have ok: "system_ok contents lf now 0 h" "eventual_manager contents h = fold apply_message ?ms (MapManager_new 10 20 v)"
    using system_ok_run [OF lf run start(1) no_restore] start(2) by simp_all
  have w: "working contents (m_pMessageQueue (h_state h))" using ok(1) by (simp add: system_ok_def serving_def)
  obtain st where st: "run_queue lf (worker_steps steps) (m_pMessageQueue (h_state h)) = Returns st"
    "consumer st = eventual_manager contents h" "heap st = (\<lambda>_. None)"
    using run_queue_drains [OF lf w steps] by blast
  have "length ?ms < 2 ^ 64"
    using messages_sent_length [of "calls_of es"] calls_of_length [of es] few by linarith
  moreover have "\<forall>(t, d) \<in> set (calls_of es). length d < 2 ^ 64 - 1"
    using calls_of_short by fastforce
  ultimately have "frequency_of (fold apply_message ?ms (MapManager_new 10 20 v)) k = count_list (keys_sent (calls_of es)) k" for k
    using fold_apply_message_counts [OF rank_inv_new, of 10 20 v ?ms k] adds_messages_sent [of "calls_of es" k] by simp
  then show ?thesis
    using worker_run [OF st(1), of fs index] st(2,3) ok(2)
    by (intro exI [of _ "h\<lparr>h_state := (h_state h)\<lparr>m_pMessageQueue := st\<rparr>\<rparr>"] exI [of _ v]) simp
qed

text \<open>A run of the program: two clients, the first of whom reports a key.\<close>

lemma system_run_append:
  "system_run fs lf index h xs h1 \<Longrightarrow> system_run fs lf index h1 ys h2 \<Longrightarrow> system_run fs lf index h (xs @ ys) h2"
  by (induction rule: system_run.induct) (auto intro: system_run.system_next)

lemma hall_run_system: "hall_run index h es h' \<Longrightarrow> system_run fs lf index h (map Client es) h'"
proof (induction rule: hall_run.induct)
  case (hall_next h es h1 e h2)
  then show ?case
    using system_run_append [of fs lf index h "map Client es" h1 "[Client e]" h2]
    by (auto intro: system_run.intros system_step.intros)
qed (simp add: system_none)

definition tracker_argv :: "string list" where
  "tracker_argv = [''tracker'', ''0.0.0.0'', ''8080'', ''4'']"

lemma tracker_argv_build:
  obtains tk where "tracker_build (\<lambda>_. True) list_lockfree [] empty_disk 0 tracker_argv = Inr (Inr tk)"
    and "w_qListener (tk_web (tracker_start tk)) = w_qListener (webserver_start (tracker_web list_lockfree 0 8080 4))"
    and "b_timer (m_pBackupManager (tk_server (tracker_start tk))) =
      \<lparr>t_periodic = True, t_running = True, t_interval = 3600000, t_threads = [Loop_head], t_calls = 0\<rparr>"
proof -
  have args: "parse_threads tracker_argv = 4" "parse_port tracker_argv = 8080" "length tracker_argv = 4"
    by code_simp+
  show ?thesis
    by (rule that [of "projr (projr (tracker_build (\<lambda>_. True) list_lockfree [] empty_disk 0 tracker_argv))"])
      (simp_all add: tracker_build_def tracker_constants args Let_def MessageServer_new_def tracker_start_def messageServer_start_def
        webserver_start_def tracker_web_def backup_start_def setFilenames_def BackupManager_new_def Timer_new_def
        getInterval_def timer_start_record c_string_def NUL_def)
qed

lemma two_clients_system:
  obtains tk h v where "tracker_build (\<lambda>_. True) list_lockfree [] empty_disk 0 tracker_argv = Inr (Inr tk)"
    and "system_run disk_filesystem list_lockfree None (tracker_hall (tracker_start tk)) (map Client two_clients) h"
    and "m_pMessageQueue (h_state h) = queue_send list_lockfree (Message_strings cmd_addKey [] [] 0 0 0)
      (started [] (MapManager_new 10 20 v))"
    and "b_timer (m_pBackupManager (h_state h)) =
      \<lparr>t_periodic = True, t_running = True, t_interval = 3600000, t_threads = [Loop_head], t_calls = 0\<rparr>"
    and "l_threads (h_listener h) = [Serving, Idle, Idle, Idle]" "c_running (h_connections h 0)"
proof -
  obtain tk where build: "tracker_build (\<lambda>_. True) list_lockfree [] empty_disk 0 tracker_argv = Inr (Inr tk)"
    "w_qListener (tk_web (tracker_start tk)) = w_qListener (webserver_start (tracker_web list_lockfree 0 8080 4))"
    "b_timer (m_pBackupManager (tk_server (tracker_start tk))) =
      \<lparr>t_periodic = True, t_running = True, t_interval = 3600000, t_threads = [Loop_head], t_calls = 0\<rparr>"
    by (rule tracker_argv_build)
  obtain h where h: "hall_run None (tracker_hall (tracker_start tk)) two_clients h"
    "h_state h = (tk_server (tracker_start tk))\<lparr>m_pMessageQueue := queue_send list_lockfree
      (Message_strings cmd_addKey [] [] 0 0 0) (m_pMessageQueue (tk_server (tracker_start tk)))\<rparr>"
    "l_threads (h_listener h) = [Serving, Idle, Idle, Idle]" "c_running (h_connections h 0)"
    by (rule two_clients_run [of "tk_server (tracker_start tk)"]) (simp add: tracker_hall_def build(2))
  obtain v where v: "m_pMessageQueue (tk_server (tracker_start tk)) = started [] (MapManager_new 10 20 v)"
    by (rule tracker_started_parts [OF build(1)])
  show ?thesis
    by (rule that [OF build(1) hall_run_system [OF h(1)], of v]) (simp_all add: h(2-4) v build(3))
qed

lemma two_clients_calls: "calls_of (map Client two_clients) = [(''keySent'', [])]"
  by (simp add: two_clients_def event_calls_def request_calls_def get_request_def drop_slash_def)

lemma one_pending:
  "length (pending (\<lambda>q. q) (queue_send list_lockfree m (started [] mgr))) = 1"
  by (simp add: pending_def started_eq queue_send_def new_message_def queue_push_def list_lockfree_def
      pending_pointers_def held_def Let_def)

lemma system_counts_every_key_witness:
  "\<exists>tk h h'. tracker_build (\<lambda>_. True) list_lockfree [] empty_disk 0 tracker_argv = Inr (Inr tk)
    \<and> system_run disk_filesystem list_lockfree None (tracker_hall (tracker_start tk)) (map Client two_clients) h
    \<and> system_run disk_filesystem list_lockfree None h (replicate 4 Worker) h'
    \<and> frequency_of (manager_of (h_state h')) [] = 1"
proof (rule two_clients_system)
  fix tk h and v :: uint
  assume build: "tracker_build (\<lambda>_. True) list_lockfree [] empty_disk 0 tracker_argv = Inr (Inr tk)"
    and run: "system_run disk_filesystem list_lockfree None (tracker_hall (tracker_start tk)) (map Client two_clients) h"
    and h: "m_pMessageQueue (h_state h) = queue_send list_lockfree (Message_strings cmd_addKey [] [] 0 0 0)
      (started [] (MapManager_new 10 20 v))"
  have "length (pending (\<lambda>q. q) (m_pMessageQueue (h_state h))) = 1" unfolding h by (rule one_pending)
  moreover have "length (map Client two_clients) < 2 ^ 64 - 1" by (simp add: two_clients_def)
  moreover have "count_list (keys_sent [(''keySent'', [])]) [] = 1" by (simp add: keys_sent_def key_of_def)
  ultimately obtain h' where "system_run disk_filesystem list_lockfree None h (replicate 4 Worker) h'"
    "frequency_of (manager_of (h_state h')) [] = 1"
    using system_counts_every_key [OF fifo_list refl build run, of 4] unfolding two_clients_calls by auto
  then show ?thesis using run build by blast
qed

text \<open>
  C14. No reported port is ever stored. For every command line that \<open>main\<close> accepts and every run of what it
  starts, with any number of clients, whatever ports they report, and no request to restore: every key that the
  manager holds has port 0, and so has every message that the worker has still to handle.
\<close>

theorem stored_ports_are_zero:
  assumes lf: "fifo_queue lf contents" and q: "contents q = []"
    and build: "tracker_build make_address lf q dk now argv = Inr (Inr tk)"
    and run: "system_run fs lf index (tracker_hall (tracker_start tk)) es h"
    and no_restore: "''restore'' \<notin> fst ` set (calls_of es)" and few: "length es < 2 ^ 64"
  shows "(\<forall>p \<in> set (m_pKeyMap (manager_of (h_state h))). kd_port (snd p) = 0)
    \<and> (\<forall>m \<in> set (pending contents (m_pMessageQueue (h_state h))). getNumber m = 0)"
proof -
  obtain v where "system_ok contents lf now (length es + 0) (tracker_hall (tracker_start tk))"
    using system_ok_started [OF build, of contents "length es"] q few by auto
  moreover have "portless contents (m_pMessageQueue (h_state (tracker_hall (tracker_start tk))))"
    by (rule tracker_started_parts [OF build]) (simp add: tracker_hall_def hall_new_def portless_def started_eq
        MapManager_new_def pending_def pending_pointers_def held_def q)
  ultimately have "portless contents (m_pMessageQueue (h_state h))" using portless_run [OF lf run] no_restore by blast
  then show ?thesis by (simp add: portless_def)
qed

lemma stored_ports_are_zero_witness:
  "\<exists>tk h. tracker_build (\<lambda>_. True) list_lockfree [] empty_disk 0 tracker_argv = Inr (Inr tk)
    \<and> system_run disk_filesystem list_lockfree None (tracker_hall (tracker_start tk)) (map Client two_clients) h
    \<and> length (pending (\<lambda>q. q) (m_pMessageQueue (h_state h))) = 1
    \<and> (\<forall>m \<in> set (pending (\<lambda>q. q) (m_pMessageQueue (h_state h))). getNumber m = 0)"
proof (rule two_clients_system)
  fix tk h and v :: uint
  assume build: "tracker_build (\<lambda>_. True) list_lockfree [] empty_disk 0 tracker_argv = Inr (Inr tk)"
    and run: "system_run disk_filesystem list_lockfree None (tracker_hall (tracker_start tk)) (map Client two_clients) h"
    and h: "m_pMessageQueue (h_state h) = queue_send list_lockfree (Message_strings cmd_addKey [] [] 0 0 0)
      (started [] (MapManager_new 10 20 v))"
  have "length (pending (\<lambda>q. q) (m_pMessageQueue (h_state h))) = 1" unfolding h by (rule one_pending)
  moreover have "length (map Client two_clients) < 2 ^ 64" by (simp add: two_clients_def)
  ultimately show ?thesis
    using stored_ports_are_zero [OF fifo_list refl build run] build run unfolding two_clients_calls by auto
qed

text \<open>A request to restore succeeds and sets both maps.\<close>

definition restores_maps :: "strdetailsMap \<Rightarrow> ulongstrMap \<Rightarrow> 'q lockfree \<Rightarrow> nat \<Rightarrow> 'q server \<Rightarrow> bool" where
  "restores_maps km fm lf now sv \<longleftrightarrow> (\<forall>d. \<exists>sv1.
     onMessage lf now ''restore'' d [] sv = (Returns (CMD_SUCCEEDED, ''Restored OK.''), sv1)
     \<and> m_pKeyMap (manager_of sv1) = km \<and> m_pFrequencyMap (manager_of sv1) = fm)"

lemma restores_mapsI:
  assumes "\<And>mm. manager_restoreRequest (m_pBackupManager sv) (sv_disk sv) mm =
    (Returns True, notify_one (mm\<lparr>m_pKeyMap := km, m_pFrequencyMap := fm, m_writingData := 0\<rparr>))"
  shows "restores_maps km fm lf now sv"
  using assms by (simp add: restores_maps_def onMessage_defs notify_one_def)

text \<open>A firing of the timer: the step, and which servers restore what it saved.\<close>

lemma backup_fired:
  assumes fs: "posix_files fs" and mgr: "savable (manager_of (h_state h))" and fires: "backup_fires i (h_state h)"
    and files: "tracker_files (h_state h)" "usable_disk ''keys.csv'' ''frequencies.csv'' (sv_disk (h_state h))"
  obtains sv1 where "system_step fs lf index h (Backup_timer i) (h\<lparr>h_state := sv1\<rparr>)" "tracker_files sv1"
    and "\<forall>time sv. sv_disk sv = sv_disk sv1 \<longrightarrow> tracker_files sv \<longrightarrow>
      restores_maps (m_pKeyMap (manager_of (h_state h))) (m_pFrequencyMap (manager_of (h_state h))) lf time sv"
proof -
  let ?b = "m_pBackupManager (h_state h)" and ?mgr = "manager_of (h_state h)"
  have names: "b_keyFilename ?b = ''keys.csv''" "b_frequencyFilename ?b = ''frequencies.csv''"
    using files(1) by (simp_all add: tracker_backup_def setFilenames_def c_string_def NUL_def)
  have "backup_ready fs ?b ''keys'' ''frequencies'' ''csv'' (sv_disk (h_state h))"
    using fs names_of_tracker_files [OF files(1)] files(2) names by (simp add: backup_ready_def)
  then obtain dk1 where dk1: "manager_backupRequest fs ?b ?mgr (sv_disk (h_state h)) = (Returns (), dk1)"
    "\<And>b mm. b_keyFilename b = b_keyFilename ?b \<Longrightarrow> b_frequencyFilename b = b_frequencyFilename ?b \<Longrightarrow>
      manager_restoreRequest b dk1 mm = (Returns True, notify_one (mm\<lparr>m_pKeyMap := m_pKeyMap ?mgr,
        m_pFrequencyMap := m_pFrequencyMap ?mgr, m_writingData := 0\<rparr>))"
    using manager_backup_restores [OF _ mgr] unfolding manager_restoreRequest_def by metis
  let ?sv1 = "(h_state h)\<lparr>m_pBackupManager := ?b\<lparr>b_timer := run_thread i (b_timer ?b)\<rparr>, sv_disk := dk1\<rparr>"
  have call: "backup_thread_step fs i (h_state h) = (Returns (), ?sv1)"
    using fires dk1(1) by (simp add: backup_thread_step_def Let_def)
  then have step: "system_step fs lf index h (Backup_timer i) (h\<lparr>h_state := ?sv1\<rparr>)"
    using fires by (intro system_timer) (auto simp: backup_fires_def Let_def)
  have restores: "restores_maps (m_pKeyMap ?mgr) (m_pFrequencyMap ?mgr) lf time sv"
    if "sv_disk sv = sv_disk ?sv1" "tracker_files sv" for time sv
  proof (rule restores_mapsI)
    show "manager_restoreRequest (m_pBackupManager sv) (sv_disk sv) mm = (Returns True, notify_one (mm\<lparr>m_pKeyMap := m_pKeyMap ?mgr,
        m_pFrequencyMap := m_pFrequencyMap ?mgr, m_writingData := 0\<rparr>))" for mm
      using dk1(2) [of "m_pBackupManager sv"] that files(1) by simp
  qed
  show ?thesis by (rule that [OF step]) (use files(1) restores in simp_all)
qed

text \<open>
  C7. What the backup timer saved can be restored, also after a restart of the program. Take any run,
  without a request to restore, of what \<open>main\<close> starts on a disk that can be read and written, to a state in
  which a thread of the backup timer is about to call its function and the entries of the manager can be
  stored. Then the call returns, and after any further run in which the timer does not call its function
  again, whatever the clients and the worker have done meanwhile, a request to restore succeeds and gives
  back the two maps the manager had when the timer fired, in the running program and in every program that
  is started later on the disk it leaves.
\<close>

theorem timer_backup_restores:
  assumes lf: "fifo_queue lf contents" and q: "contents q = []" and fs: "posix_files fs"
    and build: "tracker_build make_address lf q dk now argv = Inr (Inr tk)"
    and disk: "usable_disk ''keys.csv'' ''frequencies.csv'' dk"
    and run: "system_run fs lf index (tracker_hall (tracker_start tk)) es h"
    and no_restore: "''restore'' \<notin> fst ` set (calls_of es)" and few: "length es < 2 ^ 64"
    and fires: "backup_fires i (h_state h)"
    and entries: "\<forall>p \<in> set (m_pKeyMap (manager_of (h_state h))). storable p \<and> unat (kd_port (snd p)) < 2 ^ 31"
  shows "\<exists>h1. system_step fs lf index h (Backup_timer i) h1
    \<and> (\<forall>es2 h2. system_run fs lf index h1 es2 h2 \<longrightarrow> timer_calls h2 = timer_calls h1 \<longrightarrow>
        restores_maps (m_pKeyMap (manager_of (h_state h))) (m_pFrequencyMap (manager_of (h_state h))) lf now (h_state h2)
      \<and> (\<forall>later args tk2. tracker_build make_address lf q (sv_disk (h_state h2)) later args = Inr (Inr tk2) \<longrightarrow>
          restores_maps (m_pKeyMap (manager_of (h_state h))) (m_pFrequencyMap (manager_of (h_state h))) lf later
            (tk_server (tracker_start tk2))))"
proof -
  let ?h0 = "tracker_hall (tracker_start tk)" and ?mgr = "manager_of (h_state h)"
  let ?restores = "restores_maps (m_pKeyMap ?mgr) (m_pFrequencyMap ?mgr) lf"
  obtain v where "system_ok contents lf now (length es) ?h0"
    using system_ok_started [OF build, of contents "length es"] q few by blast
  then have "system_ok contents lf now 0 h"
    using system_ok_run [OF lf run, of now 0] no_restore by simp
  then have mgr: "savable ?mgr" and f: "tracker_functors lf now (h_listener h)"
    using entries by (simp_all add: system_ok_def serving_def savable_def)
  have start: "tracker_functors lf now (h_listener ?h0)" "tracker_files (h_state ?h0)" "sv_disk (h_state ?h0) = dk"
    by (rule tracker_started_parts [OF build]; simp add: tracker_hall_def hall_new_def)+
  have files: "tracker_files (h_state h)" "usable_disk ''keys.csv'' ''frequencies.csv'' (sv_disk (h_state h))"
    using usable_disk_run [OF fs run start(1,2)] disk start(3) by simp_all
  obtain sv1 where step: "system_step fs lf index h (Backup_timer i) (h\<lparr>h_state := sv1\<rparr>)" and files1: "tracker_files sv1"
    and "\<forall>time sv. sv_disk sv = sv_disk sv1 \<longrightarrow> tracker_files sv \<longrightarrow> ?restores time sv"
    by (rule backup_fired [OF fs mgr fires files, where lf = lf and index = index])
  then have restores: "?restores time sv" if "sv_disk sv = sv_disk sv1" "tracker_files sv" for time sv
    using that by blast
  let ?h1 = "h\<lparr>h_state := sv1\<rparr>"
  have "?restores now (h_state h2) \<and> (\<forall>later args tk2.
      tracker_build make_address lf q (sv_disk (h_state h2)) later args = Inr (Inr tk2) \<longrightarrow>
      ?restores later (tk_server (tracker_start tk2)))"
    if "system_run fs lf index ?h1 es2 h2" "timer_calls h2 = timer_calls ?h1" for es2 h2
  proof -
    have "same_files sv1 (h_state h2)" using system_run_files [OF that(1)] f by simp
    then have same: "sv_disk (h_state h2) = sv_disk sv1" "tracker_files (h_state h2)"
      using that(2) files1 by (simp_all add: same_files_def)
    have "?restores later (tk_server (tracker_start tk2))"
      if "tracker_build make_address lf q (sv_disk (h_state h2)) later args = Inr (Inr tk2)" for later args tk2
      by (rule tracker_started_parts [OF that]) (rule restores, simp_all add: same(1))
    then show ?thesis using restores same by blast
  qed
  then show ?thesis using step by blast
qed

text \<open>The same run, until the worker has caught up and the timer's thread has slept.\<close>

lemma timer_sleeps:
  assumes t: "b_timer (m_pBackupManager (h_state h)) =
      \<lparr>t_periodic = p, t_running = True, t_interval = ms, t_threads = [Loop_head], t_calls = n\<rparr>"
  obtains h1 where "system_run fs lf index h [Backup_timer 0, Backup_timer 0, Backup_timer 0] h1" "backup_fires 0 (h_state h1)"
    "manager_of (h_state h1) = manager_of (h_state h)"
proof -
  let ?sleep = "\<lambda>sv pc. sv\<lparr>m_pBackupManager := (m_pBackupManager sv)\<lparr>b_timer :=
      \<lparr>t_periodic = p, t_running = True, t_interval = ms, t_threads = [pc], t_calls = n\<rparr>\<rparr>\<rparr>"
  let ?s1 = "?sleep (h_state h) Sleeping" and ?s2 = "?sleep (?sleep (h_state h) Sleeping) Woken"
    and ?s3 = "?sleep (?sleep (?sleep (h_state h) Sleeping) Woken) Calling"
  have "backup_thread_step fs 0 (h_state h) = (Returns (), ?s1)" "backup_thread_step fs 0 ?s1 = (Returns (), ?s2)"
    "backup_thread_step fs 0 ?s2 = (Returns (), ?s3)"
    by (simp_all add: backup_thread_step_def backup_fires_def t run_thread_record Let_def)
  then have "system_step fs lf index h (Backup_timer 0) (h\<lparr>h_state := ?s1\<rparr>)"
    "system_step fs lf index (h\<lparr>h_state := ?s1\<rparr>) (Backup_timer 0) (h\<lparr>h_state := ?s2\<rparr>)"
    "system_step fs lf index (h\<lparr>h_state := ?s2\<rparr>) (Backup_timer 0) (h\<lparr>h_state := ?s3\<rparr>)"
    using system_timer [of 0 h fs ?s1 lf index] system_timer [of 0 "h\<lparr>h_state := ?s1\<rparr>" fs ?s2 lf index]
      system_timer [of 0 "h\<lparr>h_state := ?s2\<rparr>" fs ?s3 lf index] t by simp_all
  then have "system_run fs lf index h [Backup_timer 0, Backup_timer 0, Backup_timer 0] (h\<lparr>h_state := ?s3\<rparr>)"
    by (blast intro: system_run.intros)
  then show ?thesis by (rule that) (simp_all add: backup_fires_def)
qed

lemma timer_backup_restores_witness:
  "\<exists>h h1 sv. backup_fires 0 (h_state h) \<and> map fst (m_pKeyMap (manager_of (h_state h))) = [[]]
    \<and> system_step disk_filesystem list_lockfree None h (Backup_timer 0) h1
    \<and> onMessage list_lockfree 0 ''restore'' [] [] (h_state h1) = (Returns (CMD_SUCCEEDED, ''Restored OK.''), sv)
    \<and> map fst (m_pKeyMap (manager_of sv)) = [[]]"
proof (rule two_clients_system)
  fix tk h and v :: uint
  assume build: "tracker_build (\<lambda>_. True) list_lockfree [] empty_disk 0 tracker_argv = Inr (Inr tk)"
    and run: "system_run disk_filesystem list_lockfree None (tracker_hall (tracker_start tk)) (map Client two_clients) h"
    and h: "m_pMessageQueue (h_state h) = queue_send list_lockfree (Message_strings cmd_addKey [] [] 0 0 0)
      (started [] (MapManager_new 10 20 v))"
    and t: "b_timer (m_pBackupManager (h_state h)) =
      \<lparr>t_periodic = True, t_running = True, t_interval = 3600000, t_threads = [Loop_head], t_calls = 0\<rparr>"
  let ?mgr = "addOrUpdateKey [] [] 0 (MapManager_new 10 20 v)"
  have w0: "working (\<lambda>q. q) (started [] (MapManager_new 10 20 v))" by (rule working_started) simp
  then have w: "working (\<lambda>q. q) (m_pMessageQueue (h_state h))"
    unfolding h by (rule working_send [OF fifo_list]) (simp add: ordinary_message_def Message_strings_def)
  have "eventual_consumer (\<lambda>q. q) (m_pMessageQueue (h_state h))
      = apply_message (Message_strings cmd_addKey [] [] 0 0 0) (eventual_consumer (\<lambda>q. q) (started [] (MapManager_new 10 20 v)))"
    unfolding h by (rule eventual_send_running [OF fifo_list]) (use w0 in \<open>simp_all add: working_def\<close>)
  then have ev: "eventual_consumer (\<lambda>q. q) (m_pMessageQueue (h_state h)) = ?mgr"
    by (simp add: eventual_started apply_message_def Message_strings_def)
  obtain st where st: "run_queue list_lockfree (worker_steps 4) (m_pMessageQueue (h_state h)) = Returns st" "consumer st = ?mgr"
    using run_queue_drains [OF fifo_list w, of 4] ev one_pending unfolding h by auto
  let ?h2 = "h\<lparr>h_state := (h_state h)\<lparr>m_pMessageQueue := st\<rparr>\<rparr>"
  obtain h3 where h3: "system_run disk_filesystem list_lockfree None ?h2 [Backup_timer 0, Backup_timer 0, Backup_timer 0] h3"
    "backup_fires 0 (h_state h3)" "manager_of (h_state h3) = manager_of (h_state ?h2)"
    by (rule timer_sleeps [of ?h2]) (simp add: t)
  let ?es = "map Client two_clients @ replicate 4 Worker @ [Backup_timer 0, Backup_timer 0, Backup_timer 0]"
  have run3: "system_run disk_filesystem list_lockfree None (tracker_hall (tracker_start tk)) ?es h3"
    by (intro system_run_append [OF run] system_run_append [OF worker_run [OF st(1)]] h3(1))
  have m: "m_pKeyMap ?mgr = [([], \<lparr>kd_url = [], kd_port = 0, kd_frequency = 1\<rparr>)]"
    by (simp add: addOrUpdateKey_def notify_one_def MapManager_new_def Let_def)
  have calls: "calls_of ?es = [(''keySent'', [])]"
    using two_clients_calls by (simp add: calls_of_def numeral_eq_Suc event_calls_def)
  have "length ?es < 2 ^ 64" by (simp add: two_clients_def)
  moreover have "usable_disk ''keys.csv'' ''frequencies.csv'' empty_disk" by (simp add: usable_disk_def empty_disk_def)
  moreover have "\<forall>p \<in> set (m_pKeyMap (manager_of (h_state h3))). storable p \<and> unat (kd_port (snd p)) < 2 ^ 31"
    using m by (simp add: h3(3) st(2) storable_def)
  ultimately obtain h4 where h4: "system_step disk_filesystem list_lockfree None h3 (Backup_timer 0) h4"
    "\<And>es2 h2. system_run disk_filesystem list_lockfree None h4 es2 h2 \<Longrightarrow> timer_calls h2 = timer_calls h4 \<Longrightarrow>
      restores_maps (m_pKeyMap (manager_of (h_state h3))) (m_pFrequencyMap (manager_of (h_state h3))) list_lockfree 0 (h_state h2)"
    using timer_backup_restores [OF fifo_list refl posix_disk_filesystem build _ run3, of 0] h3(2) calls by fastforce
  have "restores_maps (m_pKeyMap (manager_of (h_state h3))) (m_pFrequencyMap (manager_of (h_state h3))) list_lockfree 0 (h_state h4)"
    by (rule h4(2) [OF system_none refl])
  then show ?thesis
    using h4(1) h3(2,3) m st(2) unfolding restores_maps_def by fastforce
qed

end
