(* ===== verification/Progress.thy ===== *)
theory Progress
  imports System
begin

section \<open>Every request is answered (src/tracker.cpp with src/web/http-connection.cpp)\<close>

text \<open>
  Progress of the running program: whatever has happened, short of a request to restore, the worker can
  take its next step and a connection that reads a request the parser understands answers it. The
  requests left out are those whose handler ends the process, a POST without a numeric length, and those
  to restore.
\<close>

subsection \<open>Requests the handler can read\<close>

definition well_formed :: "http_request \<Rightarrow> bool" where
  "well_formed rq \<longleftrightarrow> (rq_method rq = Post \<longrightarrow>
     (case rq_content_length rq of
        None \<Rightarrow> False
      | Some field \<Rightarrow> (case stoul (c_string field) of Inl _ \<Rightarrow> False | Inr _ \<Rightarrow> True)))"

lemma first_suffix_le: "first_suffix P s = Some i \<Longrightarrow> i \<le> length s"
  by (induction s arbitrary: i) (auto split: if_splits)

lemma find_first_not_of_le:
  assumes "find_first_not_of s cs pos \<noteq> npos"
  shows "unat (find_first_not_of s cs pos) \<le> length s"
proof -
  let ?P = "\<lambda>t. t \<noteq> [] \<and> hd t \<notin> set cs"
  obtain i where i: "first_suffix ?P (drop (unat pos) s) = Some i" "unat pos < length s"
    using assms by (auto simp: find_first_not_of_def position_def split: if_splits option.splits)
  have "unat (word_of_nat n :: size_type) \<le> n" for n by (simp add: unat_of_nat)
  from this [of "unat pos + i"] have "unat (word_of_nat (unat pos + i) :: size_type) \<le> unat pos + i" .
  also have "\<dots> \<le> length s" using first_suffix_le [OF i(1)] i(2) by simp
  finally show ?thesis using i by (simp add: find_first_not_of_def position_def)
qed

lemma retrieveBody_returns:
  assumes "rq_method rq = Post" "well_formed rq"
  obtains body where "retrieveBody rq buffer = Inr body"
proof -
  obtain field n where "rq_content_length rq = Some field" "stoul (c_string field) = Inr n"
    using assms by (auto simp: well_formed_def split: option.splits sum.splits)
  note field = this
  have sub: "substr s (find_first_not_of s cs pos) k \<noteq> Inl e" if "find_first_not_of s cs pos \<noteq> npos" for s cs pos k e
    using find_first_not_of_le [OF that] by (simp add: substr_def)
  show ?thesis
  proof (cases "retrieveBody rq buffer")
    case (Inl e)
    then show ?thesis
      using sub by (auto simp: retrieveBody_def field Let_def split: if_split_asm sum.split_asm)
  qed (rule that)
qed

subsection \<open>The handler returns\<close>

lemma processRequest_answers:
  assumes inv: "rank_inv (manager_of sv)" and rq: "well_formed rq" "drop_slash (rq_target rq) \<noteq> ''restore''"
  obtains rs sv1 where "tracker_request lf now index rq buffer sv = (Returns rs, sv1)"
proof (cases "rq_method rq")
  case Get
  have "length ([] :: string) < 2 ^ 64 - 1" by simp
  then obtain r sv1 where r: "onMessage lf now (drop_slash (rq_target rq)) [] [] sv = (Returns r, sv1)"
    by (rule onMessage_answers [OF inv rq(2)])
  obtain code reply where "r = (code, reply)" by (rule prod.exhaust)
  with r have "\<exists>rs sv1. tracker_request lf now index rq buffer sv = (Returns rs, sv1)"
    using Get by (cases "rq_target rq = ''/''"; cases index)
      (simp_all add: tracker_request_eq processRequest_def createGetResponse_def Let_def)
  then show ?thesis using that by blast
next
  case Post
  obtain body where body: "retrieveBody rq buffer = Inr body" by (rule retrieveBody_returns [OF Post rq(1)])
  show ?thesis
  proof (cases "body = None \<or> body = Some []")
    case True
    then show ?thesis using that Post body by (simp add: tracker_request_eq processRequest_def createPostResponse_def Let_def)
  next
    case False
    then obtain d where d: "body = Some d" "d \<noteq> []" by auto
    have "length d < 2 ^ 64 - 1" using retrieveBody_length [of rq buffer d] body d by simp
    then obtain r sv1 where r: "onMessage lf now (drop_slash (rq_target rq)) d [] sv = (Returns r, sv1)"
      by (rule onMessage_answers [OF inv rq(2)])
    obtain code reply where "r = (code, reply)" by (rule prod.exhaust)
    with r have "\<exists>rs sv1. tracker_request lf now index rq buffer sv = (Returns rs, sv1)"
      using Post body d by (simp add: tracker_request_eq processRequest_def createPostResponse_def Let_def)
    then show ?thesis using that by blast
  qed
next
  case Other_verb
  have "insert_at 24 s (''Invalid request-method '' @ [CHR 0x27, CHR 0x27]) \<noteq> Inl e" for s e
    by (simp add: insert_at_def)
  then show ?thesis
    using that Other_verb
    by (cases "insert_at 24 (c_string (rq_method_data rq)) (''Invalid request-method '' @ [CHR 0x27, CHR 0x27])")
      (auto simp: tracker_request_eq processRequest_def Let_def)
qed

subsection \<open>Connections stay open\<close>

lemma hall_step_open:
  assumes "hall_step index h e h'" "\<forall>i. \<not> c_shuttingDown (h_connections h i)"
  shows "\<forall>i. \<not> c_shuttingDown (h_connections h' i)"
  using assms
proof (induction rule: hall_step.induct)
  case (hall_iterate i h input ec c s)
  obtain r c1 s1 where r: "readRequest (call_get (l_getFunctor (h_listener h))) (call_post (l_postFunctor (h_listener h)))
      index input (h_connections h i) (h_state h) = (r, c1, s1)" by (rule prod_cases3)
  have "\<not> c_shuttingDown c1"
    using readRequest_frame [of "call_get (l_getFunctor (h_listener h))" "call_post (l_postFunctor (h_listener h))" index
        input "h_connections h i" "h_state h"] r hall_iterate.prems by simp
  then have "\<not> c_shuttingDown c"
    using hall_iterate.hyps(5) r
    by (auto simp: run_iteration_def writeResponse_def connection_stop_def Let_def split: if_splits)
  then show ?case using hall_iterate.prems by simp
qed (simp_all add: HttpConnection_new_def)

lemma system_run_open:
  "system_run fs lf index h es h' \<Longrightarrow> \<forall>i. \<not> c_shuttingDown (h_connections h i) \<Longrightarrow>
     \<forall>i. \<not> c_shuttingDown (h_connections h' i)"
proof (induction rule: system_run.induct)
  case (system_next h e h1 es h2)
  have "\<forall>i. \<not> c_shuttingDown (h_connections h1 i)"
    using system_next.hyps(1) system_next.prems by cases (use hall_step_open [OF _ system_next.prems] system_next.prems in auto)
  then show ?case by (rule system_next.IH)
qed

text \<open>An iteration that reads a request and writes the response.\<close>

lemma run_iteration_answers:
  assumes f: "tracker_functors lf now l" and c: "c_running c"
    and r: "tracker_request lf now index rq buffer sv = (Returns rs, sv1)"
  shows "\<exists>c1. run_iteration l index (Read_request rq buffer) False c sv = (Returns (), c1, sv1)
    \<and> c_written c1 = c_written c @ [rs\<lparr>rs_content_length := Some (length (rs_body rs))\<rparr>] \<and> c_running c1"
  using f c r
  by (simp add: run_iteration_def readRequest_def writeResponse_def tracker_functors_def tracker_request_eq Let_def)

lemma request_step:
  assumes f: "tracker_functors lf now (h_listener h)" and inv: "rank_inv (manager_of (h_state h))"
    and i: "i < length (l_threads (h_listener h))" "l_threads (h_listener h) ! i = Serving"
      "c_running (h_connections h i)" "\<not> c_shuttingDown (h_connections h i)"
    and rq: "well_formed rq" "drop_slash (rq_target rq) \<noteq> ''restore''"
  obtains h' rs where "system_step fs lf index h (Client (Iterate i (Read_request rq buffer) False)) h'"
    and "c_written (h_connections h' i) = c_written (h_connections h i) @ [rs]"
    and "rs_result rs \<in> {200, 400, 404, 500}" "rs_content_length rs = Some (length (rs_body rs))"
    and "c_running (h_connections h' i)" "h_listener h' = h_listener h"
proof -
  obtain rs sv1 where rs: "tracker_request lf now index rq buffer (h_state h) = (Returns rs, sv1)"
    by (rule processRequest_answers [OF inv rq])
  obtain c1 where c1: "run_iteration (h_listener h) index (Read_request rq buffer) False (h_connections h i) (h_state h)
      = (Returns (), c1, sv1)" "c_written c1 = c_written (h_connections h i) @ [rs\<lparr>rs_content_length := Some (length (rs_body rs))\<rparr>]"
    "c_running c1"
    using run_iteration_answers [OF f i(3) rs] by blast
  have "system_step fs lf index h (Client (Iterate i (Read_request rq buffer) False))
      (h\<lparr>h_connections := (h_connections h)(i := c1), h_state := sv1\<rparr>)"
    using i c1(1) by (intro system_client hall_iterate)
  then show ?thesis
    by (rule that [of _ "rs\<lparr>rs_content_length := Some (length (rs_body rs))\<rparr>"])
      (use c1(2,3) tracker_request_status [OF rs] in simp_all)
qed

subsection \<open>Properties\<close>

text \<open>
  C8. No client waits for its answer. After any run, without a request to restore, of what \<open>main\<close> starts,
  whatever the other threads and the backup timer have done: a thread that serves a client and reads a
  well-formed request to any target but \<open>restore\<close> can run its iteration to the end, writes exactly one
  response, with one of the four statuses and the length of its body, and stays with the client; and the
  worker can take its next step.
\<close>

theorem requests_are_answered:
  assumes lf: "fifo_queue lf contents" and q: "contents q = []"
    and build: "tracker_build make_address lf q dk now argv = Inr (Inr tk)"
    and run: "system_run fs lf index (tracker_hall (tracker_start tk)) es h"
    and no_restore: "''restore'' \<notin> fst ` set (calls_of es)" and few: "length es < 2 ^ 64"
    and i: "i < length (l_threads (h_listener h))" "l_threads (h_listener h) ! i = Serving" "c_running (h_connections h i)"
    and rq: "well_formed rq" "drop_slash (rq_target rq) \<noteq> ''restore''"
  shows "(\<exists>h' rs. system_step fs lf index h (Client (Iterate i (Read_request rq buffer) False)) h'
        \<and> c_written (h_connections h' i) = c_written (h_connections h i) @ [rs]
        \<and> rs_result rs \<in> {200, 400, 404, 500} \<and> rs_content_length rs = Some (length (rs_body rs))
        \<and> c_running (h_connections h' i) \<and> h_listener h' = h_listener h)
    \<and> (\<exists>h'. system_step fs lf index h Worker h')"
proof -
  let ?h0 = "tracker_hall (tracker_start tk)"
  obtain v where "system_ok contents lf now (length es) ?h0"
    using system_ok_started [OF build, of contents "length es"] q few by blast
  then have ok: "system_ok contents lf now 0 h"
    using system_ok_run [OF lf run, of now 0] no_restore by simp
  then have s: "serving contents 0 (m_pMessageQueue (h_state h))" and f: "tracker_functors lf now (h_listener h)"
    by (simp_all add: system_ok_def)
  then have inv: "rank_inv (manager_of (h_state h))" by (simp add: serving_def)
  obtain st where "run_step lf (m_pMessageQueue (h_state h)) = Returns st" by (rule serving_step [OF lf s])
  then have worker: "\<exists>h'. system_step fs lf index h Worker h'" by (blast intro: system_worker)
  have "\<not> c_shuttingDown (h_connections h i)"
    using system_run_open [OF run] by (simp add: tracker_hall_def hall_new_def HttpConnection_new_def)
  then obtain h' rs where "system_step fs lf index h (Client (Iterate i (Read_request rq buffer) False)) h'"
    "c_written (h_connections h' i) = c_written (h_connections h i) @ [rs]"
    "rs_result rs \<in> {200, 400, 404, 500}" "rs_content_length rs = Some (length (rs_body rs))"
    "c_running (h_connections h' i)" "h_listener h' = h_listener h"
    by (rule request_step [OF f inv i _ rq, of fs index buffer])
  then show ?thesis using worker by blast
qed

text \<open>The second of the two clients asks for the total number of keys.\<close>

lemma requests_are_answered_witness:
  "\<exists>h h' rs. system_step disk_filesystem list_lockfree None h
      (Client (Iterate 0 (Read_request (get_request ''/totalKeys'') []) False)) h'
    \<and> c_written (h_connections h' 0) = c_written (h_connections h 0) @ [rs]"
proof (rule two_clients_system)
  fix tk h and v :: uint
  assume build: "tracker_build (\<lambda>_. True) list_lockfree [] empty_disk 0 tracker_argv = Inr (Inr tk)"
    and run: "system_run disk_filesystem list_lockfree None (tracker_hall (tracker_start tk)) (map Client two_clients) h"
    and l: "l_threads (h_listener h) = [Serving, Idle, Idle, Idle]" "c_running (h_connections h 0)"
  have "length (map Client two_clients) < 2 ^ 64" by (simp add: two_clients_def)
  moreover have "well_formed (get_request ''/totalKeys'')" by (simp add: well_formed_def get_request_def)
  moreover have "drop_slash (rq_target (get_request ''/totalKeys'')) \<noteq> ''restore''"
    by (simp add: drop_slash_def get_request_def)
  moreover have "''restore'' \<notin> fst ` set (calls_of (map Client two_clients))" unfolding two_clients_calls by simp
  moreover have i: "0 < length (l_threads (h_listener h))" "l_threads (h_listener h) ! 0 = Serving" using l by simp_all
  ultimately show ?thesis
    using requests_are_answered [OF fifo_list refl build run _ _ i l(2)] by blast
qed

end
