(* ===== verification/Shutdown.thy ===== *)
theory Shutdown
  imports Progress
begin

section \<open>How the program ends (src/tracker.cpp, src/web/listener.cpp)\<close>

text \<open>
  From the signal to the exit code. The handler of the signal runs on one of the threads of the listener;
  its call of \<open>stop\<close> joins the others one after the other and waits for those that serve a client. Meanwhile
  \<open>main\<close>, whose thread is the last of the listener's, leaves \<open>run\<close> as soon as the I/O context is stopped and
  its own thread has no handler to finish; it stops the backup manager and the queue, joins the worker and
  returns. All of this interleaves with the connections, the worker and the timer, which are those of
  \<^verbatim>\<open>System\<close>; \<open>stop\<close> of the listener as one call (\<open>listener_stop\<close>) is not used here.
\<close>

subsection \<open>The step relation\<close>

text \<open>Where the handler of the signal is: in the loop of \<open>waitThreadsToFinish\<close> on a thread, or past it.\<close>

datatype stop_call = Not_called | Joining nat nat | Stop_returned nat

text \<open>Where \<open>main\<close> is: in \<open>msgSrv.start\<close>, in \<open>queue.stop\<close>, or returned.\<close>

datatype main_pc = In_run | Stopping_queue | Exited int

record 'q ending =
  en_hall :: "'q server hall"
  en_stop :: stop_call
  en_signal :: "signal option"   \<comment> \<open>the variable \<open>signal\<close>; None for its initial value 0\<close>
  en_main :: main_pc

definition ending_new :: "'q server hall \<Rightarrow> 'q ending" where
  "ending_new h = \<lparr>en_hall = h, en_stop = Not_called, en_signal = None, en_main = In_run\<rparr>"

text \<open>The thread that called \<open>run\<close>; the ones before it are \<open>m_threads\<close>.\<close>

definition main_thread :: "'s listener \<Rightarrow> nat" where
  "main_thread l = length (l_threads l) - 1"

text \<open>One iteration of the loop of \<open>waitThreadsToFinish\<close> on the thread \<open>caller\<close>.\<close>

definition join_next :: "nat \<Rightarrow> nat \<Rightarrow> 's listener \<Rightarrow> (stop_call \<times> 's listener) outcome" where
  "join_next caller k l =
     (if \<not> 1 < l_threadQty l \<or> main_thread l \<le> k then Returns (Stop_returned caller, l)
      else if k = caller then Returns (Joining caller (Suc k), l)
      else case l_threads l ! k of
             Joined \<Rightarrow> Throws System_error
           | Serving \<Rightarrow> Waits
           | Idle \<Rightarrow>
               if l_stopped l then Returns (Joining caller (Suc k), l\<lparr>l_threads := (l_threads l)[k := Joined]\<rparr>)
               else Waits)"

definition end_code :: "signal option \<Rightarrow> int" where
  "end_code sig = (case sig of None \<Rightarrow> EXIT_SUCCESS | Some s \<Rightarrow> exit_code s)"

text \<open>What \<open>main\<close> does after \<open>run\<close> returned, up to the join of the worker.\<close>

definition stop_managers :: "'q server \<Rightarrow> 'q server" where
  "stop_managers sv = sv\<lparr>m_pBackupManager := backup_stop (m_pBackupManager sv),
     m_pMessageQueue := (m_pMessageQueue sv)\<lparr>m_running := False\<rparr>\<rparr>"

datatype ending_event =
    Running system_event
  | Signalled signal nat
  | Join_next
  | Main_leaves
  | Main_exits

inductive ending_step ::
  "filesystem \<Rightarrow> 'q lockfree \<Rightarrow> string option \<Rightarrow> 'q ending \<Rightarrow> ending_event \<Rightarrow> 'q ending \<Rightarrow> bool"
  for fs lf index where
  ending_running:
    "(\<And>code. en_main e \<noteq> Exited code) \<Longrightarrow> (\<And>c. ev \<noteq> Client (Listen (Stop_called c))) \<Longrightarrow>
     system_step fs lf index (en_hall e) ev h \<Longrightarrow>
     ending_step fs lf index e (Running ev) (e\<lparr>en_hall := h\<rparr>)"
| ending_signal:
    "en_stop e = Not_called \<Longrightarrow> l = h_listener (en_hall e) \<Longrightarrow> \<not> l_stopped l \<Longrightarrow>
     caller < length (l_threads l) \<Longrightarrow> l_threads l ! caller = Idle \<Longrightarrow>
     ending_step fs lf index e (Signalled s caller)
       (e\<lparr>en_hall := (en_hall e)\<lparr>h_listener := l\<lparr>l_stopped := True\<rparr>\<rparr>, en_stop := Joining caller 0, en_signal := Some s\<rparr>)"
| ending_join:
    "(\<And>code. en_main e \<noteq> Exited code) \<Longrightarrow> en_stop e = Joining caller k \<Longrightarrow>
     join_next caller k (h_listener (en_hall e)) = Returns (stop, l) \<Longrightarrow>
     ending_step fs lf index e Join_next (e\<lparr>en_hall := (en_hall e)\<lparr>h_listener := l\<rparr>, en_stop := stop\<rparr>)"
| ending_leaves:
    "en_main e = In_run \<Longrightarrow> l = h_listener (en_hall e) \<Longrightarrow> l_stopped l \<Longrightarrow> l_threads l ! main_thread l = Idle \<Longrightarrow>
     (\<And>k. en_stop e \<noteq> Joining (main_thread l) k) \<Longrightarrow>
     ending_step fs lf index e Main_leaves
       (e\<lparr>en_hall := (en_hall e)\<lparr>h_state := stop_managers (h_state (en_hall e))\<rparr>, en_main := Stopping_queue\<rparr>)"
| ending_exits:
    "en_main e = Stopping_queue \<Longrightarrow> queue_join (m_pMessageQueue (h_state (en_hall e))) = (Returns b, q) \<Longrightarrow>
     ending_step fs lf index e Main_exits
       (e\<lparr>en_hall := (en_hall e)\<lparr>h_state := (h_state (en_hall e))\<lparr>m_pMessageQueue := q\<rparr>\<rparr>,
          en_main := Exited (end_code (en_signal e))\<rparr>)"

inductive ending_run ::
  "filesystem \<Rightarrow> 'q lockfree \<Rightarrow> string option \<Rightarrow> 'q ending \<Rightarrow> ending_event list \<Rightarrow> 'q ending \<Rightarrow> bool"
  for fs lf index where
  ending_none: "ending_run fs lf index e [] e"
| ending_next: "ending_step fs lf index e ev e1 \<Longrightarrow> ending_run fs lf index e1 evs e2 \<Longrightarrow> ending_run fs lf index e (ev # evs) e2"

inductive_simps ending_run_simps: "ending_run fs lf index e [] e'" "ending_run fs lf index e (ev # evs) e'"

lemma ending_run_append:
  "ending_run fs lf index e xs e1 \<Longrightarrow> ending_run fs lf index e1 ys e2 \<Longrightarrow> ending_run fs lf index e (xs @ ys) e2"
  by (induction rule: ending_run.induct) (auto intro: ending_run.ending_next)

subsection \<open>The pool of threads\<close>

text \<open>No event but \<open>stop\<close> joins a thread, stops the context or changes the size of the pool.\<close>

lemma listener_step_pool:
  assumes "listener_step l e l'" "\<And>c. e \<noteq> Stop_called c" "\<And>i. e \<noteq> Closed i True"
  shows "l_threadQty l' = l_threadQty l \<and> length (l_threads l') = length (l_threads l) \<and> l_stopped l' = l_stopped l
    \<and> (\<forall>j. l_threads l' ! j = Joined \<longleftrightarrow> l_threads l ! j = Joined)"
  using assms
  by (induction rule: listener_step.induct) (auto simp: listener_accept_def nth_list_update)

definition stays_open :: "'s hall \<Rightarrow> bool" where
  "stays_open h \<longleftrightarrow> (\<forall>i. \<not> c_shuttingDown (h_connections h i))"

lemma system_step_pool:
  assumes "system_step fs lf index h e h'" "\<And>c. e \<noteq> Client (Listen (Stop_called c))" "stays_open h"
  shows "l_threadQty (h_listener h') = l_threadQty (h_listener h)
    \<and> length (l_threads (h_listener h')) = length (l_threads (h_listener h))
    \<and> l_stopped (h_listener h') = l_stopped (h_listener h)
    \<and> (\<forall>j. l_threads (h_listener h') ! j = Joined \<longleftrightarrow> l_threads (h_listener h) ! j = Joined)
    \<and> stays_open h'"
  using assms(1)
proof cases
  case (system_client ev)
  have open': "stays_open h'"
    using hall_step_open [OF system_client(2)] assms(3) by (simp add: stays_open_def)
  show ?thesis
    using system_client(2)
  proof cases
    case (hall_connected i l)
    then show ?thesis using listener_step_pool [OF hall_connected(3)] open' by simp
  next
    case (hall_accept_failed i l)
    then show ?thesis using listener_step_pool [OF hall_accept_failed(3)] open' by simp
  next
    case (hall_closed i l)
    then show ?thesis
      using listener_step_pool [OF hall_closed(4)] open' assms(3) by (simp add: stays_open_def)
  next
    case (hall_stop i l)
    then show ?thesis using assms(2) [of i] system_client(1) by simp
  qed (use open' in simp_all)
qed (use assms(3) in \<open>simp_all add: stays_open_def\<close>)

subsection \<open>The invariant after the signal\<close>

text \<open>
  The threads joined so far are those before the place of \<open>stop\<close> but its own, and when it runs on the main
  thread, \<open>main\<close> goes on only after it.
\<close>

definition joined_upto :: "nat \<Rightarrow> nat \<Rightarrow> 's listener \<Rightarrow> bool" where
  "joined_upto caller k l \<longleftrightarrow> (\<forall>j < length (l_threads l). l_threads l ! j = Joined \<longleftrightarrow> j < k \<and> j \<noteq> caller)"

definition ending_inv :: "nat \<Rightarrow> signal \<Rightarrow> 'q ending \<Rightarrow> bool" where
  "ending_inv caller s e \<longleftrightarrow>
     (let l = h_listener (en_hall e); m = main_thread l
      in 0 < length (l_threads l) \<and> length (l_threads l) = max 1 (unat (l_threadQty l)) \<and> l_stopped l
       \<and> stays_open (en_hall e) \<and> en_signal e = Some s
       \<and> (case en_stop e of
            Not_called \<Rightarrow> False
          | Joining c k \<Rightarrow> c = caller \<and> k \<le> m \<and> joined_upto caller k l
          | Stop_returned c \<Rightarrow> c = caller \<and> joined_upto caller m l)
       \<and> (en_main e = In_run \<or> caller \<noteq> m \<or> en_stop e = Stop_returned caller)
       \<and> (\<forall>code. en_main e = Exited code \<longrightarrow> code = exit_code s))"

lemma joined_upto_Suc:
  assumes "joined_upto caller k l" "k < length (l_threads l)" "k \<noteq> caller"
  shows "joined_upto caller (Suc k) (l\<lparr>l_threads := (l_threads l)[k := Joined]\<rparr>)"
  using assms by (auto simp: joined_upto_def nth_list_update less_Suc_eq)

lemma joined_upto_caller: "joined_upto caller caller l \<Longrightarrow> joined_upto caller (Suc caller) l"
  by (auto simp: joined_upto_def less_Suc_eq)

text \<open>What one iteration of the loop does, given how far it is.\<close>

lemma join_next_cases:
  assumes inv: "joined_upto caller k l" "k \<le> main_thread l" "l_stopped l"
    and size0: "0 < length (l_threads l)" "length (l_threads l) = max 1 (unat (l_threadQty l))"
  obtains (over) "k = main_thread l" "join_next caller k l = Returns (Stop_returned caller, l)"
  | (own) "k < main_thread l" "k = caller" "join_next caller k l = Returns (Joining caller (Suc k), l)"
      "joined_upto caller (Suc k) l"
  | (idle) "k < main_thread l" "k \<noteq> caller" "l_threads l ! k = Idle"
      "join_next caller k l = Returns (Joining caller (Suc k), l\<lparr>l_threads := (l_threads l)[k := Joined]\<rparr>)"
      "joined_upto caller (Suc k) (l\<lparr>l_threads := (l_threads l)[k := Joined]\<rparr>)"
  | (serving) "k < main_thread l" "k \<noteq> caller" "l_threads l ! k = Serving" "join_next caller k l = Waits"
proof (cases "k = main_thread l")
  case False
  then have k: "k < main_thread l" "k < length (l_threads l)" using inv(2) by (simp_all add: main_thread_def)
  then have qty: "1 < l_threadQty l" using size0(2) by (simp add: main_thread_def word_less_nat_alt)
  show ?thesis
  proof (cases "k = caller")
    case True
    then show ?thesis using own k qty joined_upto_caller [of caller l] inv(1) by (simp add: join_next_def)
  next
    case False
    have "l_threads l ! k \<noteq> Joined" using inv(1) k(2) by (simp add: joined_upto_def)
    then consider "l_threads l ! k = Idle" | "l_threads l ! k = Serving" by (cases "l_threads l ! k") simp_all
    then show ?thesis
    proof cases
      case 1
      then show ?thesis using idle k qty False inv(3) joined_upto_Suc [OF inv(1) k(2) False] by (simp add: join_next_def)
    next
      case 2
      then show ?thesis using serving k qty False by (simp add: join_next_def)
    qed
  qed
qed (use over in \<open>simp add: join_next_def\<close>)

lemma ending_inv_step:
  assumes "ending_step fs lf index e ev e'" "ending_inv caller s e"
  shows "ending_inv caller s e'"
  using assms
proof (induction rule: ending_step.induct)
  case (ending_running e ev h)
  note pool = system_step_pool [OF ending_running(3) ending_running(2)]
  show ?case
    using pool ending_running(4)
    by (auto simp: ending_inv_def Let_def main_thread_def joined_upto_def split: stop_call.splits)
next
  case (ending_join e c k stop l)
  let ?l = "h_listener (en_hall e)"
  have inv: "c = caller" "joined_upto caller k ?l" "k \<le> main_thread ?l" "l_stopped ?l"
    "0 < length (l_threads ?l)" "length (l_threads ?l) = max 1 (unat (l_threadQty ?l))"
    using ending_join(2,4) by (auto simp: ending_inv_def Let_def)
  show ?case
    using join_next_cases [OF inv(2-6)] ending_join(2,3,4) inv(1)
    by cases (auto simp: ending_inv_def Let_def main_thread_def stays_open_def)
next
  case (ending_signal e l c s')
  then show ?case by (simp add: ending_inv_def Let_def)
next
  case (ending_leaves e l)
  then show ?case by (auto simp: ending_inv_def Let_def main_thread_def stays_open_def split: stop_call.splits)
next
  case (ending_exits e b q)
  then show ?case by (auto simp: ending_inv_def Let_def main_thread_def stays_open_def end_code_def split: stop_call.splits)
qed

lemma ending_inv_run:
  "ending_run fs lf index e evs e' \<Longrightarrow> ending_inv caller s e \<Longrightarrow> ending_inv caller s e'"
  by (induction rule: ending_run.induct) (auto dest: ending_inv_step)

text \<open>The pool keeps its size.\<close>

lemma join_next_size: "join_next caller k l = Returns (stop, l') \<Longrightarrow> length (l_threads l') = length (l_threads l)"
  by (auto simp: join_next_def split: if_splits pool_thread.splits)

lemma ending_size_step:
  assumes "ending_step fs lf index e ev e'" "ending_inv caller s e"
  shows "length (l_threads (h_listener (en_hall e'))) = length (l_threads (h_listener (en_hall e)))"
  using assms
proof (induction rule: ending_step.induct)
  case (ending_running e ev h)
  then show ?case
    using system_step_pool [OF ending_running(3) ending_running(2)] by (simp add: ending_inv_def Let_def)
next
  case (ending_join e c k stop l)
  then show ?case using join_next_size by simp
qed simp_all

lemma ending_size_run:
  "ending_run fs lf index e evs e' \<Longrightarrow> ending_inv caller s e \<Longrightarrow>
     length (l_threads (h_listener (en_hall e'))) = length (l_threads (h_listener (en_hall e)))"
proof (induction rule: ending_run.induct)
  case (ending_next e ev e1 evs e2)
  then show ?case using ending_size_step ending_inv_step by metis
qed simp

subsection \<open>The worker until the end\<close>

text \<open>What a request does to the queue: at most one message is sent, or the consumer is changed by a restore.\<close>

definition queue_touched :: "'q lockfree \<Rightarrow> 'q queue_system \<Rightarrow> 'q queue_system \<Rightarrow> bool" where
  "queue_touched lf q q1 \<longleftrightarrow> (\<exists>m. q1 = queue_send lf m q) \<or> (\<exists>mgr. q1 = q\<lparr>consumer := mgr\<rparr>)"

lemma queue_touched_refl: "queue_touched lf q q"
  unfolding queue_touched_def by (intro disjI2 exI [of _ "consumer q"]) simp

lemma message_touches:
  "queue_touched lf (m_pMessageQueue sv) (m_pMessageQueue (snd (message_keySent lf d sv)))"
  "queue_touched lf (m_pMessageQueue sv) (m_pMessageQueue (snd (message_isHotKey d sv)))"
  "queue_touched lf (m_pMessageQueue sv) (m_pMessageQueue (snd (message_getTopHotKeys sv)))"
  "queue_touched lf (m_pMessageQueue sv) (m_pMessageQueue (snd (message_totalKeys sv)))"
  "queue_touched lf (m_pMessageQueue sv) (m_pMessageQueue (snd (message_setTopHotKeys lf d sv)))"
  "queue_touched lf (m_pMessageQueue sv) (m_pMessageQueue (snd (message_signal reply sig sv)))"
  "queue_touched lf (m_pMessageQueue sv) (m_pMessageQueue (snd (message_restore sv)))"
  "queue_touched lf (m_pMessageQueue sv) (m_pMessageQueue (snd (message_time now sv)))"
  using queue_touched_refl [of lf "m_pMessageQueue sv"]
  by (auto simp: message_keySent_def message_isHotKey_def message_getTopHotKeys_def
      message_totalKeys_def message_setTopHotKeys_def message_signal_def message_restore_def message_time_def
      split_beta queue_touched_def split: sum.split exn.split)

lemma onMessage_touches:
  "onMessage lf now t d out sv = (r, sv1) \<Longrightarrow> queue_touched lf (m_pMessageQueue sv) (m_pMessageQueue sv1)"
proof -
  let ?P = "\<lambda>x :: 'a reply. queue_touched lf (m_pMessageQueue sv) (m_pMessageQueue (snd x))"
  have branch: "?P (if b then x else y)" if "?P x" "?P y" for b x y
    using that by simp
  assume eq: "onMessage lf now t d out sv = (r, sv1)"
  have "?P (onMessage lf now t d out sv)"
    unfolding onMessage_def by (intro branch message_touches) (simp add: queue_touched_refl)
  then show ?thesis unfolding eq by simp
qed

text \<open>The queue stays well-formed, the worker is there until \<open>main\<close> has joined it, and the flag stays reset.\<close>

definition worker_there :: "('q \<Rightarrow> pointer list) \<Rightarrow> 'q queue_system \<Rightarrow> bool" where
  "worker_there contents q \<longleftrightarrow> queue_ok contents q \<and> m_poper q \<noteq> Not_joinable"

lemma worker_there_touched:
  assumes lf: "fifo_queue lf contents" and q: "queue_touched lf q q1" "worker_there contents q"
  shows "worker_there contents q1 \<and> m_running q1 = m_running q"
proof -
  have "worker_there contents (q\<lparr>consumer := mgr\<rparr>) = worker_there contents q" for mgr
    by (simp add: worker_there_def queue_ok_def pending_pointers_def held_def)
  moreover have "worker_there contents (queue_send lf m q)" for m
    using q(2) queue_send_ok(1) [OF lf] by (simp add: worker_there_def)
  ultimately show ?thesis using q by (auto simp: queue_touched_def)
qed

lemma run_step_there:
  assumes lf: "fifo_queue lf contents" and q: "run_step lf q = Returns q1" "worker_there contents q"
  shows "worker_there contents q1 \<and> (\<not> m_running q \<longrightarrow> \<not> m_running q1)"
proof -
  obtain q2 where "run_step lf q = Returns q2" "queue_ok contents q2"
    using run_step_ok [OF lf, of q] q(2) unfolding worker_there_def by blast
  then show ?thesis
    using q by (auto simp: worker_there_def run_step_def handle_message_def delete_message_def
        split: worker.splits if_splits option.splits command.splits)
qed

lemma system_step_there:
  assumes lf: "fifo_queue lf contents" and step: "system_step fs lf index h e h'"
    and f: "tracker_functors lf now (h_listener h)" and q: "worker_there contents (m_pMessageQueue (h_state h))"
  shows "worker_there contents (m_pMessageQueue (h_state h'))
    \<and> (\<not> m_running (m_pMessageQueue (h_state h)) \<longrightarrow> \<not> m_running (m_pMessageQueue (h_state h')))"
  using step
proof cases
  case (system_client ev)
  then have "queue_touched lf (m_pMessageQueue (h_state h)) (m_pMessageQueue (h_state h'))"
    using hall_step_call [OF system_client(2) f] onMessage_touches queue_touched_refl by fastforce
  then show ?thesis using worker_there_touched [OF lf _ q] by blast
next
  case (system_worker st)
  then show ?thesis using run_step_there [OF lf system_worker(3) q] by simp
next
  case (system_timer i sv)
  then show ?thesis using backup_thread_frame [OF system_timer(4)] q by simp
qed

definition ending_work :: "('q \<Rightarrow> pointer list) \<Rightarrow> 'q lockfree \<Rightarrow> nat \<Rightarrow> 'q ending \<Rightarrow> bool" where
  "ending_work contents lf now e \<longleftrightarrow> tracker_functors lf now (h_listener (en_hall e))
     \<and> ((\<forall>code. en_main e \<noteq> Exited code) \<longrightarrow> worker_there contents (m_pMessageQueue (h_state (en_hall e))))
     \<and> (en_main e = Stopping_queue \<longrightarrow> \<not> m_running (m_pMessageQueue (h_state (en_hall e))))"

lemma worker_there_flag [simp]: "worker_there contents (q\<lparr>m_running := b\<rparr>) = worker_there contents q"
  by (simp add: worker_there_def queue_ok_def pending_pointers_def held_def)

lemma join_next_functors:
  "join_next caller k l = Returns (stop, l') \<Longrightarrow> l_getFunctor l' = l_getFunctor l \<and> l_postFunctor l' = l_postFunctor l"
  by (auto simp: join_next_def split: if_splits pool_thread.splits)

lemma ending_work_step:
  assumes lf: "fifo_queue lf contents" and step: "ending_step fs lf index e ev e'" and w: "ending_work contents lf now e"
  shows "ending_work contents lf now e'"
  using step w
proof (induction rule: ending_step.induct)
  case (ending_running e ev h)
  have "tracker_functors lf now (h_listener (en_hall e))" "worker_there contents (m_pMessageQueue (h_state (en_hall e)))"
    using ending_running(1,4) by (simp_all add: ending_work_def)
  then show ?case
    using system_step_there [OF lf ending_running(3)] system_step_files [OF ending_running(3)] ending_running(4)
    by (simp add: ending_work_def)
next
  case (ending_join e c k stop l)
  then show ?case using join_next_functors [OF ending_join(3)] by (simp add: ending_work_def tracker_functors_def)
qed (auto simp: ending_work_def tracker_functors_def stop_managers_def)

lemma ending_work_run:
  assumes lf: "fifo_queue lf contents"
  shows "ending_run fs lf index e evs e' \<Longrightarrow> ending_work contents lf now e \<Longrightarrow> ending_work contents lf now e'"
  by (induction rule: ending_run.induct) (auto dest: ending_work_step [OF lf])

subsection \<open>From the running program to the signal\<close>

lemma system_run_pool:
  "system_run fs lf index h es h' \<Longrightarrow> (\<And>c. Client (Listen (Stop_called c)) \<notin> set es) \<Longrightarrow> stays_open h \<Longrightarrow>
    l_threadQty (h_listener h') = l_threadQty (h_listener h)
    \<and> length (l_threads (h_listener h')) = length (l_threads (h_listener h))
    \<and> l_stopped (h_listener h') = l_stopped (h_listener h)
    \<and> (\<forall>j. l_threads (h_listener h') ! j = Joined \<longleftrightarrow> l_threads (h_listener h) ! j = Joined)
    \<and> stays_open h'"
proof (induction rule: system_run.induct)
  case (system_next h e h1 es h2)
  have "e \<noteq> Client (Listen (Stop_called c))" and later: "Client (Listen (Stop_called c)) \<notin> set es" for c
    using system_next.prems(1) [of c] by auto
  note pool = system_step_pool [OF system_next.hyps(1) this(1) system_next.prems(2)]
  show ?case using system_next.IH [OF later] pool by simp
qed simp

lemma system_run_there:
  assumes lf: "fifo_queue lf contents"
  shows "system_run fs lf index h es h' \<Longrightarrow> tracker_functors lf now (h_listener h) \<Longrightarrow>
    worker_there contents (m_pMessageQueue (h_state h)) \<Longrightarrow> worker_there contents (m_pMessageQueue (h_state h'))"
proof (induction rule: system_run.induct)
  case (system_next h e h1 es h2)
  then show ?case
    using system_step_there [OF lf system_next.hyps(1)] system_step_files [OF system_next.hyps(1)] by blast
qed simp

lemma started_there:
  "contents q = [] \<Longrightarrow> worker_there contents (started q mgr)"
  using working_started [of contents q mgr] by (simp add: worker_there_def working_def)

text \<open>The state right after the signal.\<close>

definition signalled :: "signal \<Rightarrow> nat \<Rightarrow> 'q server hall \<Rightarrow> 'q ending" where
  "signalled s caller h = \<lparr>en_hall = h\<lparr>h_listener := (h_listener h)\<lparr>l_stopped := True\<rparr>\<rparr>, en_stop = Joining caller 0,
     en_signal = Some s, en_main = In_run\<rparr>"

lemma ending_run_signalled:
  "ending_run fs lf index (ending_new h) (Signalled s caller # evs) e \<longleftrightarrow>
     \<not> l_stopped (h_listener h) \<and> caller < length (l_threads (h_listener h)) \<and> l_threads (h_listener h) ! caller = Idle
     \<and> ending_run fs lf index (signalled s caller h) evs e"
proof -
  have "ending_step fs lf index (ending_new h) (Signalled s caller) e1 \<longleftrightarrow>
      \<not> l_stopped (h_listener h) \<and> caller < length (l_threads (h_listener h)) \<and> l_threads (h_listener h) ! caller = Idle
      \<and> e1 = signalled s caller h" for e1
    by (auto simp: ending_step.simps ending_new_def signalled_def)
  then show ?thesis by (auto simp: ending_run_simps)
qed

lemma signalled_inv:
  assumes lf: "fifo_queue lf contents" and q: "contents q = []"
    and build: "tracker_build make_address lf q dk now argv = Inr (Inr tk)"
    and run: "system_run fs lf index (tracker_hall (tracker_start tk)) es h"
    and no_stop: "\<And>c. Client (Listen (Stop_called c)) \<notin> set es"
  shows "ending_inv caller s (signalled s caller h)" "ending_work contents lf now (signalled s caller h)"
    and "\<not> l_stopped (h_listener h)" "length (l_threads (h_listener h)) = unat (parse_threads argv)"
proof -
  let ?h0 = "tracker_hall (tracker_start tk)"
  have l0: "h_listener ?h0 = w_qListener (webserver_start (tracker_web lf now (parse_port argv) (parse_threads argv)))"
    using tracker_started_web [OF build] by (simp add: tracker_hall_def hall_new_def)
  have "stays_open ?h0" by (simp add: stays_open_def tracker_hall_def hall_new_def HttpConnection_new_def)
  note pool = system_run_pool [OF run no_stop this]
  have start: "tracker_functors lf now (h_listener ?h0)"
    by (rule tracker_started_parts [OF build]) (simp add: tracker_hall_def hall_new_def)
  have "worker_there contents (m_pMessageQueue (h_state ?h0))"
    by (rule tracker_started_parts [OF build]) (use started_there [of contents q] q in \<open>simp add: tracker_hall_def hall_new_def\<close>)
  then have there: "worker_there contents (m_pMessageQueue (h_state h))" by (rule system_run_there [OF lf run start])
  have functors: "tracker_functors lf now (h_listener h)" using system_run_files [OF run start] by simp
  have qty: "1 \<le> unat (parse_threads argv)" by (rule parse_threads_pos)
  show "ending_inv caller s (signalled s caller h)"
    using pool started_listener [of lf now "parse_port argv" "parse_threads argv"]
    by (auto simp: ending_inv_def signalled_def l0 Let_def main_thread_def joined_upto_def stays_open_def)
  show "ending_work contents lf now (signalled s caller h)"
    using there functors by (simp add: ending_work_def signalled_def tracker_functors_def)
  show "\<not> l_stopped (h_listener h)" "length (l_threads (h_listener h)) = unat (parse_threads argv)"
    using pool started_listener [of lf now "parse_port argv" "parse_threads argv"] qty by (simp_all add: l0)
qed

subsection \<open>Runs that end the program\<close>

lemma ending_workers:
  "system_run fs lf index h (replicate n Worker) h' \<Longrightarrow> en_hall e = h \<Longrightarrow> (\<And>code. en_main e \<noteq> Exited code) \<Longrightarrow>
     ending_run fs lf index e (replicate n (Running Worker)) (e\<lparr>en_hall := h'\<rparr>)"
proof (induction n arbitrary: h e)
  case 0
  then have "h' = h" by (auto simp: system_run_simps)
  then have "e\<lparr>en_hall := h'\<rparr> = e" using 0(2) by (cases e) simp
  then show ?case by (simp only: replicate_0 ending_none)
next
  case (Suc n)
  obtain h1 where h1: "system_step fs lf index h Worker h1" "system_run fs lf index h1 (replicate n Worker) h'"
    using Suc.prems(1) by (auto simp: system_run_simps)
  have "ending_step fs lf index e (Running Worker) (e\<lparr>en_hall := h1\<rparr>)"
    using ending_running [of e Worker fs lf index h1] Suc.prems h1(1) by simp
  moreover have "ending_run fs lf index (e\<lparr>en_hall := h1\<rparr>) (replicate n (Running Worker)) (e\<lparr>en_hall := h'\<rparr>)"
    using Suc.IH [OF h1(2), of "e\<lparr>en_hall := h1\<rparr>"] Suc.prems(3) by simp
  ultimately show ?case by (simp add: ending_next)
qed

text \<open>Once \<open>main\<close> stops the queue, three steps of the worker let it return.\<close>

lemma stopping_exits:
  assumes lf: "fifo_queue lf contents" and w: "ending_work contents lf now e" and m: "en_main e = Stopping_queue"
    and sig: "en_signal e = Some s"
  obtains e' where "ending_run fs lf index e (replicate 3 (Running Worker) @ [Main_exits]) e'"
    and "en_main e' = Exited (exit_code s)" and "h_listener (en_hall e') = h_listener (en_hall e)"
proof -
  let ?h = "en_hall e" and ?q = "m_pMessageQueue (h_state (en_hall e))"
  have q: "queue_ok contents ?q" "\<not> m_running ?q" "m_poper ?q \<noteq> Not_joinable"
    using w m by (simp_all add: ending_work_def worker_there_def)
  obtain st where st: "run_queue lf (worker_steps 3) ?q = Returns st" "m_poper st = Finished"
    using worker_finishes [OF lf q] by blast
  let ?h1 = "?h\<lparr>h_state := (h_state ?h)\<lparr>m_pMessageQueue := st\<rparr>\<rparr>"
  have workers: "ending_run fs lf index e (replicate 3 (Running Worker)) (e\<lparr>en_hall := ?h1\<rparr>)"
    by (rule ending_workers [OF worker_run [OF st(1)]]) (simp_all add: m)
  have "queue_join st = (Returns True, st\<lparr>m_poper := Not_joinable\<rparr>)" using st(2) by (simp add: queue_join_def)
  then have exits: "ending_step fs lf index (e\<lparr>en_hall := ?h1\<rparr>) Main_exits
      (e\<lparr>en_hall := ?h1\<lparr>h_state := (h_state ?h1)\<lparr>m_pMessageQueue := st\<lparr>m_poper := Not_joinable\<rparr>\<rparr>\<rparr>,
        en_main := Exited (end_code (en_signal e))\<rparr>)"
    using ending_exits [of "e\<lparr>en_hall := ?h1\<rparr>" True "st\<lparr>m_poper := Not_joinable\<rparr>" fs lf index] m by simp
  show ?thesis
    by (rule that [OF ending_run_append [OF workers ending_next [OF exits ending_none]]]) (simp_all add: sig end_code_def)
qed

text \<open>When the main thread is free of handlers, \<open>main\<close> returns within five steps.\<close>

lemma main_exits:
  assumes lf: "fifo_queue lf contents" and w: "ending_work contents lf now e" and inv: "ending_inv caller s e"
    and alive: "\<And>code. en_main e \<noteq> Exited code"
    and main: "l_threads (h_listener (en_hall e)) ! main_thread (h_listener (en_hall e)) = Idle"
    and free: "\<And>k. en_stop e \<noteq> Joining (main_thread (h_listener (en_hall e))) k"
  obtains evs e' where "ending_run fs lf index e evs e'" "length evs \<le> 5" "en_main e' = Exited (exit_code s)"
    and "h_listener (en_hall e') = h_listener (en_hall e)"
proof (cases "en_main e")
  case In_run
  let ?e1 = "e\<lparr>en_hall := (en_hall e)\<lparr>h_state := stop_managers (h_state (en_hall e))\<rparr>, en_main := Stopping_queue\<rparr>"
  have "l_stopped (h_listener (en_hall e))" using inv by (simp add: ending_inv_def Let_def)
  then have step: "ending_step fs lf index e Main_leaves ?e1" using In_run main free by (intro ending_leaves) auto
  have "ending_work contents lf now ?e1" by (rule ending_work_step [OF lf step w])
  moreover have "en_signal ?e1 = Some s" using inv by (simp add: ending_inv_def Let_def)
  ultimately obtain e' where e': "ending_run fs lf index ?e1 (replicate 3 (Running Worker) @ [Main_exits]) e'"
    "en_main e' = Exited (exit_code s)" "h_listener (en_hall e') = h_listener (en_hall ?e1)"
    by (elim stopping_exits [OF lf, rotated 2]) auto
  show ?thesis by (rule that [OF ending_next [OF step e'(1)]]) (use e' in simp_all)
next
  case Stopping_queue
  moreover have "en_signal e = Some s" using inv by (simp add: ending_inv_def Let_def)
  ultimately obtain e' where e': "ending_run fs lf index e (replicate 3 (Running Worker) @ [Main_exits]) e'"
    "en_main e' = Exited (exit_code s)" "h_listener (en_hall e') = h_listener (en_hall e)"
    by (elim stopping_exits [OF lf w, rotated]) auto
  show ?thesis by (rule that [OF e'(1)]) (use e' in simp_all)
qed (use alive in simp)

text \<open>The main thread is never joined.\<close>

lemma main_idle:
  assumes inv: "ending_inv caller s e" and quiet: "Serving \<notin> set (l_threads (h_listener (en_hall e)))"
  shows "l_threads (h_listener (en_hall e)) ! main_thread (h_listener (en_hall e)) = Idle"
proof -
  let ?l = "h_listener (en_hall e)"
  have size0: "main_thread ?l < length (l_threads ?l)"
    using inv by (simp add: ending_inv_def Let_def main_thread_def)
  have "l_threads ?l ! main_thread ?l \<noteq> Joined"
    using inv size0 by (auto simp: ending_inv_def joined_upto_def Let_def split: stop_call.splits)
  moreover have "l_threads ?l ! main_thread ?l \<noteq> Serving" using quiet size0 nth_mem by metis
  ultimately show ?thesis by (cases "l_threads ?l ! main_thread ?l") simp_all
qed

text \<open>When no thread serves a client, the handler's call of \<open>stop\<close> returns.\<close>

lemma joins_finish:
  assumes "ending_inv caller s e" "\<And>code. en_main e \<noteq> Exited code"
    and "Serving \<notin> set (l_threads (h_listener (en_hall e)))" "en_stop e = Joining caller k"
  shows "\<exists>evs e'. ending_run fs lf index e evs e' \<and> length evs = main_thread (h_listener (en_hall e)) - k + 1
    \<and> en_stop e' = Stop_returned caller \<and> en_main e' = en_main e
    \<and> main_thread (h_listener (en_hall e')) = main_thread (h_listener (en_hall e))
    \<and> (\<forall>j. caller = j \<or> main_thread (h_listener (en_hall e)) \<le> j \<longrightarrow>
        l_threads (h_listener (en_hall e')) ! j = l_threads (h_listener (en_hall e)) ! j)"
  using assms
proof (induction "main_thread (h_listener (en_hall e)) - k" arbitrary: e k rule: less_induct)
  case less
  let ?l = "h_listener (en_hall e)"
  have inv: "joined_upto caller k ?l" "k \<le> main_thread ?l" "l_stopped ?l"
    "0 < length (l_threads ?l)" "length (l_threads ?l) = max 1 (unat (l_threadQty ?l))"
    using less.prems(1,4) by (auto simp: ending_inv_def Let_def)
  have further: "?case" if j: "join_next caller k ?l = Returns (Joining caller (Suc k), l)" "k < main_thread ?l"
    "length (l_threads l) = length (l_threads ?l)" "set (l_threads l) \<subseteq> insert Joined (set (l_threads ?l))"
    "\<forall>j. caller = j \<or> main_thread ?l \<le> j \<longrightarrow> l_threads l ! j = l_threads ?l ! j" for l
  proof -
    let ?e1 = "e\<lparr>en_hall := (en_hall e)\<lparr>h_listener := l\<rparr>, en_stop := Joining caller (Suc k)\<rparr>"
    have step: "ending_step fs lf index e Join_next ?e1"
      using ending_join [of e caller k "Joining caller (Suc k)" l fs lf index] less.prems(2,4) j(1) by simp
    have "ending_inv caller s ?e1" by (rule ending_inv_step [OF step less.prems(1)])
    moreover have "main_thread l = main_thread ?l" using j(3) by (simp add: main_thread_def)
    moreover have "Serving \<notin> set (l_threads l)" using j(4) less.prems(3) by auto
    moreover have "main_thread (h_listener (en_hall ?e1)) - Suc k < main_thread ?l - k"
      using j(2,3) by (simp add: main_thread_def)
    ultimately have "\<exists>evs e'. ending_run fs lf index ?e1 evs e' \<and> length evs = main_thread (h_listener (en_hall ?e1)) - Suc k + 1
      \<and> en_stop e' = Stop_returned caller \<and> en_main e' = en_main ?e1
      \<and> main_thread (h_listener (en_hall e')) = main_thread (h_listener (en_hall ?e1))
      \<and> (\<forall>j. caller = j \<or> main_thread (h_listener (en_hall ?e1)) \<le> j \<longrightarrow>
          l_threads (h_listener (en_hall e')) ! j = l_threads (h_listener (en_hall ?e1)) ! j)"
      using less.prems(2) by (intro less.hyps) simp_all
    then obtain evs e' where "ending_run fs lf index ?e1 evs e'" "length evs = main_thread ?l - Suc k + 1"
      "en_stop e' = Stop_returned caller" "en_main e' = en_main e" "main_thread (h_listener (en_hall e')) = main_thread ?l"
      "\<forall>j. caller = j \<or> main_thread ?l \<le> j \<longrightarrow> l_threads (h_listener (en_hall e')) ! j = l_threads l ! j"
      using j(3) by (auto simp: main_thread_def)
    then show ?thesis using ending_next [OF step] j(2,5) by (intro exI [of _ "Join_next # evs"] exI [of _ e']) auto
  qed
  show ?case
  proof (cases rule: join_next_cases [OF inv, case_names over own idle serving])
    case over
    have "ending_step fs lf index e Join_next (e\<lparr>en_hall := (en_hall e)\<lparr>h_listener := ?l\<rparr>, en_stop := Stop_returned caller\<rparr>)"
      using ending_join [of e caller k "Stop_returned caller" ?l fs lf index] less.prems(2,4) over(2) by simp
    then show ?thesis
      using over(1) ending_next [OF _ ending_none]
      by (intro exI [of _ "[Join_next]"] exI [of _ "e\<lparr>en_hall := (en_hall e)\<lparr>h_listener := ?l\<rparr>, en_stop := Stop_returned caller\<rparr>"]) simp
  next
    case own
    then show ?thesis using further by blast
  next
    case idle
    show ?thesis
      by (rule further [OF idle(4,1)]) (use idle set_update_subset_insert [of "l_threads ?l" k Joined] in auto)
  next
    case serving
    then have "Serving \<in> set (l_threads ?l)" using nth_mem [of k "l_threads ?l"] by (simp add: main_thread_def)
    then show ?thesis using less.prems(3) by simp
  qed
qed

subsection \<open>Properties\<close>

text \<open>
  C9. After a signal the program ends. Take any run of what \<open>main\<close> starts, the signal on any thread that is
  free, and any further steps of connections, worker, timer, \<open>stop\<close> and \<open>main\<close>, to a state in which no
  thread serves a client any more and \<open>main\<close> has not returned: then at most as many steps as there are
  threads, and five, let \<open>main\<close> return the exit code of the signal. Nothing deadlocks, neither the joins of
  the threads nor that of the worker.
\<close>

theorem shutdown_exits:
  assumes lf: "fifo_queue lf contents" and q: "contents q = []"
    and build: "tracker_build make_address lf q dk now argv = Inr (Inr tk)"
    and run: "system_run fs lf index (tracker_hall (tracker_start tk)) es h"
    and no_stop: "\<And>c. Client (Listen (Stop_called c)) \<notin> set es"
    and ending: "ending_run fs lf index (ending_new h) (Signalled s caller # evs) e"
    and quiet: "Serving \<notin> set (l_threads (h_listener (en_hall e)))"
    and alive: "\<And>code. en_main e \<noteq> Exited code"
  shows "\<exists>more e'. ending_run fs lf index e more e' \<and> length more \<le> unat (parse_threads argv) + 5
    \<and> en_main e' = Exited (exit_code s)"
proof -
  let ?l = "h_listener (en_hall e)"
  note start = signalled_inv [OF lf q build run no_stop]
  have after: "ending_run fs lf index (signalled s caller h) evs e" using ending by (simp add: ending_run_signalled)
  have inv: "ending_inv caller s e" by (rule ending_inv_run [OF after start(1)])
  have w: "ending_work contents lf now e" by (rule ending_work_run [OF lf after start(2)])
  note main = main_idle [OF inv quiet]
  have "length (l_threads ?l) = unat (parse_threads argv)"
    using ending_size_run [OF after start(1)] start(4) by (simp add: signalled_def)
  then have pool: "main_thread ?l < unat (parse_threads argv)"
    using inv by (simp add: ending_inv_def Let_def main_thread_def)
  show ?thesis
  proof (cases "\<exists>k. en_stop e = Joining (main_thread ?l) k")
    case False
    then obtain more e' where "ending_run fs lf index e more e'" "length more \<le> 5" "en_main e' = Exited (exit_code s)"
      using main_exits [OF lf w inv alive main] by metis
    then show ?thesis using le_trans by fastforce
  next
    case True
    then obtain k where k: "en_stop e = Joining caller k" "caller = main_thread ?l"
      using inv by (auto simp: ending_inv_def Let_def)
    obtain evs1 e1 where e1: "ending_run fs lf index e evs1 e1" "length evs1 = main_thread ?l - k + 1"
      "en_stop e1 = Stop_returned caller" "en_main e1 = en_main e" "main_thread (h_listener (en_hall e1)) = main_thread ?l"
      "l_threads (h_listener (en_hall e1)) ! main_thread ?l = Idle"
      using joins_finish [OF inv alive quiet k(1), where fs = fs and lf = lf and index = index] main by auto
    have there: "ending_work contents lf now e1" "ending_inv caller s e1"
      by (rule ending_work_run [OF lf e1(1) w], rule ending_inv_run [OF e1(1) inv])
    have "en_main e1 \<noteq> Exited code" "en_stop e1 \<noteq> Joining (main_thread (h_listener (en_hall e1))) j"
      "l_threads (h_listener (en_hall e1)) ! main_thread (h_listener (en_hall e1)) = Idle" for code j
      using alive e1(3-6) by simp_all
    then obtain more e' where "ending_run fs lf index e1 more e'" "length more \<le> 5" "en_main e' = Exited (exit_code s)"
      by (elim main_exits [OF lf there, rotated])
    then show ?thesis
      using ending_run_append [OF e1(1)] e1(2) pool by (intro exI [of _ "evs1 @ more"] exI [of _ e']) simp
  qed
qed

text \<open>The tracker with four threads, told to end before any client has come.\<close>

lemma shutdown_exits_witness:
  "\<exists>tk more e'. tracker_build (\<lambda>_. True) list_lockfree [] empty_disk 0 tracker_argv = Inr (Inr tk)
    \<and> ending_run disk_filesystem list_lockfree None (signalled SIGINT 3 (tracker_hall (tracker_start tk))) more e'
    \<and> length more \<le> 9 \<and> en_main e' = Exited 0"
proof (rule tracker_argv_build)
  fix tk assume build: "tracker_build (\<lambda>_. True) list_lockfree [] empty_disk 0 tracker_argv = Inr (Inr tk)"
    and web: "w_qListener (tk_web (tracker_start tk)) = w_qListener (webserver_start (tracker_web list_lockfree 0 8080 4))"
  let ?h = "tracker_hall (tracker_start tk)"
  have l: "l_threads (h_listener ?h) = replicate 4 Idle" "\<not> l_stopped (h_listener ?h)"
    using started_listener [of list_lockfree 0 8080 4] web by (simp_all add: tracker_hall_def hall_new_def)
  have ending: "ending_run disk_filesystem list_lockfree None (ending_new ?h) [Signalled SIGINT 3] (signalled SIGINT 3 ?h)"
    using l by (simp add: ending_run_signalled ending_none)
  have quiet: "Serving \<notin> set (l_threads (h_listener (en_hall (signalled SIGINT 3 ?h))))"
    using l by (simp add: signalled_def)
  have alive: "en_main (signalled SIGINT 3 ?h) \<noteq> Exited code" for code by (simp add: signalled_def)
  have "parse_threads tracker_argv = 4" by code_simp
  then show ?thesis
    using shutdown_exits [OF fifo_list refl build system_none _ ending quiet alive] build
    by (auto simp: exit_code_def EXIT_SUCCESS_def)
qed

text \<open>
  C31. Whether the program waits for its clients depends on the thread that handles the signal. When it is a
  free thread of the pool, the main thread is free too and another thread serves a client, then \<open>main\<close> can
  return within five steps, with the exit code of the signal, while that client is still served by objects
  that \<open>main\<close> has destroyed. When it is the main thread, \<open>main\<close> leaves \<open>run\<close> only after every other thread
  has been joined.
\<close>

theorem exit_can_overtake_clients:
  assumes lf: "fifo_queue lf contents" and q: "contents q = []"
    and build: "tracker_build make_address lf q dk now argv = Inr (Inr tk)"
    and run: "system_run fs lf index (tracker_hall (tracker_start tk)) es h"
    and no_stop: "\<And>c. Client (Listen (Stop_called c)) \<notin> set es"
  shows "(caller < main_thread (h_listener h) \<longrightarrow> l_threads (h_listener h) ! caller = Idle \<longrightarrow>
      l_threads (h_listener h) ! main_thread (h_listener h) = Idle \<longrightarrow> l_threads (h_listener h) ! i = Serving \<longrightarrow>
      (\<exists>evs e. ending_run fs lf index (ending_new h) (Signalled s caller # evs) e \<and> length evs \<le> 5
        \<and> en_main e = Exited (exit_code s) \<and> l_threads (h_listener (en_hall e)) ! i = Serving))
    \<and> (\<forall>evs e j. ending_run fs lf index (ending_new h) (Signalled s (main_thread (h_listener h)) # evs) e \<longrightarrow>
      en_main e \<noteq> In_run \<longrightarrow> j < main_thread (h_listener h) \<longrightarrow> l_threads (h_listener (en_hall e)) ! j = Joined)"
proof (intro conjI impI allI)
  let ?l = "h_listener h"
  note start = signalled_inv [OF lf q build run no_stop]
  assume c: "caller < main_thread ?l" "l_threads ?l ! caller = Idle" and main: "l_threads ?l ! main_thread ?l = Idle"
    and i: "l_threads ?l ! i = Serving"
  let ?e = "signalled s caller h"
  have e: "main_thread (h_listener (en_hall ?e)) = main_thread ?l" "l_threads (h_listener (en_hall ?e)) = l_threads ?l"
    by (simp_all add: signalled_def main_thread_def)
  have free: "en_stop ?e \<noteq> Joining (main_thread (h_listener (en_hall ?e))) k" for k
    using c(1) e by (simp add: signalled_def)
  have alive: "en_main ?e \<noteq> Exited code" for code by (simp add: signalled_def)
  have main': "l_threads (h_listener (en_hall ?e)) ! main_thread (h_listener (en_hall ?e)) = Idle" using main e by simp
  obtain evs e' where "ending_run fs lf index ?e evs e'" "length evs \<le> 5" "en_main e' = Exited (exit_code s)"
    "h_listener (en_hall e') = h_listener (en_hall ?e)"
    by (rule main_exits [OF lf start(2,1) alive main' free])
  then show "\<exists>evs e. ending_run fs lf index (ending_new h) (Signalled s caller # evs) e \<and> length evs \<le> 5
        \<and> en_main e = Exited (exit_code s) \<and> l_threads (h_listener (en_hall e)) ! i = Serving"
    using c start(3) i e by (intro exI [of _ evs] exI [of _ e']) (simp add: ending_run_signalled main_thread_def)
next
  let ?l = "h_listener h"
  note start = signalled_inv [OF lf q build run no_stop]
  fix evs e j
  assume ending: "ending_run fs lf index (ending_new h) (Signalled s (main_thread ?l) # evs) e"
    and left: "en_main e \<noteq> In_run" and j: "j < main_thread ?l"
  then have after: "ending_run fs lf index (signalled s (main_thread ?l) h) evs e" by (simp add: ending_run_signalled)
  have inv: "ending_inv (main_thread ?l) s e" by (rule ending_inv_run [OF after start(1)])
  have "main_thread (h_listener (en_hall e)) = main_thread ?l"
    using ending_size_run [OF after start(1)] by (simp add: signalled_def main_thread_def)
  then show "l_threads (h_listener (en_hall e)) ! j = Joined"
    using inv left j by (auto simp: ending_inv_def Let_def joined_upto_def main_thread_def split: stop_call.splits)
qed

text \<open>Two clients, the second of whom is still there when a thread of the pool handles the signal.\<close>

lemma exit_can_overtake_clients_witness:
  "\<exists>h evs e. ending_run disk_filesystem list_lockfree None (ending_new h) (Signalled SIGQUIT 1 # evs) e
    \<and> en_main e = Exited 0 \<and> l_threads (h_listener (en_hall e)) ! 0 = Serving"
proof (rule two_clients_system)
  fix tk h and v :: uint
  assume build: "tracker_build (\<lambda>_. True) list_lockfree [] empty_disk 0 tracker_argv = Inr (Inr tk)"
    and run: "system_run disk_filesystem list_lockfree None (tracker_hall (tracker_start tk)) (map Client two_clients) h"
    and l: "l_threads (h_listener h) = [Serving, Idle, Idle, Idle]"
  have no_stop: "Client (Listen (Stop_called c)) \<notin> set (map Client two_clients)" for c
    by (auto simp: two_clients_def)
  show ?thesis
    using exit_can_overtake_clients [OF fifo_list refl build run no_stop, THEN conjunct1, of 1 0 SIGQUIT] l
    by (auto simp: main_thread_def exit_code_def EXIT_SUCCESS_def)
qed

end
