(* ===== verification/FullDisk.thy ===== *)
theory FullDisk
  imports MessageServerProps
begin

section \<open>Backups on a full disk (src/MapManager.cpp, src/backupmanager.cpp)\<close>

text \<open>
  What \<open>backupRequest\<close> reports when the device takes no more bytes. The bytes wait in the stream's buffer,
  the code tests \<open>bad()\<close> before it closes the stream, and the failure to empty the buffer shows only when
  the stream is closed. The files are left empty, and a restore from empty files succeeds.
\<close>

subsection \<open>Streams on a full device\<close>

definition full_device :: "ofstream \<Rightarrow> bool" where
  "full_device os \<longleftrightarrow> os_room os = Some 0 \<and> os_written os = [] \<and> \<not> os_failbit os"

text \<open>After the bytes \<open>cs\<close> were put into it: all of them wait, or they did not fit and the stream is bad.\<close>

definition holds :: "ofstream \<Rightarrow> string \<Rightarrow> bool" where
  "holds os cs \<longleftrightarrow> full_device os
     \<and> (if length cs \<le> os_capacity os then \<not> os_badbit os \<and> os_buffer os = cs else os_badbit os)"

lemma holds_put:
  assumes "holds os cs"
  shows "holds (put_string s os) (cs @ s) \<and> os_capacity (put_string s os) = os_capacity os"
  using assms
  by (cases "length cs \<le> os_capacity os")
    (auto simp: holds_def full_device_def put_string_def to_device_def Let_def)

lemma holds_puts:
  "holds os cs \<Longrightarrow> holds (fold put_string ss os) (cs @ concat ss) \<and> os_capacity (fold put_string ss os) = os_capacity os"
proof (induction ss arbitrary: os cs)
  case (Cons s ss)
  then show ?case using holds_put [OF Cons.prems, of s] Cons.IH [of "put_string s os" "cs @ s"] by simp
qed simp

lemma holds_badbit: "holds os cs \<Longrightarrow> os_badbit os \<longleftrightarrow> os_capacity os < length cs"
  by (auto simp: holds_def split: if_splits)

lemma close_out_full: "full_device os \<Longrightarrow> os_written (close_out os) = []"
  by (simp add: full_device_def close_out_def to_device_def)

lemma dump_frequencies_full:
  assumes "holds os cs" "length cs \<le> os_capacity os"
  shows "(fst (dump_frequencies fm os) \<longleftrightarrow> length (cs @ concat (map frequency_line fm)) \<le> os_capacity os)
    \<and> full_device (snd (dump_frequencies fm os))"
  using assms
proof (induction fm arbitrary: os cs)
  case (Cons p fm)
  let ?os1 = "fold put_string [to_string (unat (fst p)), [FIELD_SEPARATOR], snd p, [newline]] os"
  have h: "holds ?os1 (cs @ frequency_line p)" "os_capacity ?os1 = os_capacity os"
    using holds_puts [OF Cons.prems(1), of "[to_string (unat (fst p)), [FIELD_SEPARATOR], snd p, [newline]]"]
    by (simp_all add: frequency_line_def)
  have step: "dump_frequencies (p # fm) os = (if os_badbit ?os1 then (False, ?os1) else dump_frequencies fm ?os1)"
    by (simp add: Let_def)
  show ?case
    unfolding step using Cons.IH [OF h(1)] holds_badbit [OF h(1)] h by (auto simp: holds_def)
qed (simp add: holds_def)

lemma dump_keys_full:
  assumes "holds os cs"
  shows "holds (dump_keys km os) (cs @ concat (map key_line km)) \<and> os_capacity (dump_keys km os) = os_capacity os"
  using assms
proof (induction km arbitrary: os cs)
  case (Cons q km)
  let ?ss = "[fst q, [FIELD_SEPARATOR], to_string (unat (kd_frequency (snd q))), [FIELD_SEPARATOR],
    kd_url (snd q), [FIELD_SEPARATOR], to_string (unat (kd_port (snd q))), [newline]]"
  have step: "dump_keys (q # km) os = dump_keys km (fold put_string ?ss os)" by simp
  show ?case
    unfolding step using holds_puts [OF Cons.prems, of ?ss] Cons.IH [of "fold put_string ?ss os" "cs @ concat ?ss"]
    by (simp add: key_line_def)
qed simp

subsection \<open>Both requests\<close>

text \<open>A disk whose two files can be opened, written to no further, and read.\<close>

definition full_disk :: "string \<Rightarrow> string \<Rightarrow> disk \<Rightarrow> bool" where
  "full_disk kf ff dk \<longleftrightarrow> kf \<noteq> ff \<and> (\<forall>name \<in> {kf, ff}. dk_writable dk name \<and> dk_readable dk name
     \<and> dk_write_limit dk name = Some 0 \<and> dk_read_limit dk name = None)"

lemma backupRequest_full:
  assumes "full_disk kf ff dk" "m_writingData mm = 0"
  obtains dk' where "backupRequest kf ff dk mm =
      (Returns (length (concat (map frequency_line (m_pFrequencyMap mm))) \<le> dk_buffer dk
        \<and> length (concat (map key_line (m_pKeyMap mm))) \<le> dk_buffer dk), dk')"
    and "full_disk kf ff dk'" "dk_files dk' kf = Some []" "dk_files dk' ff = Some []"
proof -
  let ?os = "open_out (dk_buffer dk) (Some 0)"
  let ?f = "dump_frequencies (m_pFrequencyMap mm) ?os" and ?k = "dump_keys (m_pKeyMap mm) ?os"
  have h: "holds ?os []" "os_capacity ?os = dk_buffer dk" by (simp_all add: holds_def full_device_def open_out_def)
  have opened: "ofstream_open dk kf = ?os" "ofstream_open (store_file kf ?os dk) ff = ?os"
    using assms(1) by (auto simp: full_disk_def ofstream_open_def)
  have f: "fst ?f \<longleftrightarrow> length (concat (map frequency_line (m_pFrequencyMap mm))) \<le> dk_buffer dk"
    "os_written (close_out (snd ?f)) = []"
    using dump_frequencies_full [OF h(1), of "m_pFrequencyMap mm"] h(2) by (simp_all add: close_out_full)
  have k: "os_badbit ?k \<longleftrightarrow> dk_buffer dk < length (concat (map key_line (m_pKeyMap mm)))"
    "os_written (close_out ?k) = []"
  proof -
    have hk: "holds ?k (concat (map key_line (m_pKeyMap mm)))" "os_capacity ?k = dk_buffer dk"
      using dump_keys_full [OF h(1), of "m_pKeyMap mm"] h(2) by simp_all
    show "os_badbit ?k \<longleftrightarrow> dk_buffer dk < length (concat (map key_line (m_pKeyMap mm)))"
      using holds_badbit [OF hk(1)] hk(2) by simp
    show "os_written (close_out ?k) = []" using hk(1) by (simp add: holds_def close_out_full)
  qed
  let ?dk3 = "store_file ff (close_out (snd ?f)) (store_file ff ?os (store_file kf ?os dk))"
  have eq: "backupRequest kf ff dk mm = (if fst ?f then (Returns (\<not> os_badbit ?k), store_file kf (close_out ?k) ?dk3)
      else (Returns False, ?dk3))"
    unfolding backupRequest_def Let_def opened using assms(2) by (simp add: split_beta)
  have w: "dk_writable dk kf" "dk_writable dk ff" "kf \<noteq> ff" using assms(1) by (auto simp: full_disk_def)
  have after: "dk_files dk' kf = Some [] \<and> dk_files dk' ff = Some [] \<and> full_disk kf ff dk'"
    if "dk' \<in> {?dk3, store_file kf (close_out ?k) ?dk3}" for dk'
    using that w f(2) k(2) assms(1) by (auto simp: store_file_def full_disk_def)
  show ?thesis
    using that [OF _ after [THEN conjunct2, THEN conjunct2]] that after eq f(1) k(1)
    by (cases "fst ?f") (auto simp: not_less)
qed

lemma restoreRequest_empty:
  assumes "full_disk kf ff dk" "dk_files dk kf = Some []" "dk_files dk ff = Some []"
  shows "restoreRequest kf ff dk mm =
    (Returns True, notify_one (mm\<lparr>m_pKeyMap := [], m_pFrequencyMap := [], m_writingData := 0\<rparr>))"
proof -
  have opened: "ifstream_open dk kf = open_in [] False" "ifstream_open dk ff = open_in [] False"
    using assms by (simp_all add: ifstream_open_def full_disk_def)
  have keys: "fst (restore_keys (open_in [] False) s []) = Returns True" "fst (snd (restore_keys (open_in [] False) s [])) = []" for s
    by (subst restore_keys.simps, simp add: read_key_fields_def getline_def is_good_def open_in_def)+
  have freqs: "restore_frequencies (open_in [] False) s [] = (Returns True, [])" for s
    by (subst restore_frequencies.simps) (simp add: read_frequency_fields_def getline_def is_good_def open_in_def)
  show ?thesis
    using keys [of "\<lparr>f_key = [], f_order = [], f_url = [], f_port = []\<rparr>"]
    by (simp add: restoreRequest_def opened freqs Let_def split_beta)
qed

subsection \<open>Properties\<close>

lemma full_disk_files [simp]: "full_disk kf ff (dk\<lparr>dk_files := g\<rparr>) = full_disk kf ff dk"
  by (simp add: full_disk_def)

text \<open>
  C22. A backup on a disk that takes no more bytes reports success as long as each of the two texts fits
  the stream's buffer, and failure otherwise; the backup manager ignores the difference. Both files are
  left empty, so that \<open>restore\<close> on any server that reads them answers that it restored, and the server has
  no keys any more.
\<close>

theorem full_disk_backup_loses_all:
  assumes fs: "posix_files fs" and names: "names_of b kname fname ext"
    and full: "full_disk (b_keyFilename b) (b_frequencyFilename b) dk" and mgr: "m_writingData mgr = 0"
    and sv: "sv_disk sv = snd (manager_backupRequest fs b mgr dk)" "m_pBackupManager sv = b" "m_pMapManager sv"
  shows "fst (backupRequest (b_keyFilename b) (b_frequencyFilename b) dk mgr) =
      Returns (length (concat (map frequency_line (m_pFrequencyMap mgr))) \<le> dk_buffer dk
        \<and> length (concat (map key_line (m_pKeyMap mgr))) \<le> dk_buffer dk)
    \<and> fst (manager_backupRequest fs b mgr dk) = Returns ()
    \<and> (\<exists>sv1. onMessage lf now ''restore'' d out sv = (Returns (CMD_SUCCEEDED, ''Restored OK.''), sv1)
        \<and> m_pKeyMap (manager_of sv1) = [] \<and> m_pFrequencyMap (manager_of sv1) = []
        \<and> fst (onMessage lf now ''totalKeys'' data out sv1) = Returns (CMD_SUCCEEDED, ''0''))"
proof -
  let ?kf = "b_keyFilename b" and ?ff = "b_frequencyFilename b"
  obtain g where g: "renameFiles fs b dk = (Returns (), dk\<lparr>dk_files := g\<rparr>)"
    by (rule renameFiles_rotates [OF fs names, of dk])
  have "full_disk ?kf ?ff (dk\<lparr>dk_files := g\<rparr>)" using full by simp
  then obtain r dk' where dk': "backupRequest ?kf ?ff (dk\<lparr>dk_files := g\<rparr>) mgr = (Returns r, dk')"
    "full_disk ?kf ?ff dk'" "dk_files dk' ?kf = Some []" "dk_files dk' ?ff = Some []"
    using backupRequest_full [OF _ mgr] by metis
  have backup: "manager_backupRequest fs b mgr dk = (Returns (), dk')"
    using g dk'(1) by (simp add: manager_backupRequest_def)
  let ?sv1 = "sv\<lparr>m_pMessageQueue := (m_pMessageQueue sv)
      \<lparr>consumer := notify_one ((manager_of sv)\<lparr>m_pKeyMap := [], m_pFrequencyMap := [], m_writingData := 0\<rparr>)\<rparr>\<rparr>"
  have "onMessage lf now ''restore'' d out sv = (Returns (CMD_SUCCEEDED, ''Restored OK.''), ?sv1)"
    using sv(1,2) backup restoreRequest_empty [OF dk'(2-4)] by (simp add: onMessage_defs manager_restoreRequest_def)
  moreover have "fst (onMessage lf now ''totalKeys'' data out ?sv1) = Returns (CMD_SUCCEEDED, ''0'')"
    using sv(3) by (simp add: onMessage_defs server_getTotalKeys_def getTotalKeyNumber_def notify_one_def)
  moreover have "manager_of ?sv1 = notify_one ((manager_of sv)\<lparr>m_pKeyMap := [], m_pFrequencyMap := [], m_writingData := 0\<rparr>)"
    by simp
  moreover obtain dk2 where "backupRequest ?kf ?ff dk mgr =
      (Returns (length (concat (map frequency_line (m_pFrequencyMap mgr))) \<le> dk_buffer dk
        \<and> length (concat (map key_line (m_pKeyMap mgr))) \<le> dk_buffer dk), dk2)"
    by (rule backupRequest_full [OF full mgr])
  ultimately show ?thesis
    using backup by (intro conjI exI [of _ ?sv1]) (simp_all add: notify_one_def)
qed

lemma full_disk_backup_loses_all_witness:
  defines "mgr \<equiv> addOrUpdateKey ''a'' ''u'' 80 MapManager_default"
    and "dk \<equiv> \<lparr>dk_files = [''keys.csv'' \<mapsto> ''old''], dk_readable = (\<lambda>_. True), dk_writable = (\<lambda>_. True),
      dk_read_limit = (\<lambda>_. None), dk_write_limit = (\<lambda>_. Some 0), dk_buffer = 8191\<rparr>"
  defines "sv \<equiv> tracker_server\<lparr>sv_disk := snd (manager_backupRequest disk_filesystem tracker_backup mgr dk)\<rparr>"
  shows "fst (backupRequest (b_keyFilename tracker_backup) (b_frequencyFilename tracker_backup) dk mgr) = Returns True
    \<and> fst (onMessage list_lockfree 0 ''restore'' [] [] sv) = Returns (CMD_SUCCEEDED, ''Restored OK.'')"
proof -
  have full: "full_disk (b_keyFilename tracker_backup) (b_frequencyFilename tracker_backup) dk"
    using names_ofD(3) [OF names_of_tracker, of 0 0] names_of_tracker
    by (simp add: full_disk_def dk_def names_of_def generation_def)
  have mgr: "m_pKeyMap mgr = [(''a'', \<lparr>kd_url = ''u'', kd_port = 80, kd_frequency = 1\<rparr>)]"
    "m_pFrequencyMap mgr = [(1, ''a'')]" "m_writingData mgr = 0"
    unfolding mgr_def by code_simp+
  have "length (concat (map frequency_line (m_pFrequencyMap mgr))) \<le> dk_buffer dk
      \<and> length (concat (map key_line (m_pKeyMap mgr))) \<le> dk_buffer dk"
    using to_string_length [of 4 1] to_string_length [of 4 80]
    by (simp add: mgr frequency_line_def key_line_def dk_def)
  then show ?thesis
    using full_disk_backup_loses_all [OF posix_disk_filesystem names_of_tracker full mgr(3),
        where sv = sv and lf = list_lockfree and now = 0 and d = "[]" and out = "[]" and data = "[]"]
    by (auto simp: sv_def tracker_server_def)
qed

end
