(* ===== verification/TrackerSpec.thy ===== *)
theory TrackerSpec
  imports MessageServerProps
begin

section \<open>What the tracker promises its clients\<close>

text \<open>
  The abstract machine of the tracker: the counts, the length of the report, the messages that are not
  handled yet, and what the last backup has saved. It says which reply each request may get and what the
  request changes, without maps, ranking, queue, files or threads. The last part is the notion of
  refinement: a run of a step relation with what is observed of it, and forward simulations.
\<close>

subsection \<open>The abstract state\<close>

datatype spec_message =
    Add string
  | Set_base nat

record tracker_spec =
  sp_counts :: "string \<Rightarrow> nat"
  sp_base :: nat
  sp_pending :: "spec_message list"
  sp_saved :: "(string \<Rightarrow> nat) option"

text \<open>A tracker that has counted nothing, on a disk that restores \<open>saved\<close>.\<close>

definition spec_start :: "(string \<Rightarrow> nat) option \<Rightarrow> tracker_spec" where
  "spec_start saved = \<lparr>sp_counts = (\<lambda>_. 0), sp_base = 10, sp_pending = [], sp_saved = saved\<rparr>"

fun spec_handle :: "spec_message \<Rightarrow> tracker_spec \<Rightarrow> tracker_spec" where
  "spec_handle (Add k) s = s\<lparr>sp_counts := (sp_counts s)(k := Suc (sp_counts s k))\<rparr>"
| "spec_handle (Set_base b) s = s\<lparr>sp_base := min b 20\<rparr>"

abbreviation spec_send :: "spec_message \<Rightarrow> tracker_spec \<Rightarrow> tracker_spec" where
  "spec_send m s \<equiv> s\<lparr>sp_pending := sp_pending s @ [m]\<rparr>"

subsection \<open>The replies\<close>

text \<open>The keys counted so far, a report of the most frequent ones, and whether a key is one of them.\<close>

definition counted :: "(string \<Rightarrow> nat) \<Rightarrow> string set" where
  "counted c = {k. 0 < c k}"

definition is_report :: "(string \<Rightarrow> nat) \<Rightarrow> nat \<Rightarrow> key_frequency list \<Rightarrow> bool" where
  "is_report c base vec \<longleftrightarrow> length vec = min base (min 20 (card (counted c)))
     \<and> distinct (map kf_key vec) \<and> kf_key ` set vec \<subseteq> counted c
     \<and> (\<forall>e \<in> set vec. kf_frequency e = to_string (c (kf_key e)))
     \<and> sorted (rev (map (\<lambda>e. c (kf_key e)) vec))
     \<and> (\<forall>k \<in> counted c - kf_key ` set vec. \<forall>e \<in> set vec. c k \<le> c (kf_key e))"

definition is_hot :: "(string \<Rightarrow> nat) \<Rightarrow> string \<Rightarrow> bool \<Rightarrow> bool" where
  "is_hot c key hot \<longleftrightarrow> (hot \<longrightarrow> key \<in> counted c \<and> card {k. c key < c k} < 20)
     \<and> (key \<in> counted c \<and> card {k. c key \<le> c k} \<le> 20 \<longrightarrow> hot)"

definition resizes :: "string \<Rightarrow> bool" where
  "resizes t \<longleftrightarrow> t = ''setTopHotKeys'' \<or> t = ''setKeyReportBaseSize''"

definition counts_keys :: "string \<Rightarrow> bool" where
  "counts_keys t \<longleftrightarrow> t = ''keySent'' \<or> t = ''isHotKey'' \<or> t = ''getTopHotKeys'' \<or> t = ''totalKeys'' \<or> t = ''restore''"

inductive spec_reply :: "tracker_spec \<Rightarrow> string \<Rightarrow> string \<Rightarrow> int \<times> string \<Rightarrow> tracker_spec \<Rightarrow> bool" where
  reply_keySent: "spec_reply s ''keySent'' d (1, ''reported key sent : '' @ key_of d) (spec_send (Add (key_of d)) s)"
| reply_isHotKey: "is_hot (sp_counts s) d hot \<Longrightarrow> spec_reply s ''isHotKey'' d (1, if hot then ''YES'' else ''NO'') s"
| reply_getTopHotKeys: "is_report (sp_counts s) (sp_base s) vec \<Longrightarrow> spec_reply s ''getTopHotKeys'' d (1, report_text vec) s"
| reply_totalKeys: "spec_reply s ''totalKeys'' d (1, to_string (card (counted (sp_counts s)) mod 2 ^ 32)) s"
| reply_resize: "resizes t \<Longrightarrow> stoi d = Inr num \<Longrightarrow> 0 < num \<Longrightarrow>
    spec_reply s t d (1, ''Top key report size is now '' @ d) (spec_send (Set_base (nat (num mod 2 ^ 16))) s)"
| reply_resize_refused: "resizes t \<Longrightarrow> \<forall>num. stoi d = Inr num \<longrightarrow> num \<le> 0 \<Longrightarrow> spec_reply s t d (0, msg @ d) s"
| reply_restored: "sp_saved s = Some c \<Longrightarrow> spec_reply s ''restore'' d (1, ''Restored OK.'') (s\<lparr>sp_counts := c\<rparr>)"
| reply_not_restored: "sp_saved s = None \<Longrightarrow> spec_reply s ''restore'' d (0, ''Restore FAILED.'') s"
| reply_shutdown: "spec_reply s ''shutdown'' d (1, ''Shutdown in progress.'') s"
| reply_restart: "spec_reply s ''restart'' d (1, ''Restart in progress.'') s"
| reply_time: "spec_reply s ''time'' d (1, text) s"
| reply_unknown: "\<not> counts_keys t \<Longrightarrow> \<not> resizes t \<Longrightarrow> t \<noteq> ''shutdown'' \<Longrightarrow> t \<noteq> ''restart'' \<Longrightarrow> t \<noteq> ''time'' \<Longrightarrow>
    spec_reply s t d (- 1, []) s"

subsection \<open>Runs of the abstract machine\<close>

text \<open>What is observed: the reply to a request, and a backup. That a pending message is handled is not.\<close>

datatype observation =
    Answered string string "int \<times> string"
  | Saved

definition answered_calls :: "observation list \<Rightarrow> (string \<times> string) list" where
  "answered_calls os = List.map_filter (\<lambda>ob. case ob of Answered t d r \<Rightarrow> Some (t, d) | Saved \<Rightarrow> None) os"

lemma answered_calls_simps [simp]:
  "answered_calls [] = []" "answered_calls (Answered t d r # os) = (t, d) # answered_calls os"
  "answered_calls (Saved # os) = answered_calls os"
  "answered_calls (os @ os2) = answered_calls os @ answered_calls os2"
  by (simp_all add: answered_calls_def List.map_filter_def)

inductive spec_run :: "tracker_spec \<Rightarrow> observation list \<Rightarrow> tracker_spec \<Rightarrow> bool" where
  spec_none: "spec_run s [] s"
| spec_handles: "sp_pending s = m # ms \<Longrightarrow> spec_run (spec_handle m (s\<lparr>sp_pending := ms\<rparr>)) os s1 \<Longrightarrow> spec_run s os s1"
| spec_answers: "spec_reply s t d r s1 \<Longrightarrow> spec_run s1 os s2 \<Longrightarrow> spec_run s (Answered t d r # os) s2"
| spec_saves: "spec_run (s\<lparr>sp_saved := Some (sp_counts s)\<rparr>) os s1 \<Longrightarrow> spec_run s (Saved # os) s1"

lemma spec_run_append: "spec_run s os s1 \<Longrightarrow> spec_run s1 os2 s2 \<Longrightarrow> spec_run s (os @ os2) s2"
  by (induction rule: spec_run.induct) (auto intro: spec_run.intros)

subsection \<open>Refinement\<close>

text \<open>A run of a step relation, with what is seen of each step.\<close>

inductive observed_run ::
  "('c \<Rightarrow> 'e \<Rightarrow> 'c \<Rightarrow> bool) \<Rightarrow> ('c \<Rightarrow> 'e \<Rightarrow> 'o list) \<Rightarrow> 'c \<Rightarrow> 'e list \<Rightarrow> 'o list \<Rightarrow> 'c \<Rightarrow> bool"
  for step seen where
  observed_none: "observed_run step seen h [] [] h"
| observed_next: "step h e h1 \<Longrightarrow> observed_run step seen h1 es os h2 \<Longrightarrow>
    observed_run step seen h (e # es) (seen h e @ os) h2"

text \<open>
  A forward simulation with a budget: \<open>sim n s h\<close> lets the abstract state \<open>s\<close> answer for \<open>n\<close> more steps
  of the concrete state \<open>h\<close>.
\<close>

locale forward_simulation =
  fixes step :: "'c \<Rightarrow> 'e \<Rightarrow> 'c \<Rightarrow> bool"
    and seen :: "'c \<Rightarrow> 'e \<Rightarrow> 'o list"
    and allowed :: "'e \<Rightarrow> bool"
    and runs :: "'a \<Rightarrow> 'o list \<Rightarrow> 'a \<Rightarrow> bool"
    and sim :: "nat \<Rightarrow> 'a \<Rightarrow> 'c \<Rightarrow> bool"
  assumes runs_none: "runs s [] s"
    and runs_append: "runs s os s1 \<Longrightarrow> runs s1 os2 s2 \<Longrightarrow> runs s (os @ os2) s2"
    and simulates: "sim (Suc n) s h \<Longrightarrow> allowed e \<Longrightarrow> step h e h1 \<Longrightarrow> \<exists>s1. runs s (seen h e) s1 \<and> sim n s1 h1"
begin

lemma run_simulated:
  "observed_run step seen h es os h1 \<Longrightarrow> \<forall>e \<in> set es. allowed e \<Longrightarrow> sim (length es + n) s h \<Longrightarrow>
     \<exists>s1. runs s os s1 \<and> sim n s1 h1"
proof (induction arbitrary: s rule: observed_run.induct)
  case (observed_none h)
  then show ?case using runs_none by auto
next
  case (observed_next h e h1 es os h2)
  then obtain s1 where s1: "runs s (seen h e) s1" "sim (length es + n) s1 h1"
    using simulates [of "length es + n" s h e h1] by auto
  then obtain s2 where "runs s1 os s2" "sim n s2 h2" using observed_next.IH observed_next.prems(1) by auto
  then show ?case using runs_append s1(1) by blast
qed

end

end
