(* ===== verification/MapManagerMonitor.thy ===== *)
theory MapManagerMonitor
  imports MapManagerBackup
begin

section \<open>The manager under many threads (src/MapManager.cpp)\<close>

text \<open>
  The operations of the manager called from several threads. Each body holds \<open>m_mapMutex\<close>, so a writer
  is one step; a reader or a backup that finds \<open>m_writingData\<close> set waits on \<open>m_mapCondition\<close>, is woken by a
  \<open>notify_one\<close> or spuriously, and then tests the flag again under the mutex. First every operation as one
  datatype; then the step relation and its properties.
\<close>

subsection \<open>The writers\<close>

datatype writer_call =
    Call manager_call
  | Purge ushort
  | Restore string string disk

text \<open>The state a writer leaves: an exception of a restore releases the mutex and keeps the state.\<close>

definition writer_effect :: "writer_call \<Rightarrow> map_manager \<Rightarrow> map_manager outcome" where
  "writer_effect w mm =
     (case w of
        Call c \<Rightarrow> Returns (apply_call c mm)
      | Purge n \<Rightarrow> purge n mm
      | Restore keyFilename freqFilename dk \<Rightarrow> Returns (snd (restoreRequest keyFilename freqFilename dk mm)))"

text \<open>What a restore leaves in the flag does not depend on the manager it is called on.\<close>

definition restore_opens :: "string \<Rightarrow> string \<Rightarrow> disk \<Rightarrow> bool" where
  "restore_opens kf ff dk \<longleftrightarrow> \<not> is_fail (ifstream_open dk kf) \<and> \<not> is_fail (ifstream_open dk ff)"

lemma restoreRequest_not_opened: "\<not> restore_opens kf ff dk \<Longrightarrow> restoreRequest kf ff dk mm = (Returns False, mm)"
  unfolding restoreRequest_def restore_opens_def Let_def
  by (simp only: de_Morgan_conj not_not if_True if_cancel split: if_split) blast

lemma restoreRequest_result:
  assumes "restore_opens kf ff dk"
  obtains r km fm n where "\<And>mm. fst (restoreRequest kf ff dk mm) = r"
    and "\<And>mm. m_pKeyMap (snd (restoreRequest kf ff dk mm)) = km"
    and "\<And>mm. m_pFrequencyMap (snd (restoreRequest kf ff dk mm)) = (case fm of None \<Rightarrow> m_pFrequencyMap mm | Some f \<Rightarrow> f)"
    and "\<And>mm. m_writingData (snd (restoreRequest kf ff dk mm)) = (if r = Returns True then 0 else 1)"
    and "\<And>mm. m_mapCondition (snd (restoreRequest kf ff dk mm)) = m_mapCondition mm + (if r = Returns True then 1 else 0)"
proof -
  let ?none = "\<lparr>f_key = [], f_order = [], f_url = [], f_port = []\<rparr>"
  obtain r0 km s where k: "restore_keys (ifstream_open dk kf) ?none [] = (r0, km, s)" by (rule prod_cases3)
  obtain r1 fm where f: "restore_frequencies (ifstream_open dk ff) s [] = (r1, fm)" by (rule prod.exhaust)
  have eq: "restoreRequest kf ff dk mm =
      (if r0 \<noteq> Returns True then (r0, mm\<lparr>m_writingData := 1, m_pKeyMap := km\<rparr>)
       else if r1 \<noteq> Returns True then (r1, mm\<lparr>m_writingData := 1, m_pKeyMap := km, m_pFrequencyMap := fm\<rparr>)
       else (Returns True, notify_one (mm\<lparr>m_pKeyMap := km, m_pFrequencyMap := fm, m_writingData := 0\<rparr>)))" for mm
    using assms restoreRequest_opened [OF _ _ k, of ff mm] f by (simp add: restore_opens_def Let_def)
  show ?thesis
    by (rule that [of "if r0 \<noteq> Returns True then r0 else r1" km "if r0 \<noteq> Returns True then None else Some fm"])
      (auto simp: eq notify_one_def split: if_splits)
qed

subsection \<open>Readers, waiting and waking\<close>

text \<open>
  The calls that wait: the two readers and a backup, which has opened its files on the disk of its argument before
  it waits, and whose answer has the disk it leaves.
\<close>

datatype reader_call =
    Is_hot_key string
  | Get_top_hotkeys
  | Backup_request string string disk

datatype answer =
    Hot bool
  | Report "key_frequency list"
  | Backed_up bool disk

definition reader_answer :: "reader_call \<Rightarrow> map_manager \<Rightarrow> answer outcome" where
  "reader_answer r mm =
     (case r of
        Is_hot_key key \<Rightarrow> map_outcome Hot (isHotKey key mm)
      | Get_top_hotkeys \<Rightarrow> map_outcome Report (getTopHotkeys mm [])
      | Backup_request keyFilename freqFilename dk \<Rightarrow>
          (let (r, dk1) = backupRequest keyFilename freqFilename dk mm in map_outcome (\<lambda>ok. Backed_up ok dk1) r))"

text \<open>
  The manager, the calls that wait on the condition variable and those that were woken and have to take
  the mutex again, each with its thread; and the answers given so far, in order.
\<close>

record monitor =
  mo_manager :: map_manager
  mo_waiting :: "(nat \<times> reader_call) list"
  mo_woken :: "(nat \<times> reader_call) list"
  mo_answers :: "(nat \<times> answer) list"

definition monitor_new :: "map_manager \<Rightarrow> monitor" where
  "monitor_new mm = \<lparr>mo_manager = mm, mo_waiting = [], mo_woken = [], mo_answers = []\<rparr>"

definition remove_nth :: "nat \<Rightarrow> 'a list \<Rightarrow> 'a list" where
  "remove_nth i xs = take i xs @ drop (Suc i) xs"

text \<open>A reader with the mutex: it answers, or goes to wait.\<close>

definition reader_turn :: "nat \<times> reader_call \<Rightarrow> monitor \<Rightarrow> monitor" where
  "reader_turn r m =
     (case reader_answer (snd r) (mo_manager m) of
        Returns a \<Rightarrow> m\<lparr>mo_answers := mo_answers m @ [(fst r, a)]\<rparr>
      | _ \<Rightarrow> m\<lparr>mo_waiting := mo_waiting m @ [r]\<rparr>)"

definition wake :: "nat \<Rightarrow> monitor \<Rightarrow> monitor" where
  "wake i m = m\<lparr>mo_waiting := remove_nth i (mo_waiting m), mo_woken := mo_woken m @ [mo_waiting m ! i]\<rparr>"

datatype monitor_event =
    Read nat reader_call
  | Retest nat
  | Spurious nat
  | Write writer_call

text \<open>
  The steps. A writer that called \<open>notify_one\<close> wakes one of the waiting calls, any one, if there is one.
\<close>

inductive monitor_step :: "monitor \<Rightarrow> monitor_event \<Rightarrow> monitor \<Rightarrow> bool" where
  step_read: "monitor_step m (Read t r) (reader_turn (t, r) m)"
| step_retest:
    "i < length (mo_woken m) \<Longrightarrow>
     monitor_step m (Retest i) (reader_turn (mo_woken m ! i) (m\<lparr>mo_woken := remove_nth i (mo_woken m)\<rparr>))"
| step_spurious: "i < length (mo_waiting m) \<Longrightarrow> monitor_step m (Spurious i) (wake i m)"
| step_write_silent:
    "writer_effect w (mo_manager m) = Returns mm \<Longrightarrow> m_mapCondition mm = m_mapCondition (mo_manager m) \<Longrightarrow>
     monitor_step m (Write w) (m\<lparr>mo_manager := mm\<rparr>)"
| step_write_unheard:
    "writer_effect w (mo_manager m) = Returns mm \<Longrightarrow> m_mapCondition mm \<noteq> m_mapCondition (mo_manager m) \<Longrightarrow>
     mo_waiting m = [] \<Longrightarrow> monitor_step m (Write w) (m\<lparr>mo_manager := mm\<rparr>)"
| step_write_wakes:
    "writer_effect w (mo_manager m) = Returns mm \<Longrightarrow> m_mapCondition mm \<noteq> m_mapCondition (mo_manager m) \<Longrightarrow>
     i < length (mo_waiting m) \<Longrightarrow> monitor_step m (Write w) (wake i (m\<lparr>mo_manager := mm\<rparr>))"

inductive_cases monitor_stepE: "monitor_step m e m'"
inductive_simps monitor_step_simps:
  "monitor_step m (Read t r) m'" "monitor_step m (Retest i) m'"
  "monitor_step m (Spurious i) m'" "monitor_step m (Write w) m'"

inductive monitor_run :: "monitor \<Rightarrow> monitor_event list \<Rightarrow> monitor \<Rightarrow> bool" where
  run_none: "monitor_run m [] m"
| run_next: "monitor_run m evs m1 \<Longrightarrow> monitor_step m1 e m2 \<Longrightarrow> monitor_run m (evs @ [e]) m2"

subsection \<open>Lemmas on the steps\<close>

lemma length_remove_nth: "i < length xs \<Longrightarrow> Suc (length (remove_nth i xs)) = length xs"
  by (simp add: remove_nth_def)

lemma reader_answer_cases:
  "if m_writingData mm \<noteq> 0 then reader_answer r mm = Waits else \<exists>a. reader_answer r mm = Returns a"
proof (cases r)
  case (Backup_request kf ff dk)
  have "if m_writingData mm \<noteq> 0 then fst (backupRequest kf ff dk mm) = Waits else \<exists>ok. fst (backupRequest kf ff dk mm) = Returns ok"
    by (auto simp: backupRequest_def ofstream_open_def Let_def split_beta)
  then show ?thesis by (auto simp: Backup_request reader_answer_def split_beta)
qed (auto simp: reader_answer_def isHotKey_def getTopHotkeys_def Let_def)

lemma reader_turn_simps [simp]:
  "mo_manager (reader_turn r m) = mo_manager m" "mo_woken (reader_turn r m) = mo_woken m"
  "mo_waiting (reader_turn r m) = (if m_writingData (mo_manager m) \<noteq> 0 then mo_waiting m @ [r] else mo_waiting m)"
  "map fst (mo_answers (reader_turn r m)) =
     (if m_writingData (mo_manager m) \<noteq> 0 then map fst (mo_answers m) else map fst (mo_answers m) @ [fst r])"
  using reader_answer_cases [of "mo_manager m" "snd r"]
  by (auto simp: reader_turn_def split: outcome.splits if_splits)

lemma wake_simps [simp]:
  "mo_manager (wake i m) = mo_manager m" "mo_answers (wake i m) = mo_answers m"
  "mo_waiting (wake i m) = remove_nth i (mo_waiting m)"
  "mo_woken (wake i m) = mo_woken m @ [mo_waiting m ! i]"
  by (simp_all add: wake_def)

lemma monitor_run_1: "monitor_step m e m1 \<Longrightarrow> monitor_run m [e] m1"
  using run_next [OF run_none] by fastforce

lemma monitor_run_2: "monitor_step m e m1 \<Longrightarrow> monitor_step m1 e' m2 \<Longrightarrow> monitor_run m [e, e'] m2"
  using run_next [OF monitor_run_1] by fastforce

lemma step_write_alone:
  "writer_effect w (mo_manager m) = Returns mm \<Longrightarrow> mo_waiting m = [] \<Longrightarrow>
     monitor_step m (Write w) (m\<lparr>mo_manager := mm\<rparr>)"
  by (cases "m_mapCondition mm = m_mapCondition (mo_manager m)") (auto intro: step_write_silent step_write_unheard)

text \<open>What the writers do to the flag and to the condition variable.\<close>

definition restore_succeeds :: "string \<Rightarrow> string \<Rightarrow> disk \<Rightarrow> bool" where
  "restore_succeeds kf ff dk \<longleftrightarrow> fst (restoreRequest kf ff dk MapManager_default) = Returns True"

lemma add_flag [simp]:
  "m_writingData (addOrUpdateKey key url nPort mm) = 0"
  "m_mapCondition (addOrUpdateKey key url nPort mm) = Suc (m_mapCondition mm)"
  by (simp_all add: addOrUpdateKey_def notify_one_def Let_def)

lemma zap_condition [simp]: "m_mapCondition (zap mm) = Suc (m_mapCondition mm)"
  by (simp add: zap_def notify_one_def)

lemma purge_flag:
  "purge n mm = Returns mm' \<Longrightarrow> m_writingData mm' = 0 \<and> m_mapCondition mm' = Suc (m_mapCondition mm)"
  by (auto simp: purge_def notify_one_def split: outcome.splits prod.splits)

lemma restore_flag:
  "m_mapCondition mm \<le> m_mapCondition (snd (restoreRequest kf ff dk mm))"
  "m_mapCondition (snd (restoreRequest kf ff dk mm)) \<le> Suc (m_mapCondition mm)"
  "\<not> restore_opens kf ff dk \<or> restore_succeeds kf ff dk \<Longrightarrow> m_writingData mm = 0 \<Longrightarrow>
     m_writingData (snd (restoreRequest kf ff dk mm)) = 0"
proof -
  have "m_mapCondition mm \<le> m_mapCondition (snd (restoreRequest kf ff dk mm))
    \<and> m_mapCondition (snd (restoreRequest kf ff dk mm)) \<le> Suc (m_mapCondition mm)
    \<and> (\<not> restore_opens kf ff dk \<or> restore_succeeds kf ff dk \<longrightarrow> m_writingData mm = 0 \<longrightarrow>
         m_writingData (snd (restoreRequest kf ff dk mm)) = 0)"
  proof (cases "restore_opens kf ff dk")
    case True
    then show ?thesis
      by (rule restoreRequest_result [of kf ff dk]) (auto simp: restore_succeeds_def True)
  qed (simp add: restoreRequest_not_opened)
  then show "m_mapCondition mm \<le> m_mapCondition (snd (restoreRequest kf ff dk mm))"
    "m_mapCondition (snd (restoreRequest kf ff dk mm)) \<le> Suc (m_mapCondition mm)"
    "\<not> restore_opens kf ff dk \<or> restore_succeeds kf ff dk \<Longrightarrow> m_writingData mm = 0 \<Longrightarrow>
     m_writingData (snd (restoreRequest kf ff dk mm)) = 0" by auto
qed

lemma writer_flag:
  assumes "writer_effect w mm = Returns mm'"
  shows "m_mapCondition mm \<le> m_mapCondition mm'" "m_mapCondition mm' \<le> Suc (m_mapCondition mm)"
    and "(\<And>kf ff dk. w = Restore kf ff dk \<Longrightarrow> \<not> restore_opens kf ff dk \<or> restore_succeeds kf ff dk) \<Longrightarrow>
      m_writingData mm = 0 \<Longrightarrow> m_writingData mm' = 0"
proof -
  have "m_mapCondition mm \<le> m_mapCondition mm' \<and> m_mapCondition mm' \<le> Suc (m_mapCondition mm)
    \<and> ((\<forall>kf ff dk. w = Restore kf ff dk \<longrightarrow> \<not> restore_opens kf ff dk \<or> restore_succeeds kf ff dk) \<longrightarrow>
      m_writingData mm = 0 \<longrightarrow> m_writingData mm' = 0)"
  proof (cases w)
    case (Call c)
    then show ?thesis using assms by (cases c) (auto simp: writer_effect_def)
  next
    case (Purge n)
    then show ?thesis using assms purge_flag [of n mm mm'] by (auto simp: writer_effect_def)
  next
    case (Restore kf ff dk)
    then show ?thesis using assms restore_flag [where mm = mm and kf = kf and ff = ff and dk = dk]
      by (auto simp: writer_effect_def)
  qed
  then show "m_mapCondition mm \<le> m_mapCondition mm'" "m_mapCondition mm' \<le> Suc (m_mapCondition mm)"
    "(\<And>kf ff dk. w = Restore kf ff dk \<Longrightarrow> \<not> restore_opens kf ff dk \<or> restore_succeeds kf ff dk) \<Longrightarrow>
      m_writingData mm = 0 \<Longrightarrow> m_writingData mm' = 0" by blast+
qed

subsection \<open>Properties\<close>

text \<open>The threads whose calls of a reader a run contains, in order.\<close>

definition readers_of :: "monitor_event list \<Rightarrow> nat list" where
  "readers_of evs = concat (map (\<lambda>e. case e of Read t r \<Rightarrow> [t] | _ \<Rightarrow> []) evs)"

text \<open>
  C16. As long as every restore that opens its files succeeds, no reader and no backup ever waits: in every reachable
  state the flag is down, nobody waits and nobody has been woken, and every call of a reader has been
  answered, in the order of the calls.
\<close>

theorem readers_never_wait:
  assumes "monitor_run (monitor_new (MapManager_new n m l)) evs s"
    and "\<And>kf ff dk. Write (Restore kf ff dk) \<in> set evs \<Longrightarrow> \<not> restore_opens kf ff dk \<or> restore_succeeds kf ff dk"
  shows "m_writingData (mo_manager s) = 0 \<and> mo_waiting s = [] \<and> mo_woken s = []
    \<and> map fst (mo_answers s) = readers_of evs"
proof -
  let ?I = "\<lambda>evs s. m_writingData (mo_manager s) = 0 \<and> mo_waiting s = [] \<and> mo_woken s = []
    \<and> map fst (mo_answers s) = readers_of evs"
  have "?I evs s" if "monitor_run a evs s" "?I [] a"
    "\<And>kf ff dk. Write (Restore kf ff dk) \<in> set evs \<Longrightarrow> \<not> restore_opens kf ff dk \<or> restore_succeeds kf ff dk" for a
    using that
  proof (induction rule: monitor_run.induct)
    case (run_next m evs m1 e m2)
    then have I: "?I evs m1" by simp
    have ok: "writer_effect w (mo_manager m1) = Returns mm \<Longrightarrow> e = Write w \<Longrightarrow> m_writingData mm = 0" for w mm
      by (rule writer_flag(3)) (use I run_next.prems(2) in auto)
    from run_next.hyps(2) show ?case
      by (cases rule: monitor_step.cases) (use I ok in \<open>auto simp: readers_of_def\<close>)
  qed
  moreover have "?I [] (monitor_new (MapManager_new n m l))"
    by (simp add: monitor_new_def MapManager_new_def readers_of_def)
  ultimately show ?thesis using assms by blast
qed

text \<open>
  C28. A notification wakes at most one of the readers and backups that wait: after any run without spurious wake-ups at least as many
  of them still wait as there were beyond the number of notifications, whatever the flag says. In
  particular \<open>setTopKeyReportBaseSize\<close> takes the flag down and wakes nobody, so one that already
  waits stays while a new one is answered at once.
\<close>

theorem each_waiter_needs_a_notification:
  assumes "monitor_run m evs m'" "\<And>i. Spurious i \<notin> set evs"
  shows "length (mo_waiting m) + m_mapCondition (mo_manager m)
      \<le> length (mo_waiting m') + m_mapCondition (mo_manager m')
    \<and> (\<forall>b m''. monitor_step m' (Write (Call (SetTopKeyReportBaseSize b))) m'' \<longrightarrow>
         m_writingData (mo_manager m'') = 0 \<and> mo_waiting m'' = mo_waiting m' \<and> mo_woken m'' = mo_woken m'
         \<and> mo_waiting (reader_turn (t, r) m'') = mo_waiting m'')"
proof -
  have "length (mo_waiting m) + m_mapCondition (mo_manager m)
      \<le> length (mo_waiting m') + m_mapCondition (mo_manager m')"
    using assms
  proof (induction rule: monitor_run.induct)
    case (run_next m evs m1 e m2)
    have "length (mo_waiting m1) + m_mapCondition (mo_manager m1)
        \<le> length (mo_waiting m2) + m_mapCondition (mo_manager m2)"
      using run_next.hyps(2)
    proof (cases rule: monitor_step.cases)
      case (step_write_wakes w mm i)
      then have "Suc (m_mapCondition (mo_manager m1)) = m_mapCondition mm"
        using writer_flag(1,2) [of w "mo_manager m1" mm] by simp
      then show ?thesis using step_write_wakes length_remove_nth [of i "mo_waiting m1"] by simp
    qed (use run_next.prems writer_flag(1) in auto)
    then show ?case using run_next by fastforce
  qed simp
  then show ?thesis by (auto simp: monitor_step_simps writer_effect_def)
qed

lemma readers_never_wait_witness:
  "\<exists>s. monitor_run (monitor_new (MapManager_new 2 6 0))
      [Write (Call (AddOrUpdateKey ''a'' ''u'' 1)), Read 7 (Is_hot_key ''a'')] s
    \<and> map fst (mo_answers s) = [7] \<and> mo_waiting s = []"
proof -
  let ?a = "addOrUpdateKey ''a'' ''u'' 1 (MapManager_new 2 6 0)"
  have "monitor_step (monitor_new (MapManager_new 2 6 0)) (Write (Call (AddOrUpdateKey ''a'' ''u'' 1))) (monitor_new ?a)"
    using step_write_alone [of _ "monitor_new (MapManager_new 2 6 0)"] by (simp add: writer_effect_def monitor_new_def)
  then have run: "monitor_run (monitor_new (MapManager_new 2 6 0))
      [Write (Call (AddOrUpdateKey ''a'' ''u'' 1)), Read 7 (Is_hot_key ''a'')]
      (reader_turn (7, Is_hot_key ''a'') (monitor_new ?a))" by (rule monitor_run_2) (rule step_read)
  show ?thesis
    by (rule exI, rule conjI [OF run]) (use readers_never_wait [OF run] in \<open>simp add: readers_of_def monitor_new_def\<close>)
qed

text \<open>A restore has failed, two readers wait, and one key is added: one of them is left behind.\<close>

lemma each_waiter_needs_a_notification_witness:
  defines "m \<equiv> \<lparr>mo_manager = MapManager_default\<lparr>m_writingData := 1\<rparr>,
      mo_waiting = [(1, Get_top_hotkeys), (2, Is_hot_key ''a'')], mo_woken = [], mo_answers = []\<rparr>"
  shows "\<exists>m'. monitor_run m [Write (Call (AddOrUpdateKey ''a'' ''u'' 1))] m'
    \<and> m_writingData (mo_manager m') = 0 \<and> mo_waiting m' \<noteq> []"
proof -
  let ?mm = "addOrUpdateKey ''a'' ''u'' 1 (mo_manager m)"
  have run: "monitor_run m [Write (Call (AddOrUpdateKey ''a'' ''u'' 1))] (wake 0 (m\<lparr>mo_manager := ?mm\<rparr>))"
    by (rule monitor_run_1, rule step_write_wakes) (simp_all add: writer_effect_def m_def)
  have "length (mo_waiting m) + m_mapCondition (mo_manager m)
      \<le> length (mo_waiting (wake 0 (m\<lparr>mo_manager := ?mm\<rparr>))) + Suc (m_mapCondition (mo_manager m))"
    using each_waiter_needs_a_notification [OF run] by simp
  then have "mo_waiting (wake 0 (m\<lparr>mo_manager := ?mm\<rparr>)) \<noteq> []" by (auto simp: m_def)
  with run show ?thesis by (intro exI [of _ "wake 0 (m\<lparr>mo_manager := ?mm\<rparr>)"]) simp
qed

end
