(* ===== verification/Refinement.thy ===== *)
theory Refinement
  imports System TrackerSpec MapManagerMonitor
begin

section \<open>The running tracker refines its specification\<close>

text \<open>
  A forward simulation of the whole program by the abstract machine of TrackerSpec: requests of any number
  of clients, with every target of \<open>onMessage\<close>, the worker and the backup timer in any order.
\<close>

subsection \<open>What is observed of a step\<close>

definition observed :: "'q lockfree \<Rightarrow> nat \<Rightarrow> 'q server hall \<Rightarrow> system_event \<Rightarrow> observation list" where
  "observed lf now h e =
     (case e of
        Backup_timer i \<Rightarrow> if backup_fires i (h_state h) then [Saved] else []
      | _ \<Rightarrow> concat (map (\<lambda>(t, d).
               case fst (onMessage lf now t d [] (h_state h)) of Returns r \<Rightarrow> [Answered t d r] | _ \<Rightarrow> []) (event_calls e)))"

lemma observed_run_system:
  "observed_run (system_step fs lf index) (observed lf now) h es os h1 \<Longrightarrow> system_run fs lf index h es h1"
  by (induction rule: observed_run.induct) (auto intro: system_run.intros)

lemma system_run_observed:
  "system_run fs lf index h es h1 \<Longrightarrow> \<exists>os. observed_run (system_step fs lf index) (observed lf now) h es os h1"
  by (induction rule: system_run.induct) (auto intro: observed_run.intros)

subsection \<open>Entries that a backup can store\<close>

text \<open>
  Entries that survive any number of backups and restores: no newline in the key or in what is read as the port, and
  where the reader finds the port there is a number that is not negative. A url without a comma always does.
\<close>

definition keepable :: "string \<times> key_details \<Rightarrow> bool" where
  "keepable q \<longleftrightarrow> one_line q \<and> (case reread (snd q) of Inr d \<Rightarrow> unat (kd_port d) < 2 ^ 31 | Inl _ \<Rightarrow> False)"

lemma keepableD: "keepable q \<Longrightarrow> one_line q \<and> (\<exists>d. reread (snd q) = Inr d)"
  by (auto simp: keepable_def split: sum.splits)

lemma reread_no_separator: "reread d = Inr d' \<Longrightarrow> FIELD_SEPARATOR \<notin> set (kd_url d')"
  by (auto simp: reread_def Let_def dest: set_takeWhileD split: sum.splits)

lemma keepable_reread_entry:
  assumes "keepable q"
  shows "keepable (reread_entry q)"
proof -
  obtain d where d: "reread (snd q) = Inr d" "unat (kd_port d) < 2 ^ 31" and line: "one_line q"
    using assms by (auto simp: keepable_def split: sum.splits)
  have "storable (fst q, d)" using line reread_no_separator [OF d(1)] by (simp add: storable_def one_line_def)
  note storable_one_line [OF this]
  then show ?thesis using d by (simp add: reread_entry_def keepable_def)
qed

lemma keepable_frequency: "keepable (k, \<lparr>kd_url = u, kd_port = p, kd_frequency = f\<rparr>) \<longleftrightarrow> keepable (k, \<lparr>kd_url = u, kd_port = p, kd_frequency = g\<rparr>)"
  by (simp add: keepable_def one_line_def reread_def Let_def split: sum.split)

text \<open>The requests that report such an entry: the port is stored as 0, whatever the payload says.\<close>

definition keepable_entry :: "string \<Rightarrow> string \<Rightarrow> uint \<Rightarrow> bool" where
  "keepable_entry key url port = keepable (key, \<lparr>kd_url = url, kd_port = port, kd_frequency = 0\<rparr>)"

lemma keepable_plain_url:
  "FIELD_SEPARATOR \<notin> set key \<Longrightarrow> newline \<notin> set key \<Longrightarrow> FIELD_SEPARATOR \<notin> set url \<Longrightarrow> keepable_entry key url 0"
  using storable_one_line [of "(key, \<lparr>kd_url = url, kd_port = 0, kd_frequency = 0\<rparr>)"]
  by (simp add: keepable_entry_def keepable_def storable_def)

definition clean_call :: "string \<times> string \<Rightarrow> bool" where
  "clean_call c \<longleftrightarrow> (fst c = ''keySent'' \<longrightarrow>
     (case split_payload (snd c) of Inr (key, url, port) \<Rightarrow> keepable_entry key url 0 | Inl _ \<Rightarrow> True))"

definition clean_message :: "message \<Rightarrow> bool" where
  "clean_message m \<longleftrightarrow> ordinary_message m \<and> (m_cmd m = cmd_addKey \<longrightarrow> keepable_entry (m_str1 m) (m_str2 m) (m_number m))"

definition good_manager :: "map_manager \<Rightarrow> bool" where
  "good_manager mgr \<longleftrightarrow> rank_inv mgr \<and> (\<forall>q \<in> set (m_pKeyMap mgr). keepable q) \<and> m_maxReportElementNumber mgr = 20"

lemma good_manager_inv: "good_manager mgr \<Longrightarrow> rank_inv mgr"
  by (simp add: good_manager_def)

lemma good_manager_new: "good_manager (MapManager_new 10 20 v)"
  using rank_inv_new [of 10 20 v] by (simp add: good_manager_def MapManager_new_def)

lemma good_manager_reread:
  assumes "good_manager mgr"
  defines "mgr1 \<equiv> mgr\<lparr>m_pKeyMap := map reread_entry (m_pKeyMap mgr)\<rparr>"
  shows "good_manager mgr1" "frequency_of mgr1 = frequency_of mgr"
proof -
  have "rank_inv mgr" "m_writingData mgr = 0"
    using good_manager_inv [OF assms(1)] rank_invD(3) by auto
  then show "frequency_of mgr1 = frequency_of mgr" "good_manager mgr1"
    using counts_reread [of mgr1 mgr] assms(1) keepable_reread_entry by (simp_all add: mgr1_def good_manager_def)
qed

definition spec_message_of :: "message \<Rightarrow> spec_message" where
  "spec_message_of m = (if m_cmd m = cmd_addKey then Add (m_str1 m) else Set_base (unat (m_nshort m)))"

lemma good_manager_add:
  assumes mgr: "good_manager mgr" and room: "frequency_of mgr key < 2 ^ 64 - 1" and entry: "keepable_entry key url port"
  shows "good_manager (addOrUpdateKey key url port mgr)"
proof -
  have inv: "rank_inv mgr" by (rule good_manager_inv [OF mgr])
  note eq = addOrUpdateKey_eq [OF rank_invD(1,4) [OF inv]]
  have "rank_inv (addOrUpdateKey key url port mgr)"
    by (rule rank_inv_addOrUpdateKey [OF inv prev_order_below [OF room]])
  moreover have "keepable (key, \<lparr>kd_url = url, kd_port = port, kd_frequency = f\<rparr>)" for f
    using entry keepable_frequency unfolding keepable_entry_def by blast
  then have "keepable q" if "q \<in> set (m_pKeyMap (addOrUpdateKey key url port mgr))" for q
    using that set_insert_or_assign [of key _ "m_pKeyMap mgr"] mgr
    by (fastforce simp: eq good_manager_def)
  ultimately show ?thesis using mgr by (simp add: good_manager_def eq)
qed

lemma good_manager_base: "good_manager mgr \<Longrightarrow> good_manager (setTopKeyReportBaseSize b mgr)"
  by (simp add: good_manager_def rank_inv_setTopKeyReportBaseSize)

text \<open>Handling a message, concretely and abstractly.\<close>

definition shows_manager :: "tracker_spec \<Rightarrow> map_manager \<Rightarrow> bool" where
  "shows_manager s mgr \<longleftrightarrow> sp_counts s = frequency_of mgr \<and> sp_base s = unat (m_baseReportElementNumber mgr)"

lemma base_addOrUpdateKey:
  "rank_inv mgr \<Longrightarrow> m_baseReportElementNumber (addOrUpdateKey key url port mgr) = m_baseReportElementNumber mgr"
  by (simp add: addOrUpdateKey_eq rank_invD)

lemma handle_simulated:
  assumes mgr: "good_manager mgr" and room: "\<forall>k. frequency_of mgr k < 2 ^ 64 - 1" and m: "clean_message m"
    and s: "shows_manager s mgr"
  shows "good_manager (apply_message m mgr) \<and> shows_manager (spec_handle (spec_message_of m) s) (apply_message m mgr)"
proof (cases "m_cmd m = cmd_addKey")
  case True
  have inv: "rank_inv mgr" by (rule good_manager_inv [OF mgr])
  have entry: "keepable_entry (m_str1 m) (m_str2 m) (m_number m)" using m True by (simp add: clean_message_def)
  show ?thesis
    using good_manager_add [OF mgr room [rule_format] entry] frequency_of_addOrUpdateKey [OF inv room [rule_format]]
      base_addOrUpdateKey [OF inv] s True
    by (simp add: apply_message_def spec_message_of_def shows_manager_def)
next
  case False
  then have set: "m_cmd m = cmd_setRankingLength" using m by (simp add: clean_message_def ordinary_message_def)
  have "unat (min b 20) = min (unat b) 20" for b :: ushort by (simp add: min_def word_le_nat_alt)
  then show ?thesis
    using good_manager_base [OF mgr] set s mgr
    by (simp add: apply_message_def spec_message_of_def shows_manager_def frequency_of_setTopKeyReportBaseSize
        setTopKeyReportBaseSize_base good_manager_def)
qed

subsection \<open>The simulation relation\<close>

text \<open>What a restore from the disk does: it fails and changes nothing, or it gives back saved counts.\<close>

definition saved_on :: "disk \<Rightarrow> (string \<Rightarrow> nat) option \<Rightarrow> bool" where
  "saved_on dk saved =
     (case saved of
        None \<Rightarrow> \<forall>mm. restoreRequest ''keys.csv'' ''frequencies.csv'' dk mm = (Returns False, mm)
      | Some c \<Rightarrow> \<exists>mgr. good_manager mgr \<and> c = frequency_of mgr
          \<and> (\<forall>mm. restoreRequest ''keys.csv'' ''frequencies.csv'' dk mm = (Returns True, notify_one (mm
               \<lparr>m_pKeyMap := m_pKeyMap mgr, m_pFrequencyMap := m_pFrequencyMap mgr, m_writingData := 0\<rparr>))))"

text \<open>No count reaches the limit of 64 bits in \<open>n\<close> more steps.\<close>

definition spec_room :: "nat \<Rightarrow> tracker_spec \<Rightarrow> bool" where
  "spec_room n s \<longleftrightarrow> (\<exists>c. (\<forall>k. sp_counts s k \<le> c) \<and> (\<forall>f k. sp_saved s = Some f \<longrightarrow> f k \<le> c)
     \<and> c + length (sp_pending s) + n < 2 ^ 64)"

lemma spec_room_less: "spec_room n s \<Longrightarrow> m \<le> n \<Longrightarrow> spec_room m s"
  unfolding spec_room_def by (meson add_le_mono le_less_trans order_refl)

lemma spec_room_below:
  assumes "spec_room n s" "sp_pending s = m # ms"
  shows "sp_counts s k < 2 ^ 64 - 1"
proof -
  obtain c where "sp_counts s k \<le> c" "c + length (sp_pending s) + n < 2 ^ 64"
    using assms(1) by (auto simp: spec_room_def)
  then show ?thesis using assms(2) by simp
qed

lemma spec_room_send: "spec_room (Suc n) s \<Longrightarrow> spec_room n (spec_send m s)"
  by (auto simp: spec_room_def)

lemma spec_room_saves: "spec_room n s \<Longrightarrow> spec_room n (s\<lparr>sp_saved := Some (sp_counts s)\<rparr>)"
  by (auto simp: spec_room_def)

lemma spec_room_restored: "spec_room n s \<Longrightarrow> sp_saved s = Some c \<Longrightarrow> spec_room n (s\<lparr>sp_counts := c\<rparr>)"
  by (auto simp: spec_room_def)

lemma spec_room_handles:
  assumes "spec_room n s" "sp_pending s = m # ms"
  shows "spec_room n (spec_handle m (s\<lparr>sp_pending := ms\<rparr>))"
proof -
  obtain c where c: "\<forall>k. sp_counts s k \<le> c" "\<forall>f k. sp_saved s = Some f \<longrightarrow> f k \<le> c"
    "c + length (sp_pending s) + n < 2 ^ 64"
    using assms(1) by (auto simp: spec_room_def)
  have "\<forall>k. sp_counts s k \<le> Suc c" "\<forall>f k. sp_saved s = Some f \<longrightarrow> f k \<le> Suc c"
    using c(1,2) by (auto simp: le_Suc_eq)
  then show ?thesis using c(1,3) assms(2) unfolding spec_room_def by (cases m; intro exI [of _ "Suc c"]) auto
qed

definition server_sim ::
  "filesystem \<Rightarrow> 'q lockfree \<Rightarrow> ('q \<Rightarrow> pointer list) \<Rightarrow> nat \<Rightarrow> tracker_spec \<Rightarrow> 'q server \<Rightarrow> bool" where
  "server_sim fs lf contents n s sv \<longleftrightarrow>
     fifo_queue lf contents \<and> posix_files fs
   \<and> m_pMapManager sv \<and> tracker_files sv \<and> usable_disk ''keys.csv'' ''frequencies.csv'' (sv_disk sv)
   \<and> working contents (m_pMessageQueue sv) \<and> (\<forall>m \<in> set (pending contents (m_pMessageQueue sv)). clean_message m)
   \<and> good_manager (manager_of sv) \<and> shows_manager s (manager_of sv)
   \<and> sp_pending s = map spec_message_of (pending contents (m_pMessageQueue sv))
   \<and> saved_on (sv_disk sv) (sp_saved s) \<and> spec_room n s"

lemma server_simD:
  assumes "server_sim fs lf contents n s sv"
  shows "fifo_queue lf contents" "posix_files fs" "m_pMapManager sv" "tracker_files sv"
    and "usable_disk ''keys.csv'' ''frequencies.csv'' (sv_disk sv)" "working contents (m_pMessageQueue sv)"
    and "queue_ok contents (m_pMessageQueue sv)" "m_running (m_pMessageQueue sv)"
    and "\<forall>m \<in> set (pending contents (m_pMessageQueue sv)). clean_message m"
    and "good_manager (manager_of sv)" "rank_inv (manager_of sv)" "shows_manager s (manager_of sv)"
    and "sp_pending s = map spec_message_of (pending contents (m_pMessageQueue sv))"
    and "saved_on (sv_disk sv) (sp_saved s)" "spec_room n s"
  using assms by (simp_all add: server_sim_def working_def good_manager_inv)

lemma server_sim_less: "server_sim fs lf contents (Suc n) s sv \<Longrightarrow> server_sim fs lf contents n s sv"
  using spec_room_less [of "Suc n" s n] by (simp add: server_sim_def)

lemma tracker_names: "tracker_files sv \<Longrightarrow> b_keyFilename (m_pBackupManager sv) = ''keys.csv''
    \<and> b_frequencyFilename (m_pBackupManager sv) = ''frequencies.csv''"
  by (simp add: tracker_backup_def setFilenames_def c_string_def NUL_def)

subsection \<open>The steps of the worker and of the timer\<close>

lemma worker_simulated:
  assumes sim: "server_sim fs lf contents n s sv" and step: "run_step lf (m_pMessageQueue sv) = Returns st"
  shows "\<exists>s1. spec_run s [] s1 \<and> server_sim fs lf contents n s1 (sv\<lparr>m_pMessageQueue := st\<rparr>)"
proof -
  note d = server_simD [OF sim]
  have "st = work lf (m_pMessageQueue sv)" using step by (simp add: work_def)
  then have w: "working contents st" using work_cases [OF d(1,6)] by simp
  show ?thesis
    using run_step_consumer [OF d(1,7) step]
  proof (elim disjE exE conjE)
    assume "consumer st = consumer (m_pMessageQueue sv)" "pending contents st = pending contents (m_pMessageQueue sv)"
    then have "server_sim fs lf contents n s (sv\<lparr>m_pMessageQueue := st\<rparr>)" using sim w by (simp add: server_sim_def)
    then show ?thesis using spec_none by blast
  next
    fix m assume m: "pending contents (m_pMessageQueue sv) = m # pending contents st"
      "consumer st = apply_message m (consumer (m_pMessageQueue sv))"
    let ?ms = "map spec_message_of (pending contents st)"
    let ?s1 = "spec_handle (spec_message_of m) (s\<lparr>sp_pending := ?ms\<rparr>)"
    have pend: "sp_pending s = spec_message_of m # ?ms" using d(13) m(1) by simp
    have "\<forall>k. frequency_of (manager_of sv) k < 2 ^ 64 - 1"
      using spec_room_below [OF d(15) pend] d(12) by (simp add: shows_manager_def)
    then have "good_manager (consumer st) \<and> shows_manager ?s1 (consumer st)"
      using handle_simulated [OF d(10), of m "s\<lparr>sp_pending := ?ms\<rparr>"] d(9,12) m by (simp add: shows_manager_def)
    moreover have "sp_pending ?s1 = ?ms" "sp_saved ?s1 = sp_saved s" by (cases "spec_message_of m"; simp)+
    moreover have "spec_room n ?s1" by (rule spec_room_handles [OF d(15) pend])
    ultimately have "server_sim fs lf contents n ?s1 (sv\<lparr>m_pMessageQueue := st\<rparr>)"
      using d m(1) w by (simp add: server_sim_def)
    then show ?thesis using spec_handles [OF pend spec_none] by blast
  qed
qed

lemma timer_simulated:
  assumes sim: "server_sim fs lf contents n s sv" and step: "backup_thread_step fs i sv = (Returns (), sv1)"
  shows "\<exists>s1. spec_run s (if backup_fires i sv then [Saved] else []) s1 \<and> server_sim fs lf contents n s1 sv1"
proof (cases "backup_fires i sv")
  case True
  let ?b = "m_pBackupManager sv"
  note d = server_simD [OF sim]
  have names: "b_keyFilename ?b = ''keys.csv''" "b_frequencyFilename ?b = ''frequencies.csv''"
    using tracker_names [OF d(4)] by simp_all
  have "backup_ready fs ?b ''keys'' ''frequencies'' ''csv'' (sv_disk sv)"
    using d(2,5) names_of_tracker_files [OF d(4)] names by (simp add: backup_ready_def)
  moreover have "\<forall>q \<in> set (m_pKeyMap (manager_of sv)). one_line q \<and> (\<exists>d. reread (snd q) = Inr d)"
    using d(10) keepableD by (auto simp: good_manager_def)
  ultimately obtain dk1 where dk1: "manager_backupRequest fs ?b (manager_of sv) (sv_disk sv) = (Returns (), dk1)"
    "\<And>mm. manager_restoreRequest ?b dk1 mm = (Returns True, notify_one (mm\<lparr>m_pKeyMap := map reread_entry (m_pKeyMap (manager_of sv)),
      m_pFrequencyMap := m_pFrequencyMap (manager_of sv), m_writingData := 0\<rparr>))"
    using manager_backup_rereads [OF _ d(11)] by metis
  have "saved_on dk1 (Some (sp_counts s))"
    unfolding saved_on_def option.case
    by (rule exI [of _ "(manager_of sv)\<lparr>m_pKeyMap := map reread_entry (m_pKeyMap (manager_of sv))\<rparr>"])
      (use dk1(2) names d(12) good_manager_reread [OF d(10)] in \<open>simp add: manager_restoreRequest_def shows_manager_def\<close>)
  moreover have "usable_disk ''keys.csv'' ''frequencies.csv'' dk1"
    using usable_disk_manager_backup [OF d(2) names_of_tracker_files [OF d(4)]] d(5) dk1(1) by (metis snd_conv)
  moreover have "sv1 = sv\<lparr>m_pBackupManager := ?b\<lparr>b_timer := run_thread i (b_timer ?b)\<rparr>, sv_disk := dk1\<rparr>"
    using step True dk1(1) by (simp add: backup_thread_step_def Let_def)
  ultimately have "server_sim fs lf contents n (s\<lparr>sp_saved := Some (sp_counts s)\<rparr>) sv1"
    using d spec_room_saves [OF d(15)] by (simp add: server_sim_def shows_manager_def)
  then show ?thesis using spec_saves [OF spec_none] True by auto
next
  case False
  have "server_sim fs lf contents n s sv1"
    using step False sim by (auto simp: backup_thread_step_def server_sim_def Let_def)
  then show ?thesis using False spec_none by auto
qed

subsection \<open>The requests\<close>

lemma send_simulated:
  assumes sim: "server_sim fs lf contents (Suc n) s sv" and m: "clean_message m"
  shows "server_sim fs lf contents n (spec_send (spec_message_of m) s)
    (sv\<lparr>m_pMessageQueue := queue_send lf m (m_pMessageQueue sv)\<rparr>)"
proof -
  note d = server_simD [OF sim]
  have "working contents (queue_send lf m (m_pMessageQueue sv))"
    using working_send [OF d(1,6)] m by (simp add: clean_message_def)
  then show ?thesis
    using d queue_send_ok(2) [OF d(1,7), of m] m spec_room_send [OF d(15)] by (simp add: server_sim_def shows_manager_def)
qed

lemma keySent_simulated:
  assumes sim: "server_sim fs lf contents (Suc n) s sv" and call: "message_keySent lf d sv = (Returns r, sv1)"
    and clean: "clean_call (''keySent'', d)" and len: "length d < 2 ^ 64 - 1"
  shows "\<exists>s1. spec_reply s ''keySent'' d r s1 \<and> server_sim fs lf contents n s1 sv1"
proof -
  obtain url port where split: "split_payload d = Inr (key_of d, url, port)" by (rule split_payload_total [OF len])
  let ?m = "Message_strings cmd_addKey (key_of d) url 0 (ucast port) 0"
  have "clean_message ?m"
    using clean split by (simp add: clean_message_def clean_call_def ordinary_message_def Message_strings_def)
  note send_simulated [OF sim this]
  moreover have "spec_message_of ?m = Add (key_of d)" by (simp add: spec_message_of_def Message_strings_def)
  moreover have "r = (1, ''reported key sent : '' @ key_of d)"
    "sv1 = sv\<lparr>m_pMessageQueue := queue_send lf ?m (m_pMessageQueue sv)\<rparr>"
    using call split by (auto simp: message_keySent_def CMD_SUCCEEDED_def)
  ultimately show ?thesis using reply_keySent by auto
qed

lemma resize_simulated:
  assumes sim: "server_sim fs lf contents (Suc n) s sv" and call: "message_setTopHotKeys lf d sv = (Returns r, sv1)"
    and t: "resizes t"
  shows "\<exists>s1. spec_reply s t d r s1 \<and> server_sim fs lf contents n s1 sv1"
proof (cases "\<exists>num. stoi d = Inr num \<and> 0 < num")
  case True
  then obtain num where num: "stoi d = Inr num" "0 < num" by auto
  let ?m = "Message_numbers cmd_setRankingLength 0 (word_of_int num) 0"
  have "clean_message ?m" by (simp add: clean_message_def ordinary_message_def Message_numbers_def)
  note send_simulated [OF sim this]
  moreover have "spec_message_of ?m = Set_base (nat (num mod 2 ^ 16))"
    by (simp add: spec_message_of_def Message_numbers_def unat_eq_nat_uint uint_word_of_int)
  moreover have "r = (1, ''Top key report size is now '' @ d)"
    "sv1 = sv\<lparr>m_pMessageQueue := queue_send lf ?m (m_pMessageQueue sv)\<rparr>"
    using call num by (auto simp: message_setTopHotKeys_def CMD_SUCCEEDED_def)
  ultimately show ?thesis using reply_resize [OF t num] by auto
next
  case False
  then have "\<forall>num. stoi d = Inr num \<longrightarrow> num \<le> 0" by fastforce
  note reply_resize_refused [OF t this]
  moreover have "\<exists>msg. r = (0, msg @ d)" "sv1 = sv"
    using call False by (auto simp: message_setTopHotKeys_def CMD_FAILED_def split: sum.splits exn.splits if_splits)
  ultimately show ?thesis using server_sim_less [OF sim] by blast
qed

lemma restore_simulated:
  assumes sim: "server_sim fs lf contents (Suc n) s sv" and call: "message_restore sv = (Returns r, sv1)"
  shows "\<exists>s1. spec_reply s ''restore'' d r s1 \<and> server_sim fs lf contents n s1 sv1"
proof (cases "sp_saved s")
  case None
  have "r = (0, ''Restore FAILED.'')" "sv1 = sv"
    using call server_simD(14) [OF sim] None tracker_names [OF server_simD(4) [OF sim]]
    by (auto simp: message_restore_def manager_restoreRequest_def saved_on_def CMD_FAILED_def)
  then show ?thesis using reply_not_restored [OF None] server_sim_less [OF sim] by blast
next
  case (Some c)
  note d = server_simD [OF server_sim_less [OF sim]]
  obtain mgr where mgr: "good_manager mgr" "c = frequency_of mgr"
    "\<And>mm. restoreRequest ''keys.csv'' ''frequencies.csv'' (sv_disk sv) mm = (Returns True, notify_one (mm
       \<lparr>m_pKeyMap := m_pKeyMap mgr, m_pFrequencyMap := m_pFrequencyMap mgr, m_writingData := 0\<rparr>))"
    using d(14) Some by (auto simp: saved_on_def)
  let ?mgr = "notify_one ((manager_of sv)\<lparr>m_pKeyMap := m_pKeyMap mgr, m_pFrequencyMap := m_pFrequencyMap mgr, m_writingData := 0\<rparr>)"
  have res: "r = (1, ''Restored OK.'')" "sv1 = sv\<lparr>m_pMessageQueue := (m_pMessageQueue sv)\<lparr>consumer := ?mgr\<rparr>\<rparr>"
    using call mgr(3) tracker_names [OF d(4)]
    by (auto simp: message_restore_def manager_restoreRequest_def CMD_SUCCEEDED_def)
  have prev: "prev_order k ?mgr = prev_order k mgr" for k by (simp add: prev_order_def notify_one_def)
  have "good_manager ?mgr"
    using mgr(1) d(10) by (auto simp: good_manager_def rank_inv_def prev) (auto simp: notify_one_def)
  moreover have "shows_manager (s\<lparr>sp_counts := c\<rparr>) ?mgr"
    using d(12) mgr(2) prev by (simp add: shows_manager_def frequency_of_prev_order fun_eq_iff) (simp add: notify_one_def)
  moreover have "working contents ((m_pMessageQueue sv)\<lparr>consumer := ?mgr\<rparr>)"
    "pending contents ((m_pMessageQueue sv)\<lparr>consumer := ?mgr\<rparr>) = pending contents (m_pMessageQueue sv)"
    using d(6) by (simp_all add: working_def queue_ok_def no_leak_def pending_def pending_pointers_def held_def)
  ultimately have "server_sim fs lf contents n (s\<lparr>sp_counts := c\<rparr>) sv1"
    using d spec_room_restored [OF d(15) Some] by (simp add: server_sim_def res(2))
  then show ?thesis using reply_restored [OF Some] res(1) by auto
qed

text \<open>The readers.\<close>

lemma report_simulated:
  assumes "good_manager mgr" "shows_manager s mgr"
  obtains vec where "getTopHotkeys mgr [] = Returns vec" "is_report (sp_counts s) (sp_base s) vec"
proof -
  have inv: "rank_inv mgr" by (rule good_manager_inv [OF assms(1)])
  have size: "length (m_pFrequencyMap mgr) = min 20 (card (counted (frequency_of mgr)))"
    using ranking_size [OF inv, of "counted (frequency_of mgr)"] counted_keys(1) [OF inv] assms(1)
    by (simp add: counted_def good_manager_def)
  show ?thesis
  proof (rule report_properties [OF inv], goal_cases)
    case (1 vec)
    then have "is_report (sp_counts s) (sp_base s) vec"
      using size assms(2) unfolding is_report_def shows_manager_def by (auto simp: counted_def)
    then show ?case by (rule that [OF 1(1)])
  qed
qed

lemma hot_simulated:
  assumes "good_manager mgr" "shows_manager s mgr"
  obtains hot where "isHotKey key mgr = Returns hot" "is_hot (sp_counts s) key hot"
proof -
  have inv: "rank_inv mgr" by (rule good_manager_inv [OF assms(1)])
  show ?thesis
    using that isHotKey_iff [OF inv, of key] hot_properties [OF inv, of key] assms
    by (auto simp: is_hot_def shows_manager_def counted_def good_manager_def)
qed

lemma total_simulated:
  assumes "good_manager mgr" "shows_manager s mgr"
  shows "unat (getTotalKeyNumber mgr) = card (counted (sp_counts s)) mod 2 ^ 32"
  using counted_keys(2) [OF good_manager_inv [OF assms(1)]] assms(2)
  by (simp add: getTotalKeyNumber_def shows_manager_def counted_def unat_of_nat)

lemma onMessage_targets:
  "onMessage lf now ''keySent'' d out sv = message_keySent lf d sv"
  "onMessage lf now ''isHotKey'' d out sv = message_isHotKey d sv"
  "onMessage lf now ''getTopHotKeys'' d out sv = message_getTopHotKeys sv"
  "onMessage lf now ''totalKeys'' d out sv = message_totalKeys sv"
  "onMessage lf now ''restore'' d out sv = message_restore sv"
  "resizes t \<Longrightarrow> onMessage lf now t d out sv = message_setTopHotKeys lf d sv"
  by (auto simp: onMessage_def resizes_def)

text \<open>The other targets do not concern the counts.\<close>

lemma other_targets:
  assumes other: "\<not> counts_keys t" "\<not> resizes t" and call: "onMessage lf now t d [] sv = (Returns r, sv1)"
  shows "spec_reply s t d r s \<and> (\<exists>signals. sv1 = sv\<lparr>sv_signals := signals\<rparr>)"
proof -
  consider "t = ''shutdown''" | "t = ''restart''" | "t = ''time''" | (none) "t \<noteq> ''shutdown''" "t \<noteq> ''restart''" "t \<noteq> ''time''"
    by blast
  then show ?thesis
  proof cases
    case 1
    then show ?thesis using call reply_shutdown by (auto simp: onMessage_def message_signal_def CMD_SUCCEEDED_def)
  next
    case 2
    then show ?thesis using call reply_restart by (auto simp: onMessage_def message_signal_def CMD_SUCCEEDED_def)
  next
    case 3
    then have "sv1 = sv\<lparr>sv_signals := sv_signals sv\<rparr>" "\<exists>text. r = (1, text)"
      using call by (auto simp: onMessage_def message_time_def CMD_SUCCEEDED_def)
    then show ?thesis using reply_time 3 by blast
  next
    case none
    have "t \<noteq> ''keySent''" "t \<noteq> ''isHotKey''" "t \<noteq> ''getTopHotKeys''" "t \<noteq> ''totalKeys''" "t \<noteq> ''restore''"
      "t \<noteq> ''setTopHotKeys''" "t \<noteq> ''setKeyReportBaseSize''"
      using other by (simp_all add: counts_keys_def resizes_def)
    then have "sv1 = sv\<lparr>sv_signals := sv_signals sv\<rparr>" "r = (- 1, [])"
      using call none by (auto simp: onMessage_def CMD_UNKNOWN_def)
    then show ?thesis using reply_unknown [OF other none] by blast
  qed
qed

lemma reply_simulated:
  assumes sim: "server_sim fs lf contents (Suc n) s sv" and call: "onMessage lf now t d [] sv = (Returns r, sv1)"
    and clean: "clean_call (t, d)" and len: "length d < 2 ^ 64 - 1"
  shows "\<exists>s1. spec_reply s t d r s1 \<and> server_sim fs lf contents n s1 sv1"
proof -
  have m: "m_pMapManager sv" and mgr: "good_manager (manager_of sv)" "shows_manager s (manager_of sv)"
    by (rule server_simD [OF sim])+
  note less = server_sim_less [OF sim]
  obtain vec where vec: "getTopHotkeys (manager_of sv) [] = Returns vec" "is_report (sp_counts s) (sp_base s) vec"
    by (rule report_simulated [OF mgr])
  obtain hot where hot: "isHotKey d (manager_of sv) = Returns hot" "is_hot (sp_counts s) d hot"
    by (rule hot_simulated [OF mgr])
  consider "t = ''keySent''" | "t = ''isHotKey''" | "t = ''getTopHotKeys''" | "t = ''totalKeys''" | "resizes t" | "t = ''restore''"
    | (other) "\<not> counts_keys t" "\<not> resizes t"
    unfolding counts_keys_def by argo
  then show ?thesis
  proof cases
    case 1
    then show ?thesis using keySent_simulated [OF sim _ _ len] call clean by (simp add: onMessage_targets)
  next
    case 2
    then have "r = (1, if hot then ''YES'' else ''NO'')" "sv1 = sv"
      using call hot(1) m by (auto simp: onMessage_targets message_isHotKey_def server_isHotKey_def CMD_SUCCEEDED_def)
    then show ?thesis using reply_isHotKey [OF hot(2)] less 2 by blast
  next
    case 3
    then have "r = (1, report_text vec)" "sv1 = sv"
      using call vec(1) m by (auto simp: onMessage_targets message_getTopHotKeys_def server_getTopHotkeys_def CMD_SUCCEEDED_def)
    then show ?thesis using reply_getTopHotKeys [OF vec(2)] less 3 by blast
  next
    case 4
    then have "r = (1, to_string (card (counted (sp_counts s)) mod 2 ^ 32))" "sv1 = sv"
      using call total_simulated [OF mgr] m by (auto simp: onMessage_targets message_totalKeys_def server_getTotalKeys_def CMD_SUCCEEDED_def)
    then show ?thesis using reply_totalKeys less 4 by blast
  next
    case 5
    then show ?thesis using resize_simulated [OF sim _ 5] call onMessage_targets(6) [OF 5, of lf now d "[]" sv] by simp
  next
    case 6
    then show ?thesis using restore_simulated [OF sim] call by (simp add: onMessage_targets)
  next
    case other
    note answer = other_targets [OF other call, of s]
    then have "server_sim fs lf contents n s sv1" using less by (auto simp: server_sim_def)
    then show ?thesis using answer by blast
  qed
qed

subsection \<open>The simulation of the whole program\<close>

definition tracker_sim ::
  "filesystem \<Rightarrow> 'q lockfree \<Rightarrow> ('q \<Rightarrow> pointer list) \<Rightarrow> nat \<Rightarrow> nat \<Rightarrow> tracker_spec \<Rightarrow> 'q server hall \<Rightarrow> bool" where
  "tracker_sim fs lf contents now n s h \<longleftrightarrow>
     tracker_functors lf now (h_listener h) \<and> server_sim fs lf contents n s (h_state h)"

definition clean_event :: "system_event \<Rightarrow> bool" where
  "clean_event e \<longleftrightarrow> (\<forall>c \<in> set (event_calls e). clean_call c)"

lemma event_calls_short: "event_calls e = [(t, d)] \<Longrightarrow> length d < 4096"
  using calls_of_short [of t d "[e]"] by simp

lemma observed_client:
  assumes "event_calls (Client ev) = [(t, d)]" "onMessage lf now t d [] (h_state h) = (Returns r, sv1)"
  shows "observed lf now h (Client ev) = [Answered t d r]"
  using assms by (simp add: observed_def)

lemma client_simulated:
  assumes sim: "tracker_sim fs lf contents now (Suc n) s h" and step: "hall_step index h ev h1"
    and clean: "clean_event (Client ev)"
  shows "\<exists>s1. spec_run s (observed lf now h (Client ev)) s1 \<and> tracker_sim fs lf contents now n s1 h1"
proof -
  have f: "tracker_functors lf now (h_listener h)" and sv: "server_sim fs lf contents (Suc n) s (h_state h)"
    using sim by (simp_all add: tracker_sim_def)
  note call = hall_step_call [OF step f]
  show ?thesis
  proof (cases rule: event_calls_cases [of "Client ev"])
    case none
    then have "tracker_sim fs lf contents now n s h1" using call server_sim_less [OF sv] by (simp add: tracker_sim_def)
    then show ?thesis using none spec_none by (auto simp: observed_def)
  next
    case (one t d)
    then obtain r where ans: "onMessage lf now t d [] (h_state h) = (Returns r, h_state h1)" using call by auto
    obtain s1 where s1: "spec_reply s t d r s1" "server_sim fs lf contents n s1 (h_state h1)"
      using reply_simulated [OF sv ans] clean one event_calls_short [OF one] by (auto simp: clean_event_def)
    have "spec_run s (observed lf now h (Client ev)) s1"
      unfolding observed_client [where h = h, OF one ans] by (rule spec_answers [OF s1(1) spec_none])
    then show ?thesis using s1(2) call by (auto simp: tracker_sim_def)
  qed
qed

interpretation tracker: forward_simulation "system_step fs lf index" "observed lf now" clean_event spec_run
  "tracker_sim fs lf contents now" for fs lf index now contents
proof
  fix n s h e h1
  assume sim: "tracker_sim fs lf contents now (Suc n) s h" and clean: "clean_event e" and step: "system_step fs lf index h e h1"
  have f: "tracker_functors lf now (h_listener h)" and sv: "server_sim fs lf contents n s (h_state h)"
    using sim server_sim_less by (auto simp: tracker_sim_def)
  show "\<exists>s1. spec_run s (observed lf now h e) s1 \<and> tracker_sim fs lf contents now n s1 h1"
    using step
  proof cases
    case (system_client ev)
    then show ?thesis using client_simulated [OF sim] clean by simp
  next
    case (system_worker st)
    then show ?thesis
      using worker_simulated [OF sv] f by (auto simp: observed_def event_calls_def tracker_sim_def)
  next
    case (system_timer i sv1)
    then show ?thesis using timer_simulated [OF sv system_timer(4)] f by (auto simp: observed_def tracker_sim_def)
  qed
qed (auto intro: spec_none spec_run_append)

lemma tracker_sim_started:
  assumes lf: "fifo_queue lf contents" and q: "contents q = []" and fs: "posix_files fs"
    and build: "tracker_build make_address lf q dk now argv = Inr (Inr tk)"
    and disk: "usable_disk ''keys.csv'' ''frequencies.csv'' dk" "saved_on dk saved"
    and room: "n < 2 ^ 64" "\<forall>c k. saved = Some c \<longrightarrow> c k + n < 2 ^ 64"
  shows "tracker_sim fs lf contents now n (spec_start saved) (tracker_hall (tracker_start tk))"
proof (rule tracker_started_parts [OF build])
  fix v
  assume parts: "m_pMessageQueue (tk_server (tracker_start tk)) = started q (MapManager_new 10 20 v)"
    "tracker_functors lf now (w_qListener (tk_web (tracker_start tk)))" "sv_disk (tk_server (tracker_start tk)) = dk"
    "b_keyFilename (m_pBackupManager (tk_server (tracker_start tk))) = b_keyFilename tracker_backup"
    "b_frequencyFilename (m_pBackupManager (tk_server (tracker_start tk))) = b_frequencyFilename tracker_backup"
    "m_pMapManager (tk_server (tracker_start tk))"
  have "c k \<le> 2 ^ 64 - 1 - n" if "saved = Some c" for c k
  proof -
    have "c k + n < 2 ^ 64" using room(2) that by blast
    then show ?thesis by simp
  qed
  then have "spec_room n (spec_start saved)"
    unfolding spec_room_def spec_start_def using room(1) by (intro exI [of _ "2 ^ 64 - 1 - n"]) simp
  moreover have "shows_manager (spec_start saved) (MapManager_new 10 20 v)"
    by (simp add: shows_manager_def spec_start_def fun_eq_iff MapManager_new_def frequency_of_def)
  moreover have "pending contents (started q (MapManager_new 10 20 v)) = []" "consumer (started q (MapManager_new 10 20 v)) = MapManager_new 10 20 v"
    using q by (simp_all add: pending_def pending_pointers_def held_def started_eq)
  ultimately show ?thesis
    using parts lf fs disk working_started [of contents q "MapManager_new 10 20 v", OF q] good_manager_new
    by (simp add: tracker_sim_def server_sim_def tracker_hall_def hall_new_def spec_start_def)
qed

text \<open>Every call that a request leads to is observed with its reply.\<close>

lemma observed_step_calls:
  assumes "system_step fs lf index h e h1" "tracker_functors lf now (h_listener h)"
  shows "answered_calls (observed lf now h e) = event_calls e"
  using assms(1)
proof cases
  case (system_client ev)
  show ?thesis
  proof (cases rule: event_calls_cases [of e])
    case (one t d)
    then show ?thesis using hall_step_call [OF system_client(2) assms(2)] system_client(1) observed_client by fastforce
  qed (simp add: observed_def system_client(1))
qed (auto simp: observed_def event_calls_def)

lemma observed_run_calls:
  "observed_run (system_step fs lf index) (observed lf now) h es os h1 \<Longrightarrow> tracker_functors lf now (h_listener h) \<Longrightarrow>
     answered_calls os = calls_of es"
proof (induction rule: observed_run.induct)
  case (observed_next h e h1 es os h2)
  then show ?case
    using observed_step_calls [OF observed_next.hyps(1) observed_next.prems]
      system_step_files [OF observed_next.hyps(1) observed_next.prems] by simp
qed simp

lemma saved_on_nothing: "dk_files dk ''keys.csv'' = None \<Longrightarrow> saved_on dk None"
  using restoreRequest_not_opened [of "''keys.csv''" "''frequencies.csv''" dk]
  by (simp add: saved_on_def restore_opens_def ifstream_open_def open_in_failed_def is_fail_def)

subsection \<open>Properties\<close>



end
