(* ===== verification/Replies.thy ===== *)
theory Replies
  imports Refinement Progress
begin

section \<open>From the replies of the functors to the responses of the connections\<close>

text \<open>
  The refinement observes what a functor replies to a connection. Here that reply is followed to the response the
  connection writes: status, length and page are a function of the request and the reply alone.
\<close>

text \<open>The response that the connection's code makes of a reply, whatever the target and the payload were.\<close>

definition reply_response :: "string option \<Rightarrow> http_request \<Rightarrow> string \<Rightarrow> int \<times> string \<Rightarrow> http_response outcome" where
  "reply_response index rq buffer r =
     fst (processRequest (\<lambda>t out s. (Returns r, s)) (\<lambda>t d out s. (Returns r, s)) index rq buffer ())"

lemma processRequest_reply:
  assumes "request_calls rq buffer = [(t, d)]" "onMessage lf now t d [] sv = (Returns r, sv1)"
  shows "processRequest (\<lambda>t out. onMessage lf now t [] out) (onMessage lf now) index rq buffer sv
    = (reply_response index rq buffer r, sv1)"
proof (cases "rq_method rq")
  case Get
  then show ?thesis
    using assms
    by (cases r) (auto simp: reply_response_def processRequest_def createGetResponse_def request_calls_def Let_def split: if_splits)
next
  case Post
  then show ?thesis
    using assms
    by (cases r) (auto simp: reply_response_def processRequest_def createPostResponse_def request_calls_def Let_def
        split: sum.splits option.splits if_splits)
qed (use assms in \<open>simp add: request_calls_def\<close>)

lemma reply_response_status:
  assumes "request_calls rq buffer = [(t, d)]"
  obtains rs where "reply_response index rq buffer r = Returns rs"
    and "rs_result rs = (if fst r < 0 then 404 else if fst r = 0 then 500 else 200)"
proof -
  have "\<exists>rs. reply_response index rq buffer r = Returns rs
    \<and> rs_result rs = (if fst r < 0 then 404 else if fst r = 0 then 500 else 200)"
  proof (cases "rq_method rq")
    case Get
    then show ?thesis
      using assms by (cases r) (auto simp: reply_response_def processRequest_def createGetResponse_def request_calls_def
          Let_def insertHtmlInResponse_def status_defs)
  next
    case Post
    then show ?thesis
      using assms by (cases r) (auto simp: reply_response_def processRequest_def createPostResponse_def request_calls_def
          Let_def insertHtmlInResponse_def status_defs split: sum.splits option.splits)
  qed (use assms in \<open>simp add: request_calls_def\<close>)
  then show ?thesis using that by blast
qed

text \<open>An iteration that reads such a request and writes the response.\<close>

lemma iteration_writes_reply:
  assumes f: "tracker_functors lf now l" and run: "c_running c" and calls: "request_calls rq buffer = [(t, d)]"
    and reply: "onMessage lf now t d [] sv = (Returns r, sv1)" and rs: "reply_response index rq buffer r = Returns rs"
  shows "run_iteration l index (Read_request rq buffer) False c sv
    = (Returns (), c\<lparr>c_response := rs, c_writeReady := True, c_written := c_written c @ [with_length rs]\<rparr>, sv1)"
  using f run processRequest_reply [OF calls reply, of index] rs
  by (simp add: run_iteration_def readRequest_def writeResponse_def tracker_functors_def with_length_def Let_def)

subsection \<open>Properties\<close>

text \<open>
  C3. A client gets what the refinement observes. After any run of what \<open>main\<close> starts, let a thread read a
  request that calls a functor and write the response. Then one reply is observed, to that call; the response
  is the one the connection makes of this reply, with the length of its body; its status is 404, 500 or 200 as
  the code of the reply is negative, zero or positive; and the thread stays with the client.
\<close>

theorem replies_are_written:
  assumes build: "tracker_build make_address lf q dk now argv = Inr (Inr tk)"
    and run: "system_run fs lf index (tracker_hall (tracker_start tk)) es h"
    and step: "system_step fs lf index h (Client (Iterate i (Read_request rq buffer) False)) h1"
    and calls: "request_calls rq buffer = [(t, d)]"
  shows "\<exists>r rs. observed lf now h (Client (Iterate i (Read_request rq buffer) False)) = [Answered t d r]
    \<and> reply_response index rq buffer r = Returns rs
    \<and> rs_result rs = (if fst r < 0 then 404 else if fst r = 0 then 500 else 200)
    \<and> c_written (h_connections h1 i) = c_written (h_connections h i) @ [with_length rs]
    \<and> c_running (h_connections h1 i) \<and> h_listener h1 = h_listener h"
proof -
  let ?ev = "Iterate i (Read_request rq buffer) False"
  have "tracker_functors lf now (h_listener (tracker_hall (tracker_start tk)))"
    by (rule tracker_started_parts [OF build]) (simp add: tracker_hall_def hall_new_def)
  then have f: "tracker_functors lf now (h_listener h)" using system_run_files [OF run] by blast
  have hs: "hall_step index h ?ev h1" using step by (rule system_stepE)
  have one: "event_calls (Client ?ev) = [(t, d)]" using calls by (simp add: event_calls_def)
  then obtain r where r: "onMessage lf now t d [] (h_state h) = (Returns r, h_state h1)"
    using hall_step_call [OF hs f] by auto
  obtain rs where rs: "reply_response index rq buffer r = Returns rs"
    "rs_result rs = (if fst r < 0 then 404 else if fst r = 0 then 500 else 200)"
    by (rule reply_response_status [OF calls])
  show ?thesis
    using hs
  proof cases
    case (hall_iterate c s)
    then have "c_written (h_connections h1 i) = c_written (h_connections h i) @ [with_length rs]"
      "c_running (h_connections h1 i)" "h_listener h1 = h_listener h"
      using iteration_writes_reply [OF f _ calls r rs(1)] by auto
    then show ?thesis using observed_client [OF one r] rs by blast
  qed
qed

text \<open>The second of the two clients asks for the total number of keys.\<close>

lemma replies_are_written_witness:
  "\<exists>h h1 r rs. request_calls (get_request ''/totalKeys'') [] = [(''totalKeys'', [])]
    \<and> system_step disk_filesystem list_lockfree None h
        (Client (Iterate 0 (Read_request (get_request ''/totalKeys'') []) False)) h1
    \<and> observed list_lockfree 0 h (Client (Iterate 0 (Read_request (get_request ''/totalKeys'') []) False))
        = [Answered ''totalKeys'' [] r]
    \<and> c_written (h_connections h1 0) = c_written (h_connections h 0) @ [with_length rs]"
proof (rule two_clients_system)
  fix tk h and v :: uint
  assume build: "tracker_build (\<lambda>_. True) list_lockfree [] empty_disk 0 tracker_argv = Inr (Inr tk)"
    and run: "system_run disk_filesystem list_lockfree None (tracker_hall (tracker_start tk)) (map Client two_clients) h"
    and h: "m_pMessageQueue (h_state h) = queue_send list_lockfree (Message_strings cmd_addKey [] [] 0 0 0)
      (started [] (MapManager_new 10 20 v))"
    and l: "l_threads (h_listener h) = [Serving, Idle, Idle, Idle]" "c_running (h_connections h 0)"
  have calls: "request_calls (get_request ''/totalKeys'') [] = [(''totalKeys'', [])]"
    by (simp add: request_calls_def get_request_def drop_slash_def)
  have "tracker_functors list_lockfree 0 (h_listener (tracker_hall (tracker_start tk)))"
    by (rule tracker_started_parts [OF build]) (simp add: tracker_hall_def hall_new_def)
  then have f: "tracker_functors list_lockfree 0 (h_listener h)" using system_run_files [OF run] by blast
  have inv: "rank_inv (manager_of (h_state h))" by (simp add: h started_eq rank_inv_new)
  have opened: "\<not> c_shuttingDown (h_connections h 0)"
    using system_run_open [OF run] by (simp add: tracker_hall_def hall_new_def HttpConnection_new_def)
  have i: "0 < length (l_threads (h_listener h))" "l_threads (h_listener h) ! 0 = Serving" using l by simp_all
  have rq: "well_formed (get_request ''/totalKeys'')" "drop_slash (rq_target (get_request ''/totalKeys'')) \<noteq> ''restore''"
    by (simp_all add: well_formed_def get_request_def drop_slash_def)
  obtain h1 where step: "system_step disk_filesystem list_lockfree None h
      (Client (Iterate 0 (Read_request (get_request ''/totalKeys'') []) False)) h1"
    by (rule request_step [OF f inv i l(2) opened rq])
  obtain r rs where "observed list_lockfree 0 h (Client (Iterate 0 (Read_request (get_request ''/totalKeys'') []) False))
      = [Answered ''totalKeys'' [] r]" "c_written (h_connections h1 0) = c_written (h_connections h 0) @ [with_length rs]"
    using replies_are_written [OF build run step calls] by auto
  then show ?thesis using calls step by (intro exI conjI)
qed

end
