(* ===== verification/Lives.thy ===== *)
theory Lives
  imports Refinement
begin

section \<open>The tracker across restarts\<close>

text \<open>
  The program is started, runs, ends at any point, whether after a signal or killed, and is started again on
  the disk it left. A life of the abstract machine begins with no counts and with what the last life has saved.
\<close>

subsection \<open>Lives of the abstract machine and of the program\<close>

inductive spec_lives :: "(string \<Rightarrow> nat) option \<Rightarrow> observation list list \<Rightarrow> (string \<Rightarrow> nat) option \<Rightarrow> bool" where
  spec_no_life: "spec_lives saved [] saved"
| spec_life: "spec_run (spec_start saved) os s \<Longrightarrow> spec_lives (sp_saved s) oss saved1 \<Longrightarrow> spec_lives saved (os # oss) saved1"

text \<open>Each life has a command line, a time and an index file of its own, and its own events.\<close>

inductive tracker_lives ::
  "filesystem \<Rightarrow> 'q lockfree \<Rightarrow> (string \<Rightarrow> bool) \<Rightarrow> 'q \<Rightarrow> disk \<Rightarrow> system_event list list \<Rightarrow> observation list list \<Rightarrow> disk \<Rightarrow> bool"
  for fs lf make_address q where
  no_life: "tracker_lives fs lf make_address q dk [] [] dk"
| a_life:
    "tracker_build make_address lf q dk now argv = Inr (Inr tk) \<Longrightarrow>
     observed_run (system_step fs lf index) (observed lf now) (tracker_hall (tracker_start tk)) es os h \<Longrightarrow>
     tracker_lives fs lf make_address q (sv_disk (h_state h)) ess oss dk1 \<Longrightarrow>
     tracker_lives fs lf make_address q dk (es # ess) (os # oss) dk1"

definition events_of :: "system_event list list \<Rightarrow> nat" where
  "events_of ess = sum_list (map length ess)"

lemma events_of_simps [simp]: "events_of [] = 0" "events_of (es # ess) = length es + events_of ess"
  by (simp_all add: events_of_def)

text \<open>One life, with a budget for the lives after it.\<close>

lemma life_simulated:
  assumes lf: "fifo_queue lf contents" and q: "contents q = []" and fs: "posix_files fs"
    and build: "tracker_build make_address lf q dk now argv = Inr (Inr tk)"
    and disk: "usable_disk ''keys.csv'' ''frequencies.csv'' dk" "saved_on dk saved"
    and room: "length es + n < 2 ^ 64" "\<forall>c k. saved = Some c \<longrightarrow> c k + (length es + n) < 2 ^ 64"
    and run: "observed_run (system_step fs lf index) (observed lf now) (tracker_hall (tracker_start tk)) es os h"
    and clean: "\<forall>c \<in> set (calls_of es). clean_call c"
  obtains s where "spec_run (spec_start saved) os s" and "usable_disk ''keys.csv'' ''frequencies.csv'' (sv_disk (h_state h))"
    and "saved_on (sv_disk (h_state h)) (sp_saved s)" and "\<forall>c k. sp_saved s = Some c \<longrightarrow> c k + n < 2 ^ 64"
proof -
  have start: "tracker_sim fs lf contents now (length es + n) (spec_start saved) (tracker_hall (tracker_start tk))"
    by (rule tracker_sim_started [OF lf q fs build disk room])
  have "\<forall>e \<in> set es. clean_event e" using clean by (auto simp: clean_event_def calls_of_def)
  then obtain s where s: "spec_run (spec_start saved) os s" "tracker_sim fs lf contents now n s h"
    using tracker.run_simulated [OF run _ start] by auto
  then have sim: "server_sim fs lf contents n s (h_state h)" by (simp add: tracker_sim_def)
  obtain b where b: "\<forall>c k. sp_saved s = Some c \<longrightarrow> c k \<le> b" "b + length (sp_pending s) + n < 2 ^ 64"
    using server_simD(15) [OF sim] by (auto simp: spec_room_def)
  have "c k + n < 2 ^ 64" if "sp_saved s = Some c" for c k
  proof -
    have "c k \<le> b" using b(1) that by blast
    then show ?thesis using b(2) by simp
  qed
  then show ?thesis using that s(1) server_simD(5,14) [OF sim] by blast
qed

subsection \<open>Properties\<close>



end
