(* ===== verification/MapManagerReference.thy ===== *)
theory MapManagerReference
  imports MapManagerPurge
begin

section \<open>The bounded ranking against a plain reference\<close>

text \<open>
  The manager keeps a bounded ranking up to date with every key. The reference keeps nothing: it counts
  the keys of the whole history, sorts the counts and takes the largest. Both give the same report.
\<close>

definition top_counts :: "nat \<Rightarrow> string list \<Rightarrow> nat list" where
  "top_counts n ks = take n (rev (sort (map (count_list ks) (remdups ks))))"

lemma mset_eq_sort: "mset xs = mset ys \<Longrightarrow> sort xs = sort ys"
  for xs ys :: "'a::linorder list"
  by (rule properties_for_sort) simp_all

lemma top_counts_mset:
  assumes "mset ks = mset ks'"
  shows "top_counts n ks = top_counts n ks'"
proof -
  have c: "count_list ks = count_list ks'" by (rule ext) (rule mset_eq_length_filter [OF assms])
  have "mset (remdups ks) = mset (remdups ks')"
    using mset_eq_setD [OF assms] by (simp add: set_eq_iff_mset_remdups_eq)
  then have "mset (map (count_list ks) (remdups ks)) = mset (map (count_list ks') (remdups ks'))"
    unfolding c by simp
  then have "sort (map (count_list ks) (remdups ks)) = sort (map (count_list ks') (remdups ks'))"
    by (rule mset_eq_sort)
  then show ?thesis by (simp add: top_counts_def)
qed

lemma sort_append_le:
  fixes xs ys :: "'a::linorder list"
  assumes "\<And>x y. x \<in> set xs \<Longrightarrow> y \<in> set ys \<Longrightarrow> x \<le> y"
  shows "sort (xs @ ys) = sort xs @ sort ys"
  by (rule properties_for_sort) (use assms in \<open>auto simp: sorted_append\<close>)

lemma mset_remdups_split:
  assumes "distinct rs" "set rs \<subseteq> set ks"
  shows "mset (remdups ks) = mset (filter (\<lambda>k. k \<notin> set rs) (remdups ks) @ rs)"
proof -
  have "distinct (filter (\<lambda>k. k \<notin> set rs) (remdups ks) @ rs)" using assms by auto
  moreover have "set (remdups ks) = set (filter (\<lambda>k. k \<notin> set rs) (remdups ks) @ rs)" using assms by auto
  ultimately show ?thesis by (meson distinct_remdups set_eq_iff_mset_eq_distinct)
qed

lemma run_keys_sizes:
  "m_baseReportElementNumber (run_keys evs mm) = m_baseReportElementNumber mm"
  "m_maxReportElementNumber (run_keys evs mm) = m_maxReportElementNumber mm"
proof -
  have "m_baseReportElementNumber (addOrUpdateKey key url nPort mm) = m_baseReportElementNumber mm"
    "m_maxReportElementNumber (addOrUpdateKey key url nPort mm) = m_maxReportElementNumber mm" for key url nPort mm
    by (simp_all add: addOrUpdateKey_def notify_one_def Let_def)
  then show "m_baseReportElementNumber (run_keys evs mm) = m_baseReportElementNumber mm"
    "m_maxReportElementNumber (run_keys evs mm) = m_maxReportElementNumber mm"
    by (induction evs arbitrary: mm) (auto simp: run_keys_def)
qed

text \<open>The ranking's frequencies are the largest counts.\<close>

lemma ranking_is_top:
  assumes inv: "rank_inv mm" and freq: "\<And>k. frequency_of mm k = count_list ks k"
  shows "rev (map (\<lambda>p. unat (fst p)) (m_pFrequencyMap mm)) = top_counts (unat (m_maxReportElementNumber mm)) ks"
proof -
  let ?fm = "m_pFrequencyMap mm" and ?mx = "unat (m_maxReportElementNumber mm)"
  let ?rs = "map snd ?fm" and ?c = "count_list ks"
  let ?rest = "filter (\<lambda>k. k \<notin> set ?rs) (remdups ks)"
  note r = rankedD [OF rank_invD(2) [OF inv]]
  have pos: "0 < ?c k \<longleftrightarrow> k \<in> set ks" for k using count_list_0_iff [of ks k] by auto
  have counts: "map ?c ?rs = map (\<lambda>p. unat (fst p)) ?fm"
    using ranked_frequency(1) [OF inv] by (auto simp: freq)
  have "sorted (map unat (map fst ?fm))"
    using r(1) by (auto simp: sorted_map word_le_unat sorted_wrt_iff_nth_less)
  then have sorted: "sorted (map ?c ?rs)" unfolding counts by (simp add: comp_def)
  have sub: "set ?rs \<subseteq> set ks" using ranked_frequency(2) [OF inv] by (auto simp: freq pos)
  have "mset (map ?c (remdups ks)) = mset (map ?c ?rest @ map ?c ?rs)"
    using arg_cong [OF mset_remdups_split [OF r(2) sub], of "image_mset ?c"]
    by (simp add: multiset.map_comp)
  then have "sort (map ?c (remdups ks)) = sort (map ?c ?rest @ map ?c ?rs)" by (rule mset_eq_sort)
  also have "\<dots> = sort (map ?c ?rest) @ map ?c ?rs"
  proof -
    have le: "x \<le> y" if "x \<in> set (map ?c ?rest)" "y \<in> set (map ?c ?rs)" for x y
      using that unranked_frequency(2) [OF inv] by (auto simp: freq pos)
    have "sort (map ?c ?rest @ map ?c ?rs) = sort (map ?c ?rest) @ sort (map ?c ?rs)"
      by (rule sort_append_le) (rule le)
    also have "sort (map ?c ?rs) = map ?c ?rs" by (rule sorted_sort_id [OF sorted])
    finally show ?thesis .
  qed
  finally have split: "sort (map ?c (remdups ks)) = sort (map ?c ?rest) @ map ?c ?rs" .
  have "length ?fm = ?mx" if "?rest \<noteq> []"
  proof -
    obtain k where "k \<in> set ?rest" using \<open>?rest \<noteq> []\<close> by (meson list.set_sel(1))
    then show ?thesis using unranked_frequency(1) [OF inv, of k] by (auto simp: freq pos image_iff)
  qed
  then show ?thesis
    unfolding counts [symmetric] top_counts_def split using r(3) by (cases "?rest = []") simp_all
qed

text \<open>
  C6. The incremental report and the reference agree: after any sequence of reported keys the frequencies
  that \<open>getTopHotkeys\<close> returns are the texts of the largest counts of the sequence, in descending order,
  as many as the base size and the maximum allow; so they depend on how often each key was sent and not
  on the order.
\<close>

theorem report_equals_sorted_counts:
  fixes n m l :: uint and evs :: "(string \<times> string \<times> uint) list"
  assumes "length evs < 2 ^ 64 - 1"
  shows "\<exists>vec. getTopHotkeys (run_keys evs (MapManager_new n m l)) [] = Returns vec
    \<and> map kf_frequency vec = map to_string
        (top_counts (min (unat (m_baseReportElementNumber (MapManager_new n m l)))
                         (unat (m_maxReportElementNumber (MapManager_new n m l)))) (map fst evs))
    \<and> (\<forall>evs'. mset (map fst evs') = mset (map fst evs) \<longrightarrow>
         map_outcome (map kf_frequency) (getTopHotkeys (run_keys evs' (MapManager_new n m l)) [])
           = Returns (map kf_frequency vec))"
proof -
  let ?new = "MapManager_new n m l"
  let ?N = "min (unat (m_baseReportElementNumber ?new)) (unat (m_maxReportElementNumber ?new))"
  have report: "map_outcome (map kf_frequency) (getTopHotkeys (run_keys es ?new) [])
      = Returns (map to_string (top_counts ?N (map fst es)))" if "length es < 2 ^ 64 - 1" for es
  proof -
    let ?mm = "run_keys es ?new"
    note inv = run_keys_counts(1) [OF that, of n m l]
    have size: "m_baseReportElementNumber ?mm = m_baseReportElementNumber ?new"
      "m_maxReportElementNumber ?mm = m_maxReportElementNumber ?new"
      by (simp_all add: run_keys_sizes)
    have "map kf_frequency (map (\<lambda>p. \<lparr>kf_key = snd p, kf_frequency = to_string (unat (fst p))\<rparr>)
        (take (unat (m_baseReportElementNumber ?mm)) (rev (m_pFrequencyMap ?mm))))
      = map to_string (take (unat (m_baseReportElementNumber ?mm)) (rev (map (\<lambda>p. unat (fst p)) (m_pFrequencyMap ?mm))))"
      by (simp add: comp_def take_map rev_map)
    also have "\<dots> = map to_string (top_counts ?N (map fst es))"
      using ranking_is_top [OF inv run_keys_counts(2) [OF that]]
      by (simp add: top_counts_def size min.commute)
    finally show ?thesis using getTopHotkeys_eq [OF inv, of "[]"] by simp
  qed
  obtain vec where vec: "getTopHotkeys (run_keys evs ?new) [] = Returns vec"
    "map kf_frequency vec = map to_string (top_counts ?N (map fst evs))"
    using report [OF assms] by (cases "getTopHotkeys (run_keys evs ?new) []") auto
  moreover have "map_outcome (map kf_frequency) (getTopHotkeys (run_keys es ?new) [])
      = Returns (map kf_frequency vec)" if e: "mset (map fst es) = mset (map fst evs)" for es
  proof -
    have "length es < 2 ^ 64 - 1" using assms mset_eq_length [OF e] by simp
    from report [OF this] show ?thesis using vec(2) top_counts_mset [OF e, of ?N] by simp
  qed
  ultimately show ?thesis by blast
qed

lemma report_equals_sorted_counts_witness:
  "\<exists>vec. getTopHotkeys (run_keys [(''a'', ''u'', 1), (''b'', ''u'', 2), (''a'', ''u'', 3)] (MapManager_new 2 9 0)) []
      = Returns vec \<and> map kf_frequency vec = [''2'', ''1'']"
proof -
  have "map to_string (top_counts (min (unat (m_baseReportElementNumber (MapManager_new 2 9 0)))
      (unat (m_maxReportElementNumber (MapManager_new 2 9 0)))) [''a'', ''b'', ''a'']) = [''2'', ''1'']"
    by code_simp
  then show ?thesis
    using report_equals_sorted_counts [of "[(''a'', ''u'', 1), (''b'', ''u'', 2), (''a'', ''u'', 3)]" 2 9 0] by auto
qed

end
