(* ===== verification/Client.thy ===== *)
theory Client
  imports HttpConnection
begin

section \<open>The clients (src/client/client-stress-test.cpp, src/client/http-client-command.cpp)\<close>

text \<open>
  The two programs that talk to the tracker: the stress test, which sends a few requests and then a
  million keys from two hundred threads, and the command line client, which sends one request.
  \<open>boost::beast\<close> and the network are parameters: a record of the library's operations on requests, and a
  record of what connecting, exchanging a request for a response and shutting a socket down do to the
  outside world \<open>'w\<close>. A connection is named by a number. Output to \<open>std::cout\<close> and the clock are left out;
  the status codes written to \<open>std::cerr\<close> are kept.
\<close>

subsection \<open>Requests\<close>

record client_request =
  q_verb :: verb
  q_target :: string
  q_version :: nat
  q_fields :: "(string \<times> string) list"
  q_body :: string

record http_library =
  lib_set :: "string \<Rightarrow> string \<Rightarrow> client_request \<Rightarrow> client_request"
  lib_prepare_payload :: "client_request \<Rightarrow> client_request"
  lib_write :: "client_request \<Rightarrow> string"     \<comment> \<open>the bytes \<open>http::write\<close> sends\<close>
  lib_user_agent :: string            \<comment> \<open>\<open>BOOST_BEAST_VERSION_STRING\<close>\<close>

definition VERSION :: nat where "VERSION = 11"
definition client_host :: string where "client_host = ''localhost''"
definition client_port :: string where "client_port = ''8080''"

definition client_get :: "http_library \<Rightarrow> string \<Rightarrow> client_request" where
  "client_get lib target =
     (let request = \<lparr>q_verb = Get, q_target = target, q_version = VERSION, q_fields = [], q_body = []\<rparr>
      in lib_set lib ''User-Agent'' (lib_user_agent lib) (lib_set lib ''Host'' client_host request))"

definition client_post :: "http_library \<Rightarrow> string \<Rightarrow> string \<Rightarrow> client_request" where
  "client_post lib target body =
     (let request = \<lparr>q_verb = Post, q_target = target, q_version = VERSION, q_fields = [], q_body = []\<rparr>;
          request1 = lib_set lib ''Content-Type'' ''text/plain''
            (lib_set lib ''User-Agent'' (lib_user_agent lib) (lib_set lib ''Host'' client_host request))
      in lib_prepare_payload lib (request1\<lparr>q_body := body\<rparr>))"

subsection \<open>The network\<close>

datatype shutdown_result = Shut_down | Not_connected | Shutdown_failed

record 'w network =
  net_connect :: "nat \<Rightarrow> string \<Rightarrow> string \<Rightarrow> 'w \<Rightarrow> exn option \<times> 'w"   \<comment> \<open>None when it succeeds\<close>
  net_exchange :: "nat \<Rightarrow> client_request \<Rightarrow> 'w \<Rightarrow> nat outcome \<times> 'w"   \<comment> \<open>\<open>http::write\<close>, then \<open>http::read\<close>\<close>
  net_shutdown :: "nat \<Rightarrow> 'w \<Rightarrow> shutdown_result \<times> 'w"

record 'w client =
  cl_world :: 'w
  cl_errors :: "nat list"     \<comment> \<open>the codes after \<open>Request error\<close>\<close>
  cprMutex :: bool

text \<open>\<open>connect\<close> catches every exception and returns whether there was none.\<close>

definition connect :: "'w network \<Rightarrow> nat \<Rightarrow> 'w client \<Rightarrow> bool \<times> 'w client" where
  "connect net stream s =
     (let (r, w) = net_connect net stream client_host client_port (cl_world s)
      in (r = None, s\<lparr>cl_world := w\<rparr>))"

text \<open>\<open>tryConnect\<close>: the code with which it ends the program when there is no connection.\<close>

definition tryConnect :: "'w network \<Rightarrow> nat \<Rightarrow> 'w client \<Rightarrow> int option \<times> 'w client" where
  "tryConnect net stream s =
     (let (ok, s1) = connect net stream s in (if \<not> ok then Some 1 else None, s1))"

definition disconnect :: "'w network \<Rightarrow> nat \<Rightarrow> 'w client \<Rightarrow> unit outcome \<times> 'w client" where
  "disconnect net stream s =
     (let (ec, w) = net_shutdown net stream (cl_world s)
      in (if ec = Shutdown_failed then Throws Boost_system_error else Returns (), s\<lparr>cl_world := w\<rparr>))"

subsection \<open>The tests of single requests\<close>

definition send_request :: "'w network \<Rightarrow> nat \<Rightarrow> client_request \<Rightarrow> 'w client \<Rightarrow> unit outcome \<times> 'w client" where
  "send_request net stream request s =
     (let (r, w) = net_exchange net stream request (cl_world s); s1 = s\<lparr>cl_world := w\<rparr>
      in case r of
           Returns result \<Rightarrow>
             (Returns (), if result = status_ok then s1 else s1\<lparr>cl_errors := cl_errors s1 @ [result]\<rparr>)
         | _ \<Rightarrow> (map_outcome (\<lambda>_. ()) r, s1))"

definition test_keySent :: "http_library \<Rightarrow> 'w network \<Rightarrow> nat \<Rightarrow> string \<Rightarrow> 'w client \<Rightarrow> unit outcome \<times> 'w client" where
  "test_keySent lib net stream key = send_request net stream (client_post lib ''/keySent'' key)"

text \<open>An exception between \<open>lock\<close> and \<open>unlock\<close> leaves the mutex locked.\<close>

definition test_isHotKey ::
  "http_library \<Rightarrow> 'w network \<Rightarrow> nat \<Rightarrow> string \<Rightarrow> bool \<Rightarrow> 'w client \<Rightarrow> unit outcome \<times> 'w client" where
  "test_isHotKey lib net stream key multithread s =
     (if multithread \<and> cprMutex s then (Waits, s)
      else
        let (r, s1) = send_request net stream (client_post lib ''/isHotKey'' key)
              (if multithread then s\<lparr>cprMutex := True\<rparr> else s)
        in (r, if multithread \<and> r = Returns () then s1\<lparr>cprMutex := False\<rparr> else s1))"

definition test_setKeyReportBaseSize ::
  "http_library \<Rightarrow> 'w network \<Rightarrow> nat \<Rightarrow> uint \<Rightarrow> 'w client \<Rightarrow> unit outcome \<times> 'w client" where
  "test_setKeyReportBaseSize lib net stream size0 =
     send_request net stream (client_post lib ''/setKeyReportBaseSize'' (to_string (unat size0)))"

definition test_totalKeys :: "http_library \<Rightarrow> 'w network \<Rightarrow> nat \<Rightarrow> 'w client \<Rightarrow> unit outcome \<times> 'w client" where
  "test_totalKeys lib net stream = send_request net stream (client_get lib ''/totalKeys'')"

definition test_getTopHotKeys :: "http_library \<Rightarrow> 'w network \<Rightarrow> nat \<Rightarrow> 'w client \<Rightarrow> unit outcome \<times> 'w client" where
  "test_getTopHotKeys lib net stream = send_request net stream (client_get lib ''/getTopHotKeys'')"

subsection \<open>The threads of the stress test\<close>

text \<open>\<open>sprintf\<close> with \<open>%0ni\<close> for a number that is not negative.\<close>

definition zero_padded :: "nat \<Rightarrow> nat \<Rightarrow> string" where
  "zero_padded width i = replicate (width - length (to_string i)) CHR ''0'' @ to_string i"

definition sprintf_key :: "nat \<Rightarrow> nat \<Rightarrow> string" where
  "sprintf_key t i = ''testing_keySent_'' @ zero_padded 3 t @ ''_'' @ zero_padded 4 i"

definition key_buffer :: nat where "key_buffer = 48"
definition thread_count :: nat where "thread_count = 200"
definition keys_per_thread :: nat where "keys_per_thread = 5000"

text \<open>Where a thread is: before \<open>connect\<close>, before the test of its loop with the value of \<open>i\<close>, or returned.\<close>

datatype client_thread = Connecting | Sending nat | Ended

text \<open>
  One step of thread \<open>t\<close>, whose stream is the connection \<open>t + 1\<close>. Writing past the buffer is undefined;
  an exception that leaves the thread's function ends the process.
\<close>

definition client_thread_step ::
  "http_library \<Rightarrow> 'w network \<Rightarrow> nat \<Rightarrow> client_thread \<Rightarrow> 'w client \<Rightarrow> client_thread outcome \<times> 'w client" where
  "client_thread_step lib net t th s =
     (case th of
        Connecting \<Rightarrow> (let (ok, s1) = connect net (Suc t) s in (Returns (if ok then Sending 0 else Ended), s1))
      | Sending i \<Rightarrow>
          (if i < keys_per_thread then
             (let key = sprintf_key (t + 1) (i + 1)
              in if key_buffer \<le> length key then (Undefined, s)
                 else
                   let (r, s1) = test_keySent lib net (Suc t) key s
                   in (case r of Returns _ \<Rightarrow> Returns (Sending (Suc i)) | Throws _ \<Rightarrow> Terminates
                       | Waits \<Rightarrow> Waits | Undefined \<Rightarrow> Undefined | Terminates \<Rightarrow> Terminates, s1))
           else (Returns Ended, s))
      | Ended \<Rightarrow> (Returns Ended, s))"

text \<open>The threads under a schedule: the numbers of the threads that take a step, in order.\<close>

fun run_client_threads ::
  "http_library \<Rightarrow> 'w network \<Rightarrow> nat list \<Rightarrow> client_thread list \<Rightarrow> 'w client \<Rightarrow> client_thread list outcome \<times> 'w client" where
  "run_client_threads lib net [] ths s = (Returns ths, s)"
| "run_client_threads lib net (t # sched) ths s =
     (if t < length ths then
        (case client_thread_step lib net t (ths ! t) s of
           (Returns th, s1) \<Rightarrow> run_client_threads lib net sched (ths[t := th]) s1
         | (r, s1) \<Rightarrow> (map_outcome (\<lambda>_. ths) r, s1))
      else run_client_threads lib net sched ths s)"

subsection \<open>The main function of the stress test\<close>

text \<open>Statements in order, up to the first that does not return.\<close>

fun run_calls :: "('s \<Rightarrow> unit outcome \<times> 's) list \<Rightarrow> 's \<Rightarrow> unit outcome \<times> 's" where
  "run_calls [] s = (Returns (), s)"
| "run_calls (f # fs) s = (case f s of (Returns _, s1) \<Rightarrow> run_calls fs s1 | (r, s1) \<Rightarrow> (r, s1))"

definition post_examples :: "http_library \<Rightarrow> 'w network \<Rightarrow> ('w client \<Rightarrow> unit outcome \<times> 'w client) list" where
  "post_examples lib net =
     [test_keySent lib net 0 ''XXX-XXXXXX-1A'', test_keySent lib net 0 ''XXX-XXXXXX-2B'',
      test_keySent lib net 0 ''XXX-XXXXXX-3C'', test_setKeyReportBaseSize lib net 0 15,
      test_isHotKey lib net 0 ''kkk'' False, test_keySent lib net 0 ''YYY-YYYYYY-4'',
      test_isHotKey lib net 0 ''YYY-YYYYYY-5'' False]"

definition get_examples :: "http_library \<Rightarrow> 'w network \<Rightarrow> ('w client \<Rightarrow> unit outcome \<times> 'w client) list" where
  "get_examples lib net =
     [test_getTopHotKeys lib net 0, test_totalKeys lib net 0, test_getTopHotKeys lib net 0]"

text \<open>
  The exit code. \<open>exit\<close> ends the program when the first connection fails; the two groups of examples are
  in \<open>try\<close> blocks; the rest is not, so an exception of \<open>disconnect\<close> ends the process. The program joins
  its threads: it waits as long as one has not ended. The macro \<open>TRY_CONNECT\<close> is empty in this build.
\<close>

definition stress_main ::
  "http_library \<Rightarrow> 'w network \<Rightarrow> nat list \<Rightarrow> 'w client \<Rightarrow> int outcome \<times> 'w client" where
  "stress_main lib net sched s =
     (let (ended, s1) = tryConnect net 0 s
      in case ended of
           Some code \<Rightarrow> (Returns code, s1)
         | None \<Rightarrow> case run_calls (post_examples lib net) s1 of
           (Throws _, s2) \<Rightarrow> (Returns 1, s2)
         | (Returns _, s2) \<Rightarrow>
             (case run_calls (get_examples lib net) s2 of
                (Throws _, s3) \<Rightarrow> (Returns 1, s3)
              | (Returns _, s3) \<Rightarrow>
                  (case disconnect net 0 s3 of
                     (Returns _, s4) \<Rightarrow>
                       (case run_client_threads lib net sched (replicate thread_count Connecting) s4 of
                          (Returns ths, s5) \<Rightarrow>
                            if \<exists>th \<in> set ths. th \<noteq> Ended then (Waits, s5)
                            else (case disconnect net 0 s5 of
                                    (Returns _, s6) \<Rightarrow> (Returns 0, s6)
                                  | (_, s6) \<Rightarrow> (Terminates, s6))
                        | (r, s5) \<Rightarrow> (map_outcome (\<lambda>_. 0) r, s5))
                   | (_, s4) \<Rightarrow> (Terminates, s4))
              | (r, s3) \<Rightarrow> (map_outcome (\<lambda>_. 0) r, s3))
         | (r, s2) \<Rightarrow> (map_outcome (\<lambda>_. 0) r, s2))"

subsection \<open>The command line client\<close>

text \<open>The request of \<open>http-client-command\<close>; None after the usage text. \<open>argv\<close> includes the program's name.\<close>

definition command_request :: "http_library \<Rightarrow> string list \<Rightarrow> client_request option" where
  "command_request lib argv =
     (let first = (if 2 \<le> length argv \<and> c_string (argv ! 1) \<noteq> [] then c_string (argv ! 1) ! 0 else NUL)
      in if length argv \<noteq> 5 \<and> length argv \<noteq> 6
            \<or> first \<noteq> CHR ''G'' \<and> first \<noteq> CHR ''g'' \<and> first \<noteq> CHR ''P'' \<and> first \<noteq> CHR ''p''
         then None
         else
           let getAction = (first = CHR ''G'' \<or> first = CHR ''g'');
               postMsg = (if getAction then [] else tl (c_string (argv ! 1)));
               host = c_string (argv ! 2); target = c_string (argv ! 4);
               version = (if length argv = 6 \<and> c_string (argv ! 5) = ''1.0'' then 10 else 11);
               req = \<lparr>q_verb = (if getAction then Get else Post), q_target = target, q_version = version,
                      q_fields = [], q_body = []\<rparr>;
               req1 = lib_set lib ''User-Agent'' (lib_user_agent lib) (lib_set lib ''Host'' host req)
           in Some (if getAction then req1
                    else lib_prepare_payload lib ((lib_set lib ''Content-Type'' ''text/plain'' req1)\<lparr>q_body := postMsg\<rparr>)))"

definition command_main :: "http_library \<Rightarrow> 'w network \<Rightarrow> string list \<Rightarrow> 'w \<Rightarrow> int outcome \<times> 'w" where
  "command_main lib net argv w =
     (case command_request lib argv of
        None \<Rightarrow> (Returns 1, w)
      | Some req \<Rightarrow>
          (case net_connect net 0 (c_string (argv ! 2)) (c_string (argv ! 3)) w of
             (None, w1) \<Rightarrow>
               (case net_exchange net 0 req w1 of
                  (Returns _, w2) \<Rightarrow>
                    (let (ec, w3) = net_shutdown net 0 w2
                     in (Returns (if ec = Shutdown_failed then 1 else 0), w3))
                | (Throws _, w2) \<Rightarrow> (Returns 1, w2)
                | (r, w2) \<Rightarrow> (map_outcome (\<lambda>_. 0) r, w2))
           | (Some _, w1) \<Rightarrow> (Returns 1, w1)))"

end
