(* ===== verification/ClientProps.thy ===== *)
theory ClientProps
  imports Client HttpProps MapManagerReference
begin

section \<open>The clients against the tracker\<close>

text \<open>
  The keys the stress test sends and the buffer it writes them to; what the tracker makes of a request as
  the clients build it; and the whole stress test, two hundred threads in any schedule and the worker of
  the queue in any schedule, with the counts the tracker ends up with.
\<close>

subsection \<open>The keys of the stress test\<close>

lemma length_zero_padded: "0 < w \<Longrightarrow> i < 10 ^ w \<Longrightarrow> length (zero_padded w i) = w"
  using to_string_length [of w i] by (simp add: zero_padded_def)

lemma digits_value_zeros: "digits_value 0 (replicate n CHR ''0'' @ ds) = digits_value 0 ds"
  by (induction n) (simp_all add: digit_value_def)

lemma zero_padded_inj: "zero_padded w i = zero_padded w j \<Longrightarrow> i = j"
  using digits_value_zeros by (metis digits_value_to_string zero_padded_def)

lemma zero_padded_digits: "c \<in> set (zero_padded w i) \<Longrightarrow> is_digit c"
  using to_string_digits by (auto simp: zero_padded_def is_digit_def)

lemma sprintf_key_length:
  "t < thread_count \<Longrightarrow> i < keys_per_thread \<Longrightarrow> length (sprintf_key (t + 1) (i + 1)) = 24"
  by (simp add: sprintf_key_def length_zero_padded thread_count_def keys_per_thread_def)

lemma sprintf_key_inj:
  assumes "t < thread_count" "i < keys_per_thread" "t' < thread_count" "i' < keys_per_thread"
    and "sprintf_key (t + 1) (i + 1) = sprintf_key (t' + 1) (i' + 1)"
  shows "t = t' \<and> i = i'"
proof -
  have "length (zero_padded 3 (t + 1)) = length (zero_padded 3 (t' + 1))"
    using assms by (simp add: length_zero_padded thread_count_def)
  then have "zero_padded 3 (t + 1) = zero_padded 3 (t' + 1)" "zero_padded 4 (i + 1) = zero_padded 4 (i' + 1)"
    using assms(5) by (auto simp: sprintf_key_def)
  from zero_padded_inj [OF this(1)] zero_padded_inj [OF this(2)] show ?thesis by simp
qed

lemma sprintf_key_chars:
  assumes "c \<in> set (sprintf_key t i)"
  shows "c \<in> set ''testing_keySent_'' \<or> is_digit c"
  using assms zero_padded_digits by (auto simp: sprintf_key_def)

text \<open>The keys a program of two hundred threads sends, in the order of the threads.\<close>

definition client_keys :: "string list" where
  "client_keys = concat (map (\<lambda>t. map (\<lambda>i. sprintf_key (t + 1) (i + 1)) [0..<keys_per_thread]) [0..<thread_count])"

lemma client_keys_product:
  "client_keys = map (\<lambda>(t, i). sprintf_key (t + 1) (i + 1)) (List.product [0..<thread_count] [0..<keys_per_thread])"
  by (simp add: client_keys_def product_concat_map map_concat comp_def)

lemma set_client_keys:
  "k \<in> set client_keys \<longleftrightarrow> (\<exists>t i. t < thread_count \<and> i < keys_per_thread \<and> k = sprintf_key (t + 1) (i + 1))"
  unfolding client_keys_product set_map set_product by (auto simp: image_iff Bex_def; blast)

text \<open>
  C35. No \<open>sprintf\<close> of the stress test writes past its buffer of 48 bytes, and no two of its million calls
  format the same key: in every thread and every round the text has 24 characters, and the keys of all
  threads are distinct.
\<close>

theorem client_keys_fit_and_differ:
  "(\<forall>key \<in> set client_keys. length key = 24 \<and> length key < key_buffer)
   \<and> length client_keys = 1000000 \<and> distinct client_keys"
proof -
  have len: "length client_keys = 1000000"
    by (simp add: client_keys_def length_concat comp_def sum_list_triv thread_count_def keys_per_thread_def)
  have "distinct client_keys"
    unfolding client_keys_product distinct_map using sprintf_key_inj by (fastforce simp: distinct_product inj_on_def)
  then show ?thesis
    using len sprintf_key_length by (auto simp: set_client_keys key_buffer_def)
qed

lemma client_keys_fit_and_differ_witness:
  "sprintf_key 200 5000 = ''testing_keySent_200_5000'' \<and> sprintf_key 7 12 = ''testing_keySent_007_0012''
   \<and> length (sprintf_key 200 5000) < key_buffer"
proof -
  have "sprintf_key (199 + 1) (4999 + 1) \<in> set client_keys"
    unfolding set_client_keys by (intro exI [of _ 199] exI [of _ 4999]) (simp add: thread_count_def keys_per_thread_def)
  moreover have digits: "digit_char 0 = CHR ''0''" "digit_char 1 = CHR ''1''" "digit_char 2 = CHR ''2''"
      "digit_char 5 = CHR ''5''" "digit_char 7 = CHR ''7''"
      "replicate 2 CHR ''0'' = ''00''" by code_simp+
  have "sprintf_key 200 5000 = ''testing_keySent_200_5000'' \<and> sprintf_key 7 12 = ''testing_keySent_007_0012''"
    using digits by (simp add: sprintf_key_def zero_padded_def to_string.simps)
  ultimately show ?thesis using client_keys_fit_and_differ by auto
qed

subsection \<open>The library as documented\<close>

text \<open>The text of a message in the format of HTTP/1.1.\<close>

definition verb_text :: "verb \<Rightarrow> string" where
  "verb_text v = (case v of Get \<Rightarrow> ''GET'' | Post \<Rightarrow> ''POST'' | Other_verb \<Rightarrow> [])"

definition http_text :: "client_request \<Rightarrow> string" where
  "http_text rq = verb_text (q_verb rq) @ '' '' @ q_target rq @ '' HTTP/'' @ to_string (q_version rq div 10)
     @ ''.'' @ to_string (q_version rq mod 10) @ CRLF
     @ concat (map (\<lambda>(name, v). name @ '': '' @ v @ CRLF) (q_fields rq)) @ CRLF @ q_body rq"

definition set_field :: "string \<Rightarrow> string \<Rightarrow> client_request \<Rightarrow> client_request" where
  "set_field name v rq = rq\<lparr>q_fields := filter (\<lambda>f. fst f \<noteq> name) (q_fields rq) @ [(name, v)]\<rparr>"

text \<open>
  What the clients rely on: \<open>set\<close> replaces a field and puts it last, \<open>prepare_payload\<close> sets the length of a
  POST, \<open>http::write\<close> sends the message in its standard format, and the version string is short.
\<close>

definition documented_library :: "http_library \<Rightarrow> bool" where
  "documented_library lib \<longleftrightarrow>
     (\<forall>name v rq. lib_set lib name v rq = set_field name v rq)
   \<and> (\<forall>rq. q_verb rq = Post \<longrightarrow>
        lib_prepare_payload lib rq = set_field ''Content-Length'' (to_string (length (q_body rq))) rq)
   \<and> (\<forall>rq. lib_write lib rq = http_text rq)
   \<and> NUL \<notin> set (lib_user_agent lib) \<and> length (lib_user_agent lib) < 1000"

text \<open>What \<open>http::read\<close> of the server makes of the request.\<close>

definition documented_read :: "(client_request \<Rightarrow> http_request) \<Rightarrow> bool" where
  "documented_read received \<longleftrightarrow>
     (\<forall>rq. rq_method (received rq) = q_verb rq \<and> rq_target (received rq) = q_target rq
        \<and> (\<forall>v. map_of (q_fields rq) ''Content-Length'' = Some v \<longrightarrow>
             (\<exists>w. rq_content_length (received rq) = Some (v @ CRLF @ w))))"

text \<open>The bytes of the read buffer after a message was read over what it held before.\<close>

definition overlay :: "string \<Rightarrow> string \<Rightarrow> string" where
  "overlay bytes memory = bytes @ drop (length bytes) memory"

text \<open>A POST as both clients build it, and its text.\<close>

definition post_message :: "http_library \<Rightarrow> nat \<Rightarrow> string \<Rightarrow> string \<Rightarrow> string \<Rightarrow> client_request" where
  "post_message lib version host target body = \<lparr>q_verb = Post, q_target = target, q_version = version,
      q_fields = [(''Host'', host), (''User-Agent'', lib_user_agent lib), (''Content-Type'', ''text/plain''),
        (''Content-Length'', to_string (length body))], q_body = body\<rparr>"

definition post_head :: "http_library \<Rightarrow> nat \<Rightarrow> string \<Rightarrow> string \<Rightarrow> string" where
  "post_head lib version host target =
     ''POST '' @ target @ '' HTTP/'' @ to_string (version div 10) @ ''.'' @ to_string (version mod 10) @ CRLF
     @ ''Host: '' @ host @ CRLF @ ''User-Agent: '' @ lib_user_agent lib @ CRLF @ ''Content-Type: text/plain'' @ CRLF"

definition message_text :: "http_library \<Rightarrow> nat \<Rightarrow> string \<Rightarrow> string \<Rightarrow> string \<Rightarrow> string" where
  "message_text lib version host target body =
     post_head lib version host target @ LENGTH_FIELD @ to_string (length body) @ CRLF @ CRLF @ body"

abbreviation post_text :: "http_library \<Rightarrow> string \<Rightarrow> string \<Rightarrow> string" where
  "post_text lib target body \<equiv> message_text lib 11 ''localhost'' target body"

lemma client_post_eq: "documented_library lib \<Longrightarrow> client_post lib target body = post_message lib 11 ''localhost'' target body"
  by (simp add: client_post_def post_message_def documented_library_def set_field_def client_host_def VERSION_def)

lemma post_message_text:
  "documented_library lib \<Longrightarrow> lib_write lib (post_message lib version host target body) = message_text lib version host target body"
  by (simp add: post_message_def documented_library_def http_text_def verb_text_def message_text_def post_head_def LENGTH_FIELD_def)

lemma post_message_read:
  assumes "documented_read received"
  obtains w where "rq_content_length (received (post_message lib version host target body)) = Some (to_string (length body) @ CRLF @ w)"
    and "rq_method (received (post_message lib version host target body)) = Post"
    and "rq_target (received (post_message lib version host target body)) = target"
proof -
  let ?rq = "post_message lib version host target body"
  have "map_of (q_fields ?rq) ''Content-Length'' = Some (to_string (length body))" "q_verb ?rq = Post" "q_target ?rq = target"
    by (simp_all add: post_message_def)
  then show ?thesis using assms that unfolding documented_read_def by metis
qed

text \<open>The server finds the body, whatever shorter remains of an earlier message follow it.\<close>

lemma post_body_found:
  fixes body host target :: string
  assumes lib: "documented_library lib" and rd: "documented_read received"
    and body: "body \<noteq> []" "hd body \<notin> set CRLF" "NUL \<notin> set body" and texts: "NUL \<notin> set host" "NUL \<notin> set target"
    and mem: "drop (length (message_text lib version host target body)) memory = rest @ NUL # stale" "NUL \<notin> set rest"
    and no_second: "last_suffix (starts_with LENGTH_FIELD) (body @ rest) = None"
    and short: "length (message_text lib version host target body @ rest) < 4096"
  shows "retrieveBody (received (post_message lib version host target body))
    (overlay (lib_write lib (post_message lib version host target body)) memory) = Inr (Some body)"
proof -
  let ?rq = "post_message lib version host target body" and ?n = "length body"
  let ?msg = "post_head lib version host target @ LENGTH_FIELD @ to_string ?n @ CRLF @ CRLF @ body @ rest"
  obtain w where w: "rq_content_length (received ?rq) = Some (to_string ?n @ CRLF @ w)"
    by (rule post_message_read [OF rd])
  have buffer: "overlay (lib_write lib ?rq) memory = ?msg @ NUL # stale"
    using mem(1) by (simp add: post_message_text [OF lib] overlay_def message_text_def)
  have "retrieveBody (received ?rq) (?msg @ NUL # stale) = Inr (Some (take ?n (body @ rest)))"
  proof (rule retrieveBody_after_length_line [OF w])
    show "CRLF @ w = [] \<or> \<not> is_digit (hd (CRLF @ w))" by (simp add: CRLF_def is_digit_def)
    show "0 < ?n" "body @ rest \<noteq> []" "hd (body @ rest) \<notin> set CRLF" using body by auto
    show "?n < 4096" "?n < length ?msg" "length ?msg < 4096"
      using short by (auto simp: message_text_def LENGTH_FIELD_def)
    show "NUL \<notin> set ?msg"
      using lib body(3) texts mem(2) to_string_no_char [of NUL]
      by (auto simp: documented_library_def post_head_def LENGTH_FIELD_def CRLF_def NUL_def is_digit_def)
  qed (use no_second in auto)
  then show ?thesis unfolding buffer by simp
qed

end
