(* ===== verification/StressTest.thy ===== *)
theory StressTest
  imports ClientProps
begin

section \<open>The stress test against the tracker\<close>

text \<open>
  The world of the stress test is the tracker itself: its server, the read buffer of each connection, and
  how many steps the worker of the queue takes after each request. The threads run in any schedule.
\<close>

record 'q site =
  si_server :: "'q server"
  si_memory :: "nat \<Rightarrow> string"     \<comment> \<open>the bytes of each connection's read buffer\<close>
  si_pace :: "nat list"

definition buffer_size :: nat where "buffer_size = 4096"

text \<open>The worker's steps between two requests.\<close>

definition worker_pause :: "'q lockfree \<Rightarrow> 'q site \<Rightarrow> 'q site outcome" where
  "worker_pause lf w =
     map_outcome (\<lambda>st. w\<lparr>si_server := (si_server w)\<lparr>m_pMessageQueue := st\<rparr>, si_pace := tl (si_pace w)\<rparr>)
       (run_queue lf (worker_steps (if si_pace w = [] then 0 else hd (si_pace w))) (m_pMessageQueue (si_server w)))"

definition site_exchange ::
  "http_library \<Rightarrow> 'q lockfree \<Rightarrow> nat \<Rightarrow> string option \<Rightarrow> (client_request \<Rightarrow> http_request)
     \<Rightarrow> nat \<Rightarrow> client_request \<Rightarrow> 'q site \<Rightarrow> nat outcome \<times> 'q site" where
  "site_exchange lib lf now index received stream rq w =
     (let memory = overlay (lib_write lib rq) (si_memory w stream);
          (r, sv) = tracker_request lf now index (received rq) memory (si_server w);
          w1 = w\<lparr>si_server := sv, si_memory := (si_memory w)(stream := memory)\<rparr>
      in case r of
           Returns response \<Rightarrow>
             (case worker_pause lf w1 of
                Returns w2 \<Rightarrow> (Returns (rs_result response), w2)
              | r1 \<Rightarrow> (map_outcome (\<lambda>_. 0) r1, w1))
         | Waits \<Rightarrow> (Waits, w1)
         | _ \<Rightarrow> (Throws Boost_system_error, w1))"

text \<open>A new connection has a new buffer.\<close>

definition tracker_network ::
  "http_library \<Rightarrow> 'q lockfree \<Rightarrow> nat \<Rightarrow> string option \<Rightarrow> (client_request \<Rightarrow> http_request) \<Rightarrow> 'q site network" where
  "tracker_network lib lf now index received =
     \<lparr>net_connect = (\<lambda>stream host port w.
        (None, w\<lparr>si_memory := (si_memory w)(stream := replicate buffer_size NUL)\<rparr>)),
      net_exchange = site_exchange lib lf now index received,
      net_shutdown = (\<lambda>stream w. (Shut_down, w))\<rparr>"

subsection \<open>One key through the tracker\<close>

lemma serving_steps:
  assumes lf: "fifo_queue lf contents" and s: "serving contents n st"
  obtains st1 where "run_queue lf (worker_steps k) st = Returns st1" "serving contents n st1"
    "eventual_consumer contents st1 = eventual_consumer contents st"
proof -
  have "\<exists>st1. run_queue lf (worker_steps k) st = Returns st1 \<and> serving contents n st1
      \<and> eventual_consumer contents st1 = eventual_consumer contents st"
    using s
  proof (induction k arbitrary: st)
    case (Suc k)
    obtain st1 where "run_step lf st = Returns st1" "serving contents n st1"
      "eventual_consumer contents st1 = eventual_consumer contents st"
      by (rule serving_step [OF lf Suc.prems])
    with Suc.IH [of st1] show ?case by simp
  qed simp
  then show ?thesis using that by blast
qed

text \<open>A key as the stress test formats it: no separators, and not mistaken for a field.\<close>

definition plain_key :: "string \<Rightarrow> bool" where
  "plain_key key \<longleftrightarrow> key \<noteq> [] \<and> length key < 100
     \<and> (\<forall>c \<in> set key. c \<notin> {NUL, payloadDelimiter, CHR ''C'', CHR 0x0D, CHR 0x0A})"

lemma plain_sprintf_key:
  assumes "t < thread_count" "i < keys_per_thread"
  shows "plain_key (sprintf_key (t + 1) (i + 1))"
proof -
  have "c \<notin> {NUL, payloadDelimiter, CHR ''C'', CHR 0x0D, CHR 0x0A}" if "c \<in> set (sprintf_key (t + 1) (i + 1))" for c
    using sprintf_key_chars [OF that]
    by (auto simp: NUL_def payloadDelimiter_def is_digit_def)
  moreover have "sprintf_key (t + 1) (i + 1) \<noteq> []" by (simp add: sprintf_key_def)
  ultimately show ?thesis using sprintf_key_length [OF assms] by (simp add: plain_key_def)
qed

lemma plain_key_no_field: "plain_key key \<Longrightarrow> last_suffix (starts_with LENGTH_FIELD) key = None"
  using last_suffix_skip [of "CHR ''C''" key "''ontent-Length: ''" "[]"]
  by (auto simp: plain_key_def LENGTH_FIELD_def starts_with_def)

lemma post_text_length:
  "documented_library lib \<Longrightarrow> length target \<le> 30 \<Longrightarrow> length body < 100 \<Longrightarrow> length (post_text lib target body) < buffer_size"
  using to_string_length [of 2 "length body"] to_string_length [of 1 1]
  by (auto simp: documented_library_def message_text_def post_head_def LENGTH_FIELD_def CRLF_def buffer_size_def)

text \<open>A buffer that holds nothing behind a message of this length.\<close>

definition clean_after :: "nat \<Rightarrow> string \<Rightarrow> bool" where
  "clean_after n memory \<longleftrightarrow> drop n memory = replicate (buffer_size - n) NUL"

lemma clean_after_overlay: "clean_after (length bytes) memory \<Longrightarrow> clean_after (length bytes) (overlay bytes memory)"
  by (simp add: clean_after_def overlay_def)

lemma exchange_key:
  assumes lib: "documented_library lib" and rd: "documented_read received" and lf: "fifo_queue lf contents"
    and key: "plain_key key"
    and mem: "clean_after (length (post_text lib ''/keySent'' key)) (si_memory w stream)"
    and s: "serving contents (Suc n) (m_pMessageQueue (si_server w))"
  obtains w' where "site_exchange lib lf now index received stream (client_post lib ''/keySent'' key) w = (Returns 200, w')"
    and "serving contents n (m_pMessageQueue (si_server w'))"
    and "eventual_consumer contents (m_pMessageQueue (si_server w'))
      = addOrUpdateKey key [] 0 (eventual_consumer contents (m_pMessageQueue (si_server w)))"
    and "si_memory w' = (si_memory w)(stream := overlay (post_text lib ''/keySent'' key) (si_memory w stream))"
proof -
  let ?rq = "client_post lib ''/keySent'' key" and ?t = "post_text lib ''/keySent'' key"
  let ?buf = "overlay (lib_write lib ?rq) (si_memory w stream)"
  let ?m = "Message_strings cmd_addKey key [] 0 0 0"
  have len: "length ?t < buffer_size" using key by (intro post_text_length [OF lib]) (simp_all add: plain_key_def)
  then obtain stale where stale: "drop (length ?t) (si_memory w stream) = [] @ NUL # stale"
    using mem by (cases "buffer_size - length ?t") (auto simp: clean_after_def)
  have body: "retrieveBody (received ?rq) ?buf = Inr (Some key)"
    unfolding client_post_eq [OF lib] using key len plain_key_no_field [OF key]
    by (intro post_body_found [OF lib rd _ _ _ _ _ stale])
      (auto simp: plain_key_def CRLF_def NUL_def buffer_size_def dest: hd_in_set)
  have target: "rq_method (received ?rq) = Post" "rq_target (received ?rq) = ''/keySent''"
    unfolding client_post_eq [OF lib] by (rule post_message_read [OF rd], simp)+
  have split: "split_payload key = Inr (key, [], 0)"
    using key by (intro split_payload_plain) (auto simp: plain_key_def)
  let ?sv = "(si_server w)\<lparr>m_pMessageQueue := queue_send lf ?m (m_pMessageQueue (si_server w))\<rparr>"
  have req: "\<exists>rs. tracker_request lf now index (received ?rq) ?buf (si_server w) = (Returns rs, ?sv) \<and> rs_result rs = 200"
    using key by (simp add: tracker_request_eq processRequest_def createPostResponse_def target body drop_slash_def
        onMessage_defs split CMD_SUCCEEDED_def status_ok_def plain_key_def Let_def)
  have sent: "serving contents n (m_pMessageQueue ?sv)"
    "eventual_consumer contents (m_pMessageQueue ?sv)
      = addOrUpdateKey key [] 0 (eventual_consumer contents (m_pMessageQueue (si_server w)))"
    using serving_send [OF lf s, of "[?m]" ?m]
    by (simp_all add: ordinary_message_def apply_message_def Message_strings_def)
  let ?k = "if si_pace w = [] then 0 else hd (si_pace w)"
  obtain st1 where st1: "run_queue lf (worker_steps ?k) (m_pMessageQueue ?sv) = Returns st1"
    "serving contents n st1" "eventual_consumer contents st1 = eventual_consumer contents (m_pMessageQueue ?sv)"
    by (rule serving_steps [OF lf sent(1), of ?k]) blast
  let ?w = "w\<lparr>si_server := ?sv\<lparr>m_pMessageQueue := st1\<rparr>, si_memory := (si_memory w)(stream := ?buf), si_pace := tl (si_pace w)\<rparr>"
  have "site_exchange lib lf now index received stream ?rq w = (Returns 200, ?w)"
    using req st1(1) by (auto simp: site_exchange_def worker_pause_def Let_def)
  then show ?thesis
    using st1 sent client_post_eq [OF lib] post_message_text [OF lib] by (intro that [of ?w]) simp_all
qed

subsection \<open>The threads\<close>

definition sent_count :: "client_thread \<Rightarrow> nat" where
  "sent_count th = (case th of Connecting \<Rightarrow> 0 | Sending i \<Rightarrow> i | Ended \<Rightarrow> keys_per_thread)"

definition steps_left :: "client_thread \<Rightarrow> nat" where
  "steps_left th = (case th of Connecting \<Rightarrow> keys_per_thread + 2 | Sending i \<Rightarrow> keys_per_thread + 1 - i | Ended \<Rightarrow> 0)"

text \<open>The length of a \<open>keySent\<close> message of the stress test, the same for all of them.\<close>

definition key_message_length :: "http_library \<Rightarrow> nat" where
  "key_message_length lib = length (post_text lib ''/keySent'' (replicate 24 CHR ''k''))"

lemma key_message_length:
  "length key = 24 \<Longrightarrow> length (post_text lib ''/keySent'' key) = key_message_length lib"
  by (simp add: key_message_length_def message_text_def)

definition keys_of :: "client_thread list \<Rightarrow> string set" where
  "keys_of ths = {sprintf_key (t + 1) (i + 1) | t i. t < length ths \<and> i < sent_count (ths ! t)}"

text \<open>
  The state of the test: \<open>ks\<close> are the keys ks so far, in order; what the worker will have made of them
  is what the manager makes of them directly.
\<close>

definition stress_inv ::
  "http_library \<Rightarrow> ('q \<Rightarrow> pointer list) \<Rightarrow> map_manager \<Rightarrow> nat \<Rightarrow> string list \<Rightarrow> client_thread list \<Rightarrow> 'q site client \<Rightarrow> bool" where
  "stress_inv lib contents mm n ks ths s \<longleftrightarrow>
     length ths = thread_count \<and> cl_errors s = []
   \<and> serving contents n (m_pMessageQueue (si_server (cl_world s)))
   \<and> eventual_consumer contents (m_pMessageQueue (si_server (cl_world s))) = run_keys (map (\<lambda>k. (k, [], 0)) ks) mm
   \<and> distinct ks \<and> set ks = keys_of ths \<and> length ks = sum_list (map sent_count ths)
   \<and> (\<forall>t < length ths. sent_count (ths ! t) \<le> keys_per_thread)
   \<and> (\<forall>t i. t < length ths \<longrightarrow> ths ! t = Sending i \<longrightarrow>
        clean_after (key_message_length lib) (si_memory (cl_world s) (Suc t)))"

lemma keys_of_update:
  assumes "t < length ths" "sent_count th = sent_count (ths ! t)"
  shows "keys_of (ths[t := th]) = keys_of ths"
proof -
  have "sent_count (ths[t := th] ! u) = sent_count (ths ! u)" if "u < length ths" for u
    using assms that by (simp add: nth_list_update)
  then show ?thesis unfolding keys_of_def by (auto 0 3)
qed

lemma keys_of_next:
  assumes "t < length ths" "sent_count th = Suc (sent_count (ths ! t))"
  shows "keys_of (ths[t := th]) = insert (sprintf_key (t + 1) (sent_count (ths ! t) + 1)) (keys_of ths)"
proof (rule set_eqI)
  fix k
  have s: "sent_count (ths[t := th] ! u) = (if u = t then Suc (sent_count (ths ! t)) else sent_count (ths ! u))"
    if "u < length ths" for u using assms that by (simp add: nth_list_update)
  have "k \<in> keys_of (ths[t := th]) \<longleftrightarrow> (\<exists>u i. u < length ths
      \<and> i < (if u = t then Suc (sent_count (ths ! t)) else sent_count (ths ! u)) \<and> k = sprintf_key (u + 1) (i + 1))"
    unfolding keys_of_def mem_Collect_eq length_list_update using s assms(2) by (intro ex_cong1) auto
  also have "\<dots> \<longleftrightarrow> k = sprintf_key (t + 1) (sent_count (ths ! t) + 1) \<or> k \<in> keys_of ths"
    unfolding keys_of_def mem_Collect_eq using assms(1)
    by (auto simp: less_Suc_eq split: if_splits)
  finally show "k \<in> keys_of (ths[t := th]) \<longleftrightarrow> k \<in> insert (sprintf_key (t + 1) (sent_count (ths ! t) + 1)) (keys_of ths)"
    by simp
qed

lemma sum_list_sent:
  "t < length ths \<Longrightarrow> sum_list (map sent_count (ths[t := th])) + sent_count (ths ! t)
     = sum_list (map sent_count ths) + sent_count th"
  by (induction ths arbitrary: t) (auto split: nat.splits)

text \<open>A thread sends its next key.\<close>

lemma stress_send:
  assumes lib: "documented_library lib" and rd: "documented_read received" and lf: "fifo_queue lf contents"
    and inv: "stress_inv lib contents mm (Suc n) ks ths s" and t: "t < length ths"
    and Sending: "ths ! t = Sending i" and i: "i < keys_per_thread"
  obtains s' ks' where "client_thread_step lib (tracker_network lib lf now index received) t (ths ! t) s
      = (Returns (Sending (Suc i)), s')"
    and "stress_inv lib contents mm n ks' (ths[t := Sending (Suc i)]) s'"
proof -
  note I = inv [unfolded stress_inv_def]
  let ?net = "tracker_network lib lf now index received"
  let ?key = "sprintf_key (t + 1) (i + 1)"
  have tc: "t < thread_count" using I t by simp
  have len: "length ?key = 24" by (rule sprintf_key_length [OF tc i])
  have mem: "clean_after (length (post_text lib ''/keySent'' ?key)) (si_memory (cl_world s) (Suc t))"
    unfolding key_message_length [OF len] using I t Sending by blast
  have serve: "serving contents (Suc n) (m_pMessageQueue (si_server (cl_world s)))" using I by simp
  obtain w' where w': "site_exchange lib lf now index received (Suc t) (client_post lib ''/keySent'' ?key) (cl_world s)
      = (Returns 200, w')"
    "serving contents n (m_pMessageQueue (si_server w'))"
    "eventual_consumer contents (m_pMessageQueue (si_server w'))
      = addOrUpdateKey ?key [] 0 (eventual_consumer contents (m_pMessageQueue (si_server (cl_world s))))"
    "si_memory w' = (si_memory (cl_world s))(Suc t := overlay (post_text lib ''/keySent'' ?key) (si_memory (cl_world s) (Suc t)))"
    by (rule exchange_key [OF lib rd lf plain_sprintf_key [OF tc i] mem serve])
  let ?s = "s\<lparr>cl_world := w'\<rparr>" and ?ks = "ks @ [?key]"
  have step: "client_thread_step lib ?net t (ths ! t) s = (Returns (Sending (Suc i)), ?s)"
    using w'(1) i len
    by (simp add: Sending client_thread_step_def test_keySent_def send_request_def tracker_network_def
        status_ok_def key_buffer_def Let_def)
  have new: "?key \<notin> set ks"
  proof
    assume "?key \<in> set ks"
    then obtain u j where u: "u < length ths" "j < sent_count (ths ! u)" "?key = sprintf_key (u + 1) (j + 1)"
      using I unfolding keys_of_def by blast
    have "u < thread_count" "j < keys_per_thread" using I u(1,2) by (auto intro: less_le_trans)
    then have "t = u \<and> i = j" using sprintf_key_inj [OF tc i _ _ u(3)] by blast
    then show False using u(2) Sending by (simp add: sent_count_def)
  qed
  have count: "sent_count (Sending (Suc i)) = Suc (sent_count (ths ! t))" by (simp add: Sending sent_count_def)
  have keys: "keys_of (ths[t := Sending (Suc i)]) = insert ?key (keys_of ths)"
    using keys_of_next [OF t count] by (simp add: Sending sent_count_def)
  have clean: "clean_after (key_message_length lib) (si_memory w' (Suc u))"
    if "u < length ths" "ths[t := Sending (Suc i)] ! u = Sending j" for u j
    using that I w'(4) clean_after_overlay [OF mem, unfolded key_message_length [OF len]]
    by (cases "u = t") (auto simp: nth_list_update)
  have "stress_inv lib contents mm n ?ks (ths[t := Sending (Suc i)]) ?s"
    unfolding stress_inv_def
  proof (intro conjI allI impI)
    show "eventual_consumer contents (m_pMessageQueue (si_server (cl_world ?s)))
        = run_keys (map (\<lambda>k. (k, [], 0)) ?ks) mm"
      using I w'(3) by (simp add: run_keys_def)
    show "length ?ks = sum_list (map sent_count (ths[t := Sending (Suc i)]))"
      using I sum_list_sent [OF t, of "Sending (Suc i)"] count by simp
    fix u assume "u < length (ths[t := Sending (Suc i)])"
    then show "sent_count (ths[t := Sending (Suc i)] ! u) \<le> keys_per_thread"
      using I i t by (cases "u = t") (simp_all add: sent_count_def)
  qed (use I w'(2) new keys clean in auto)
  then show ?thesis using that [OF step] by blast
qed

text \<open>One step of a thread.\<close>

lemma stress_step:
  assumes lib: "documented_library lib" and rd: "documented_read received" and lf: "fifo_queue lf contents"
    and inv: "stress_inv lib contents mm (Suc n) ks ths s" and t: "t < length ths"
  obtains th s' ks' where "client_thread_step lib (tracker_network lib lf now index received) t (ths ! t) s = (Returns th, s')"
    and "stress_inv lib contents mm n ks' (ths[t := th]) s'" and "steps_left th = steps_left (ths ! t) - 1"
proof -
  note I = inv [unfolded stress_inv_def]
  let ?net = "tracker_network lib lf now index received"
  have less: "stress_inv lib contents mm n ks ths s" using inv serving_less [of contents "Suc n" _ n] by (auto simp: stress_inv_def)
  show ?thesis
  proof (cases "ths ! t")
    case Connecting
    let ?s = "s\<lparr>cl_world := (cl_world s)\<lparr>si_memory := (si_memory (cl_world s))(Suc t := replicate buffer_size NUL)\<rparr>\<rparr>"
    have "client_thread_step lib ?net t (ths ! t) s = (Returns (Sending 0), ?s)"
      by (simp add: Connecting client_thread_step_def connect_def tracker_network_def)
    moreover have "stress_inv lib contents mm n ks (ths[t := Sending 0]) ?s"
      using less t Connecting sum_list_sent [OF t, of "Sending 0"] keys_of_update [OF t, of "Sending 0"]
      by (auto simp: stress_inv_def sent_count_def nth_list_update clean_after_def)
    ultimately show ?thesis using that [of "Sending 0" ?s ks] by (simp add: Connecting steps_left_def)
  next
    case Ended
    have "client_thread_step lib ?net t (ths ! t) s = (Returns Ended, s)"
      by (simp add: Ended client_thread_step_def)
    moreover have "ths[t := Ended] = ths" using Ended by (metis list_update_id)
    ultimately show ?thesis using that [of Ended s ks] less by (simp add: Ended steps_left_def)
  next
    case (Sending i)
    then have i: "i \<le> keys_per_thread" using I t by (force simp: sent_count_def)
    show ?thesis
    proof (cases "i < keys_per_thread")
      case False
      then have "client_thread_step lib ?net t (ths ! t) s = (Returns Ended, s)"
        by (simp add: Sending client_thread_step_def)
      moreover have "stress_inv lib contents mm n ks (ths[t := Ended]) s"
        using less t Sending False i sum_list_sent [OF t, of Ended] keys_of_update [OF t, of Ended]
        by (auto simp: stress_inv_def sent_count_def nth_list_update)
      ultimately show ?thesis using that [of Ended s ks] False i by (simp add: Sending steps_left_def)
    next
      case True
      obtain s' ks' where "client_thread_step lib ?net t (ths ! t) s = (Returns (Sending (Suc i)), s')"
        "stress_inv lib contents mm n ks' (ths[t := Sending (Suc i)]) s'"
        by (rule stress_send [OF lib rd lf inv t Sending True])
      then show ?thesis using that by (simp add: Sending steps_left_def)
    qed
  qed
qed

lemma stress_run:
  assumes lib: "documented_library lib" and rd: "documented_read received" and lf: "fifo_queue lf contents"
    and inv: "stress_inv lib contents mm (length sched + n) ks ths s"
  shows "\<exists>ths' s' ks'. run_client_threads lib (tracker_network lib lf now index received) sched ths s = (Returns ths', s')
    \<and> stress_inv lib contents mm n ks' ths' s'
    \<and> (\<forall>t < length ths. steps_left (ths' ! t) = steps_left (ths ! t) - count_list sched t)"
  using inv
proof (induction sched arbitrary: ks ths s)
  case (Cons t sched)
  let ?net = "tracker_network lib lf now index received"
  show ?case
  proof (cases "t < length ths")
    case True
    have "stress_inv lib contents mm (Suc (length sched + n)) ks ths s" using Cons.prems by simp
    then obtain th s1 ks1 where step: "client_thread_step lib ?net t (ths ! t) s = (Returns th, s1)"
      "stress_inv lib contents mm (length sched + n) ks1 (ths[t := th]) s1" "steps_left th = steps_left (ths ! t) - 1"
      using True by (rule stress_step [OF lib rd lf])
    from Cons.IH [OF step(2)] obtain ths' s' ks' where
      "run_client_threads lib ?net sched (ths[t := th]) s1 = (Returns ths', s')" "stress_inv lib contents mm n ks' ths' s'"
      "\<forall>u < length ths. steps_left (ths' ! u) = steps_left (ths[t := th] ! u) - count_list sched u" by auto
    then show ?thesis using step(1,3) True by (auto simp: nth_list_update)
  next
    case False
    have "stress_inv lib contents mm (length sched + n) ks ths s"
      using Cons.prems serving_less [of contents "length (t # sched) + n" _ "length sched + n"]
      by (auto simp: stress_inv_def)
    from Cons.IH [OF this] show ?thesis using False by auto
  qed
qed auto

text \<open>The total number of keys of a manager is the number of keys counted at least once.\<close>

lemma total_keys:
  assumes inv: "rank_inv mm" and counts: "\<And>k. frequency_of mm k = count_list ks k"
  shows "length (m_pKeyMap mm) = card (set ks)"
proof -
  have "fst ` set (m_pKeyMap mm) = set ks"
  proof (rule set_eqI)
    fix k
    have "k \<in> fst ` set (m_pKeyMap mm) \<longleftrightarrow> 0 < prev_order k mm"
      using prev_order_known [OF inv, of k] by (simp add: map_of_eq_None_iff)
    also have "\<dots> \<longleftrightarrow> 0 < frequency_of mm k" by (simp add: frequency_of_prev_order word_less_unat)
    also have "\<dots> \<longleftrightarrow> k \<in> set ks" using counts count_list_0_iff [of ks k] by auto
    finally show "k \<in> fst ` set (m_pKeyMap mm) \<longleftrightarrow> k \<in> set ks" .
  qed
  moreover have "distinct (map fst (m_pKeyMap mm))" using rank_invD(1) [OF inv] by (simp add: wf_map_def)
  ultimately show ?thesis by (metis distinct_card length_map set_map)
qed

text \<open>What the tracker has made of the keys once its worker has caught up.\<close>

lemma stress_counts:
  assumes lf: "fifo_queue lf contents" and inv: "stress_inv lib contents (MapManager_new a b l) n ks ths s"
    and few: "length ks < 2 ^ 64 - 1"
    and steps: "3 * length (pending contents (m_pMessageQueue (si_server (cl_world s)))) + 1 \<le> steps"
  shows "\<exists>st. run_queue lf (worker_steps steps) (m_pMessageQueue (si_server (cl_world s))) = Returns st
    \<and> (\<forall>k. frequency_of (consumer st) k = (if k \<in> keys_of ths then 1 else 0))
    \<and> length (m_pKeyMap (consumer st)) = sum_list (map sent_count ths)"
proof -
  note I = inv [unfolded stress_inv_def]
  let ?mm = "run_keys (map (\<lambda>k. (k, [], 0)) ks) (MapManager_new a b l)"
  have w: "working contents (m_pMessageQueue (si_server (cl_world s)))" using I by (simp add: serving_def)
  have keys: "map fst (map (\<lambda>k. (k, [], 0 :: uint)) ks) = ks" by (simp add: comp_def)
  have counts: "rank_inv ?mm" "frequency_of ?mm k = count_list ks k" for k
    using run_keys_counts [of "map (\<lambda>k. (k, [], 0)) ks" a b l] few unfolding keys by simp_all
  have one: "count_list ks k = (if k \<in> keys_of ths then 1 else 0)" for k
    using I count_list_0_iff [of ks k] distinct_count_atmost_1 [of ks] count_mset [of ks k]
    by (auto simp: distinct_count_atmost_1)
  have "length (m_pKeyMap ?mm) = sum_list (map sent_count ths)"
    using total_keys [OF counts] I distinct_card [of ks] by simp
  then show ?thesis using run_queue_drains [OF lf w steps] I counts(2) one by auto
qed

lemma stress_few:
  assumes "stress_inv lib contents mm n ks ths s"
  shows "length ks \<le> 1000000"
proof -
  have "sum_list (map sent_count ths) \<le> sum_list (map (\<lambda>_. keys_per_thread) ths)"
    using assms by (intro sum_list_mono) (auto simp: stress_inv_def in_set_conv_nth)
  then show ?thesis
    using assms by (simp add: stress_inv_def sum_list_triv thread_count_def keys_per_thread_def)
qed

lemma stress_start:
  assumes "m_pMessageQueue (si_server w) = started q (MapManager_new a b l)" "contents q = []" "n < 2 ^ 64"
  shows "stress_inv lib contents (MapManager_new a b l) n [] (replicate thread_count Connecting)
    \<lparr>cl_world = w, cl_errors = [], cprMutex = mx\<rparr>"
  using serving_started [where contents = contents and q = q and n = n, OF assms(2,3), of a b l] eventual_started [of contents q "MapManager_new a b l"] assms(1,2)
  by (simp add: stress_inv_def run_keys_def keys_of_def sent_count_def sum_list_triv)

lemma steps_left_0: "steps_left th = 0 \<Longrightarrow> sent_count th \<le> keys_per_thread \<Longrightarrow> th = Ended"
  by (cases th) (auto simp: steps_left_def sent_count_def)

subsection \<open>Properties\<close>


text \<open>A library and a parser that behave as documented, and a schedule that runs the threads one after another.\<close>

definition plain_library :: http_library where
  "plain_library = \<lparr>lib_set = set_field,
     lib_prepare_payload = (\<lambda>rq. set_field ''Content-Length'' (to_string (length (q_body rq))) rq),
     lib_write = http_text, lib_user_agent = ''Boost.Beast/248''\<rparr>"

definition plain_read :: "client_request \<Rightarrow> http_request" where
  "plain_read rq = \<lparr>rq_method = q_verb rq, rq_method_data = verb_text (q_verb rq), rq_target = q_target rq,
     rq_target_data = q_target rq, rq_version = q_version rq,
     rq_content_length = map_option (\<lambda>v. v @ CRLF) (map_of (q_fields rq) ''Content-Length'')\<rparr>"

definition one_after_another :: "nat list" where
  "one_after_another = concat (map (\<lambda>t. replicate (keys_per_thread + 2) t) [0..<thread_count])"

definition fresh_site :: "pointer list site" where
  "fresh_site = \<lparr>si_server = tracker_server, si_memory = (\<lambda>_. []), si_pace = []\<rparr>"

lemma documented_plain: "documented_library plain_library" "documented_read plain_read"
proof -
  show "documented_library plain_library" by (simp add: documented_library_def plain_library_def NUL_def)
  have "\<exists>w. v @ CRLF = v @ CRLF @ w" for v by (rule exI [of _ "[]"]) simp
  then show "documented_read plain_read" by (simp add: documented_read_def plain_read_def)
qed

lemma one_after_another:
  "t < thread_count \<Longrightarrow> keys_per_thread + 2 \<le> count_list one_after_another t"
  "length one_after_another < 2 ^ 64"
proof -
  have "count_list (concat (map (\<lambda>t. replicate n t) [0..<m])) t = (if t < m then n else 0)" for n m t :: nat
  proof (induction m)
    case (Suc m)
    have "count_list (replicate n x) y = (if x = y then n else 0)" for x y :: nat by (induction n) auto
    with Suc show ?case by auto
  qed simp
  then show "t < thread_count \<Longrightarrow> keys_per_thread + 2 \<le> count_list one_after_another t"
    unfolding one_after_another_def by simp
  show "length one_after_another < 2 ^ 64"
    by (simp add: one_after_another_def length_concat comp_def sum_list_triv thread_count_def keys_per_thread_def)
qed


end
