(* ===== verification/ClientMain.thy ===== *)
theory ClientMain
  imports StressTest
begin

section \<open>The main functions of the clients\<close>

text \<open>
  The request the command line client builds and what the tracker reads of it, and the exit codes of both
  clients on a network that works.
\<close>

lemma command_request_post:
  assumes "documented_library lib" "c_string act = c # msg" "c = CHR ''P'' \<or> c = CHR ''p''" "length opt \<le> 1"
  shows "command_request lib (name # act # host # port # target # opt) =
    Some (post_message lib (if length opt = 1 \<and> c_string (opt ! 0) = ''1.0'' then 10 else 11)
            (c_string host) (c_string target) msg)"
  using assms by (cases opt) (auto simp: command_request_def documented_library_def set_field_def post_message_def)

text \<open>
  The command line client sends what the tracker understands. With an action \<open>P\<close> and a text it builds
  a POST whose body the tracker finds to be exactly the text, in either version of HTTP; with \<open>G\<close> a GET
  of the target; with anything else, or a wrong number of arguments, it sends nothing and returns 1.
\<close>

theorem command_client_requests:
  assumes lib: "documented_library lib" and rd: "documented_read received"
    and texts: "length (c_string host) \<le> 200" "length (c_string target) \<le> 200" "length msg < 1000"
    and msg: "msg \<noteq> []" "hd msg \<notin> set CRLF" "last_suffix (starts_with LENGTH_FIELD) msg = None"
    and opt: "length opt \<le> 1"
  shows "(c_string act = CHR ''P'' # msg \<or> c_string act = CHR ''p'' # msg \<longrightarrow>
      (\<exists>rq. command_request lib (name # act # host # port # target # opt) = Some rq
        \<and> rq_method (received rq) = Post \<and> rq_target (received rq) = c_string target
        \<and> retrieveBody (received rq) (overlay (lib_write lib rq) (replicate buffer_size NUL)) = Inr (Some msg)))
    \<and> (c_string act \<noteq> [] \<and> hd (c_string act) \<in> {CHR ''G'', CHR ''g''} \<longrightarrow>
      (\<exists>rq. command_request lib (name # act # host # port # target # opt) = Some rq
        \<and> rq_method (received rq) = Get \<and> rq_target (received rq) = c_string target))
    \<and> (length argv \<noteq> 5 \<and> length argv \<noteq> 6
        \<or> length argv \<ge> 2 \<and> (c_string (argv ! 1) = [] \<or> hd (c_string (argv ! 1)) \<notin> set ''GgPp'') \<longrightarrow>
      command_main lib net argv w = (Returns 1, w))"
proof (intro conjI impI)
  assume act: "c_string act = CHR ''P'' # msg \<or> c_string act = CHR ''p'' # msg"
  let ?v = "if length opt = 1 \<and> c_string (opt ! 0) = ''1.0'' then 10 else 11 :: nat"
  let ?rq = "post_message lib ?v (c_string host) (c_string target) msg"
  let ?t = "message_text lib ?v (c_string host) (c_string target) msg"
  have cmd: "command_request lib (name # act # host # port # target # opt) = Some ?rq"
    using act by (elim disjE) (rule command_request_post [OF lib _ _ opt], simp, simp)+
  have nul: "NUL \<notin> set (c_string x)" for x by (auto simp: c_string_def dest: set_takeWhileD)
  have "NUL \<notin> set msg" using act nul [of act] by auto
  have "length (to_string (?v div 10)) \<le> 1" "length (to_string (?v mod 10)) \<le> 1" "length (to_string (length msg)) \<le> 3"
    using texts(3) by (intro to_string_length; simp)+
  then have short: "length ?t < 4096"
    using lib texts
    by (auto simp: documented_library_def message_text_def post_head_def LENGTH_FIELD_def CRLF_def)
  then obtain stale where stale: "drop (length ?t) (replicate buffer_size NUL) = [] @ NUL # stale"
    by (cases "buffer_size - length ?t") (auto simp: buffer_size_def)
  have "retrieveBody (received ?rq) (overlay (lib_write lib ?rq) (replicate buffer_size NUL)) = Inr (Some msg)"
    using msg nul \<open>NUL \<notin> set msg\<close> short by (intro post_body_found [OF lib rd _ _ _ _ _ stale]) simp_all
  moreover have "rq_method (received ?rq) = Post" "rq_target (received ?rq) = c_string target"
    by (rule post_message_read [OF rd], simp)+
  ultimately show "\<exists>rq. command_request lib (name # act # host # port # target # opt) = Some rq
        \<and> rq_method (received rq) = Post \<and> rq_target (received rq) = c_string target
        \<and> retrieveBody (received rq) (overlay (lib_write lib rq) (replicate buffer_size NUL)) = Inr (Some msg)"
    using cmd by blast
next
  assume "c_string act \<noteq> [] \<and> hd (c_string act) \<in> {CHR ''G'', CHR ''g''}"
  then obtain c x where "c_string act = c # x" "c = CHR ''G'' \<or> c = CHR ''g''" by (cases "c_string act") auto
  then show "\<exists>rq. command_request lib (name # act # host # port # target # opt) = Some rq
        \<and> rq_method (received rq) = Get \<and> rq_target (received rq) = c_string target"
    using opt lib rd by (cases opt) (auto simp: command_request_def documented_library_def documented_read_def set_field_def)
next
  assume "length argv \<noteq> 5 \<and> length argv \<noteq> 6
        \<or> length argv \<ge> 2 \<and> (c_string (argv ! 1) = [] \<or> hd (c_string (argv ! 1)) \<notin> set ''GgPp'')"
  then have "command_request lib argv = None"
    by (cases "c_string (argv ! 1)") (auto simp: command_request_def NUL_def)
  then show "command_main lib net argv w = (Returns 1, w)" by (simp add: command_main_def)
qed

lemma command_client_requests_witness:
  "\<exists>rq. command_request plain_library [''http-client-command'', ''Ppastoseco'', ''localhost'', ''8080'', ''/isHotKey''] = Some rq
    \<and> retrieveBody (plain_read rq) (overlay (lib_write plain_library rq) (replicate buffer_size NUL)) = Inr (Some ''pastoseco'')"
proof -
  have c: "c_string ''Ppastoseco'' = CHR ''P'' # ''pastoseco''" "length (c_string ''localhost'') \<le> 200"
    "length (c_string ''/isHotKey'') \<le> 200" by code_simp+
  have "last_suffix (starts_with LENGTH_FIELD) ''pastoseco'' = None" by code_simp
  then show ?thesis
    using command_client_requests [OF documented_plain c(2,3), of "''pastoseco''" "[]" "''Ppastoseco''" "''http-client-command''"
        "''8080''" "[]" undefined "()"] c(1) by (auto simp: CRLF_def)
qed

subsection \<open>A network that works\<close>

definition network_up :: "'w network \<Rightarrow> bool" where
  "network_up net \<longleftrightarrow>
     (\<forall>stream host port w. fst (net_connect net stream host port w) = None)
   \<and> (\<forall>stream rq w. \<exists>status. fst (net_exchange net stream rq w) = Returns status)
   \<and> (\<forall>stream w. fst (net_shutdown net stream w) \<noteq> Shutdown_failed)"

lemma up_send:
  assumes "network_up net"
  obtains s' where "send_request net stream rq s = (Returns (), s')"
proof -
  obtain status w where "net_exchange net stream rq (cl_world s) = (Returns status, w)"
    using assms unfolding network_up_def by (metis prod.collapse)
  then show ?thesis using that by (simp add: send_request_def Let_def)
qed

lemma up_connect:
  assumes "network_up net"
  obtains s' where "connect net stream s = (True, s')"
  using assms that unfolding network_up_def connect_def by (auto simp: split_beta)

lemma up_disconnect:
  assumes "network_up net"
  obtains s' where "disconnect net stream s = (Returns (), s')"
  using assms that unfolding network_up_def disconnect_def by (auto simp: split_beta)

lemma up_calls:
  assumes "\<And>f s. f \<in> set fs \<Longrightarrow> \<exists>s'. f s = (Returns (), s')"
  shows "\<exists>s'. run_calls fs s = (Returns (), s')"
  using assms
proof (induction fs arbitrary: s)
  case (Cons f fs)
  obtain s1 where "f s = (Returns (), s1)" using Cons.prems by fastforce
  then show ?case using Cons.IH [of s1] Cons.prems by fastforce
qed simp

lemma up_thread_step:
  assumes up: "network_up net" and t: "t < thread_count" and th: "sent_count th \<le> keys_per_thread"
  obtains th' s' where "client_thread_step lib net t th s = (Returns th', s')"
    and "steps_left th' = steps_left th - 1" and "sent_count th' \<le> keys_per_thread"
proof (cases th)
  case Connecting
  obtain s' where "connect net (Suc t) s = (True, s')" by (rule up_connect [OF up])
  then show ?thesis
    using that [of "Sending 0" s'] Connecting by (simp add: client_thread_step_def steps_left_def sent_count_def)
next
  case (Sending i)
  show ?thesis
  proof (cases "i < keys_per_thread")
    case True
    obtain s' where "test_keySent lib net (Suc t) (sprintf_key (t + 1) (i + 1)) s = (Returns (), s')"
      unfolding test_keySent_def by (rule up_send [OF up])
    then show ?thesis
      using that [of "Sending (Suc i)" s'] Sending True sprintf_key_length [OF t True]
      by (simp add: client_thread_step_def steps_left_def sent_count_def key_buffer_def Let_def)
  qed (use that [of Ended s] Sending th in \<open>simp add: client_thread_step_def steps_left_def sent_count_def\<close>)
qed (use that [of Ended s] in \<open>simp add: client_thread_step_def steps_left_def sent_count_def\<close>)

lemma up_threads:
  assumes up: "network_up net"
  shows "length ths = thread_count \<Longrightarrow> \<forall>t < thread_count. sent_count (ths ! t) \<le> keys_per_thread \<Longrightarrow>
    \<exists>ths' s'. run_client_threads lib net sched ths s = (Returns ths', s') \<and> length ths' = thread_count
      \<and> (\<forall>t < thread_count. sent_count (ths' ! t) \<le> keys_per_thread
           \<and> steps_left (ths' ! t) = steps_left (ths ! t) - count_list sched t)"
proof (induction sched arbitrary: ths s)
  case (Cons t sched)
  show ?case
  proof (cases "t < thread_count")
    case True
    obtain th s1 where th: "client_thread_step lib net t (ths ! t) s = (Returns th, s1)"
      "steps_left th = steps_left (ths ! t) - 1" "sent_count th \<le> keys_per_thread"
      using Cons.prems(2) True by (elim up_thread_step [OF up True, rotated]) blast+
    have bound: "\<forall>u < thread_count. sent_count (ths[t := th] ! u) \<le> keys_per_thread"
    proof (intro allI impI)
      fix u assume "u < thread_count"
      then show "sent_count (ths[t := th] ! u) \<le> keys_per_thread"
        using Cons.prems th(3) by (cases "u = t") simp_all
    qed
    have "\<exists>ths' s'. run_client_threads lib net sched (ths[t := th]) s1 = (Returns ths', s') \<and> length ths' = thread_count
      \<and> (\<forall>u < thread_count. sent_count (ths' ! u) \<le> keys_per_thread
           \<and> steps_left (ths' ! u) = steps_left (ths[t := th] ! u) - count_list sched u)"
      using Cons.prems(1) by (intro Cons.IH bound) simp
    then show ?thesis using th(1,2) True Cons.prems(1) by (auto simp: nth_list_update)
  next
    case False
    then show ?thesis using Cons.IH [OF Cons.prems, of s] Cons.prems(1) by auto
  qed
qed auto

lemma up_command:
  assumes up: "network_up net" and some: "command_request lib argv \<noteq> None"
  shows "fst (command_main lib net argv w) = Returns 0"
proof -
  obtain rq where rq: "command_request lib argv = Some rq" using some by auto
  let ?c = "net_connect net 0 (c_string (argv ! 2)) (c_string (argv ! 3)) w"
  obtain w1 where c: "?c = (None, w1)" using up unfolding network_up_def by (metis prod.collapse)
  obtain status w2 where e: "net_exchange net 0 rq w1 = (Returns status, w2)"
    using up unfolding network_up_def by (metis prod.collapse)
  have "fst (net_shutdown net 0 w2) \<noteq> Shutdown_failed" using up unfolding network_up_def by blast
  then show ?thesis using rq c e by (simp add: command_main_def split_beta)
qed

text \<open>
  Neither client tells its caller that a request failed. On a network on which connections and
  exchanges succeed, whatever statuses the server answers with, the command line client returns 0 for
  every command line that names a request, and the stress test returns 0 once its schedule has given each
  thread 5002 steps; a schedule that starves a thread leaves it in \<open>join\<close>.
\<close>

theorem clients_ignore_the_status:
  assumes up: "network_up net"
  shows "(command_request lib argv \<noteq> None \<longrightarrow> fst (command_main lib net argv w) = Returns 0)
    \<and> ((\<forall>t < thread_count. keys_per_thread + 2 \<le> count_list sched t) \<longrightarrow> fst (stress_main lib net sched s) = Returns 0)
    \<and> (t < thread_count \<longrightarrow> count_list sched t < keys_per_thread + 2 \<longrightarrow> fst (stress_main lib net sched s) = Waits)"
proof -
  obtain s1 where s1: "connect net 0 s = (True, s1)" by (rule up_connect [OF up])
  have call: "\<exists>s'. f s = (Returns (), s')" if "f \<in> set (post_examples lib net) \<union> set (get_examples lib net)" for f s
  proof -
    have "\<exists>s'. send_request net st rq s = (Returns (), s')" for st rq s by (meson up_send [OF up])
    then show ?thesis
      using that by (auto simp: post_examples_def get_examples_def test_keySent_def test_isHotKey_def
          test_setKeyReportBaseSize_def test_totalKeys_def test_getTopHotKeys_def Let_def split_beta)
  qed
  obtain s2 where s2: "run_calls (post_examples lib net) s1 = (Returns (), s2)" using up_calls call by (metis UnI1)
  obtain s3 where s3: "run_calls (get_examples lib net) s2 = (Returns (), s3)" using up_calls call by (metis UnI2)
  obtain s4 where s4: "disconnect net 0 s3 = (Returns (), s4)" by (rule up_disconnect [OF up])
  have "\<exists>ths s5. run_client_threads lib net sched (replicate thread_count Connecting) s4 = (Returns ths, s5)
    \<and> length ths = thread_count \<and> (\<forall>t < thread_count. sent_count (ths ! t) \<le> keys_per_thread
        \<and> steps_left (ths ! t) = steps_left (replicate thread_count Connecting ! t) - count_list sched t)"
    by (rule up_threads [OF up]) (simp_all add: sent_count_def)
  then obtain ths s5 where ths: "run_client_threads lib net sched (replicate thread_count Connecting) s4 = (Returns ths, s5)"
    "length ths = thread_count"
    and left: "\<And>t. t < thread_count \<Longrightarrow> sent_count (ths ! t) \<le> keys_per_thread
        \<and> steps_left (ths ! t) = keys_per_thread + 2 - count_list sched t"
    by (auto simp: steps_left_def)
  obtain s6 where s6: "disconnect net 0 s5 = (Returns (), s6)" by (rule up_disconnect [OF up])
  have main: "fst (stress_main lib net sched s) = (if \<exists>th \<in> set ths. th \<noteq> Ended then Waits else Returns 0)"
    using s1 s2 s3 s4 ths(1) s6 by (simp add: stress_main_def tryConnect_def)
  have "\<forall>th \<in> set ths. th = Ended" if "\<forall>t < thread_count. keys_per_thread + 2 \<le> count_list sched t"
  proof
    fix th assume "th \<in> set ths"
    then obtain t where t: "t < thread_count" "th = ths ! t" by (metis in_set_conv_nth ths(2))
    then show "th = Ended" using left [of t] that by (intro steps_left_0) auto
  qed
  moreover have "\<exists>th \<in> set ths. th \<noteq> Ended" if "t < thread_count" "count_list sched t < keys_per_thread + 2"
  proof (rule bexI [of _ "ths ! t"])
    show "ths ! t \<noteq> Ended" using left [OF that(1)] that(2) by (auto simp: steps_left_def)
  qed (use that(1) ths(2) in simp)
  ultimately show ?thesis using up_command [OF up] main by auto
qed

text \<open>A server that refuses everything.\<close>

lemma clients_ignore_the_status_witness:
  defines "net \<equiv> \<lparr>net_connect = (\<lambda>_ _ _ w. (None, w)), net_exchange = (\<lambda>_ _ w. (Returns 404, w)),
      net_shutdown = (\<lambda>_ w. (Shut_down, w))\<rparr>"
  shows "fst (stress_main plain_library net one_after_another \<lparr>cl_world = (), cl_errors = [], cprMutex = False\<rparr>) = Returns 0"
proof -
  have up: "network_up net" by (simp add: net_def network_up_def)
  show ?thesis
    using clients_ignore_the_status [OF up, where sched = one_after_another and lib = plain_library
        and s = "\<lparr>cl_world = (), cl_errors = [], cprMutex = False\<rparr>"] one_after_another(1) by simp
qed

end
