(* ===== verification/TestMacros.thy ===== *)
theory TestMacros
  imports Prelude
begin

section \<open>The counters of the unit tests (test/src/test-macros.h, test-macros.cpp, test-macros.inl)\<close>

text \<open>
  \<open>TestByMacros\<close>: two counters, one expectation per macro, and the verdict. What an expectation prints when it
  fails is left out.
\<close>

record tests =
  goodCount :: int
  badCount :: int

definition TestByMacros_new :: tests where
  "TestByMacros_new = \<lparr>goodCount = 0, badCount = 0\<rparr>"

definition getCounters :: "tests \<Rightarrow> int \<times> int \<times> int" where
  "getCounters t = (goodCount t + badCount t, goodCount t, badCount t)"

definition sGoodMsg :: string where
  "sGoodMsg = ''ALL TEST PASSED !''"

definition sBadMsg :: string where
  "sBadMsg = ''There are ERRORS in test(s) detailed above by '' @ [CHR 0x22] @ ''TEST FAILED'' @ [CHR 0x22] @ ''.''"

definition verdict :: "tests \<Rightarrow> string" where
  "verdict t = (let total = goodCount t + badCount t
     in if 0 < total then (if 0 < badCount t then sBadMsg else sGoodMsg) else [])"

definition isTrue :: "bool \<Rightarrow> tests \<Rightarrow> bool \<times> tests" where
  "isTrue v t = (if v then (True, t\<lparr>goodCount := goodCount t + 1\<rparr>) else (False, t\<lparr>badCount := badCount t + 1\<rparr>))"

definition isFalse :: "bool \<Rightarrow> tests \<Rightarrow> bool \<times> tests" where
  "isFalse v t = (if \<not> v then (True, t\<lparr>goodCount := goodCount t + 1\<rparr>) else (False, t\<lparr>badCount := badCount t + 1\<rparr>))"

definition isZero :: "'v::zero \<Rightarrow> tests \<Rightarrow> bool \<times> tests" where
  "isZero v t = (if v = 0 then (True, t\<lparr>goodCount := goodCount t + 1\<rparr>) else (False, t\<lparr>badCount := badCount t + 1\<rparr>))"

definition isNotZero :: "'v::zero \<Rightarrow> tests \<Rightarrow> bool \<times> tests" where
  "isNotZero v t = (if v \<noteq> 0 then (True, t\<lparr>goodCount := goodCount t + 1\<rparr>) else (False, t\<lparr>badCount := badCount t + 1\<rparr>))"

definition isNull :: "'v option \<Rightarrow> tests \<Rightarrow> bool \<times> tests" where
  "isNull v t = (if v = None then (True, t\<lparr>goodCount := goodCount t + 1\<rparr>) else (False, t\<lparr>badCount := badCount t + 1\<rparr>))"

definition isNotNull :: "'v option \<Rightarrow> tests \<Rightarrow> bool \<times> tests" where
  "isNotNull v t = (if v \<noteq> None then (True, t\<lparr>goodCount := goodCount t + 1\<rparr>) else (False, t\<lparr>badCount := badCount t + 1\<rparr>))"

definition areEquals :: "'v \<Rightarrow> 'v \<Rightarrow> tests \<Rightarrow> bool \<times> tests" where
  "areEquals a b t = (if a = b then (True, t\<lparr>goodCount := goodCount t + 1\<rparr>) else (False, t\<lparr>badCount := badCount t + 1\<rparr>))"

definition areNotEquals :: "'v \<Rightarrow> 'v \<Rightarrow> tests \<Rightarrow> bool \<times> tests" where
  "areNotEquals a b t = (if a \<noteq> b then (True, t\<lparr>goodCount := goodCount t + 1\<rparr>) else (False, t\<lparr>badCount := badCount t + 1\<rparr>))"

definition isGreaterOrEqual :: "'v::linorder \<Rightarrow> 'v \<Rightarrow> tests \<Rightarrow> bool \<times> tests" where
  "isGreaterOrEqual a b t = (if b \<le> a then (True, t\<lparr>goodCount := goodCount t + 1\<rparr>) else (False, t\<lparr>badCount := badCount t + 1\<rparr>))"

definition isLowerOrEqual :: "'v::linorder \<Rightarrow> 'v \<Rightarrow> tests \<Rightarrow> bool \<times> tests" where
  "isLowerOrEqual a b t = (if a \<le> b then (True, t\<lparr>goodCount := goodCount t + 1\<rparr>) else (False, t\<lparr>badCount := badCount t + 1\<rparr>))"

definition isGreater :: "'v::linorder \<Rightarrow> 'v \<Rightarrow> tests \<Rightarrow> bool \<times> tests" where
  "isGreater a b t = (if b < a then (True, t\<lparr>goodCount := goodCount t + 1\<rparr>) else (False, t\<lparr>badCount := badCount t + 1\<rparr>))"

definition isLower :: "'v::linorder \<Rightarrow> 'v \<Rightarrow> tests \<Rightarrow> bool \<times> tests" where
  "isLower a b t = (if a < b then (True, t\<lparr>goodCount := goodCount t + 1\<rparr>) else (False, t\<lparr>badCount := badCount t + 1\<rparr>))"

text \<open>
  The expectations of a test in order. The value of one may throw, wait or be undefined; then the test does not
  go on.
\<close>

fun run_checks :: "(tests \<Rightarrow> bool \<times> tests) outcome list \<Rightarrow> tests \<Rightarrow> tests outcome" where
  "run_checks [] t = Returns t"
| "run_checks (Returns check # cs) t = run_checks cs (snd (check t))"
| "run_checks (Throws e # cs) t = Throws e"
| "run_checks (Waits # cs) t = Waits"
| "run_checks (Undefined # cs) t = Undefined"
| "run_checks (Terminates # cs) t = Terminates"

text \<open>Every expectation adds one to one of the counters, and to the second exactly if it fails.\<close>

definition counts_check :: "(tests \<Rightarrow> bool \<times> tests) \<Rightarrow> bool \<Rightarrow> bool" where
  "counts_check check ok \<longleftrightarrow> (\<forall>t. check t = (ok, if ok then t\<lparr>goodCount := goodCount t + 1\<rparr> else t\<lparr>badCount := badCount t + 1\<rparr>))"

lemma counts_checks [simp]:
  "counts_check (isTrue v) ok \<longleftrightarrow> ok = v" "counts_check (isFalse v) ok \<longleftrightarrow> ok = (\<not> v)"
  "counts_check (isZero n) ok \<longleftrightarrow> ok = (n = 0)" "counts_check (isNotZero n) ok \<longleftrightarrow> ok = (n \<noteq> 0)"
  "counts_check (isNull p) ok \<longleftrightarrow> ok = (p = None)" "counts_check (isNotNull p) ok \<longleftrightarrow> ok = (p \<noteq> None)"
  "counts_check (areEquals x y) ok \<longleftrightarrow> ok = (x = y)" "counts_check (areNotEquals x y) ok \<longleftrightarrow> ok = (x \<noteq> y)"
  "counts_check (isGreaterOrEqual a b) ok \<longleftrightarrow> ok = (b \<le> a)" "counts_check (isLowerOrEqual a b) ok \<longleftrightarrow> ok = (a \<le> b)"
  "counts_check (isGreater a b) ok \<longleftrightarrow> ok = (b < a)" "counts_check (isLower a b) ok \<longleftrightarrow> ok = (a < b)"
  by (auto simp: counts_check_def isTrue_def isFalse_def isZero_def isNotZero_def isNull_def isNotNull_def areEquals_def
      areNotEquals_def isGreaterOrEqual_def isLowerOrEqual_def isGreater_def isLower_def)

lemma run_checks_counts:
  assumes "list_all2 (\<lambda>c ok. \<exists>check. c = Returns check \<and> counts_check check ok) cs oks"
  shows "run_checks cs t = Returns \<lparr>goodCount = goodCount t + int (length (filter (\<lambda>ok. ok) oks)),
    badCount = badCount t + int (length (filter Not oks))\<rparr>"
  using assms
proof (induction arbitrary: t rule: list_all2_induct)
  case (Cons c cs ok oks)
  then show ?case by (auto simp: counts_check_def)
qed simp

end
