(* ===== verification/TestProgram.thy ===== *)
theory TestProgram
  imports TestMacros MapManagerMonitor MapManagerReference MessageQueueProps
begin

section \<open>The unit tests (test/src)\<close>

text \<open>
  The test program of the repository as definitions over the model: the keys it inserts, the functional and
  the sequential test of the manager, the threads of the concurrency test, and the tests of the queue. The
  random numbers are an argument. The properties say what the tests find, for every sequence of random
  numbers and every schedule of the threads.
\<close>

subsection \<open>The data (test.cpp, FirstHundredNumbersArray.h)\<close>

definition maxNumbers :: nat where
  "maxNumbers = 80000000"

definition firstHundred :: "string list" where
  "firstHundred =
    [''one'', ''two'', ''three'', ''four'', ''five'',
     ''six'', ''seven'', ''eight'', ''nine'', ''ten'',
     ''eleven'', ''twelve'', ''thirteen'', ''fourteen'', ''fifteen'',
     ''sixteen'', ''seventeen'', ''eighteen'', ''nineteen'', ''twenty'',
     ''twenty-one'', ''twenty-two'', ''twenty-three'', ''twenty-four'', ''twenty-five'',
     ''twenty-six'', ''twenty-seven'', ''twenty-eight'', ''twenty-nine'', ''thirty'',
     ''thirty-one'', ''thirty-two'', ''thirty-three'', ''thirty-four'', ''thirty-five'',
     ''thirty-six'', ''thirty-seven'', ''thirty-eight'', ''thirty-nine'', ''forty'',
     ''forty-one'', ''forty-two'', ''forty-three'', ''forty-four'', ''forty-five'',
     ''forty-six'', ''forty-seven'', ''forty-eight'', ''forty-nine'', ''fifty'',
     ''fifty-one'', ''fifty-two'', ''fifty-three'', ''fifty-four'', ''fifty-five'',
     ''fifty-six'', ''fifty-seven'', ''fifty-eight'', ''fifty-nine'', ''sixty'',
     ''sixty-one'', ''sixty-two'', ''sixty-three'', ''sixty-four'', ''sixty-five'',
     ''sixty-six'', ''sixty-seven'', ''sixty-eight'', ''sixty-nine'', ''seventy'',
     ''seventy-one'', ''seventy-two'', ''seventy-three'', ''seventy-four'', ''seventy-five'',
     ''seventy-six'', ''seventy-seven'', ''seventy-eight'', ''seventy-nine'', ''eighty'',
     ''eighty-one'', ''eighty-two'', ''eighty-three'', ''eighty-four'', ''eighty-five'',
     ''eighty-six'', ''eighty-seven'', ''eighty-eight'', ''eighty-nine'', ''ninety'',
     ''ninety-one'', ''ninety-two'', ''ninety-three'', ''ninety-four'', ''ninety-five'',
     ''ninety-six'', ''ninety-seven'', ''ninety-eight'', ''ninety-nine'', ''hundred'']"

definition urls :: "string list" where
  "urls =
    [''www.lacapital.com.ar'', ''www.lavoz.com.ar'', ''www.ellitoral.com.ar'', ''www.lanacion.com.ar'',
     ''www.clarin.com'', ''www.ambito.com'', ''www.cronista.com'', ''www.infobae.com'',
     ''https://www.nytimes.com'', ''https://www.spiegel.de'']"

subsection \<open>keyInsertion\<close>

text \<open>One round of the loop: the key and the url from the two next numbers, and the number of the round.\<close>

definition test_entry :: "(nat \<Rightarrow> 8 word) \<Rightarrow> nat \<Rightarrow> nat \<Rightarrow> string \<times> string \<times> uint" where
  "test_entry genRandomNumbers i j =
     (let idx0 = unat (genRandomNumbers j); idx1 = unat (genRandomNumbers (j + 1))
      in (firstHundred ! (idx0 mod 100) @ '' '' @ firstHundred ! (idx1 mod 100), urls ! (idx0 mod 100 div 10),
          word_of_nat (i + 1)))"

text \<open>
  The loop over \<open>n\<close> more rounds. A null pointer is \<open>None\<close>; without a target a round only prints that the
  parameters are bad.
\<close>

fun insertion_loop :: "'q lockfree \<Rightarrow> (nat \<Rightarrow> 8 word) \<Rightarrow> bool \<Rightarrow> nat \<Rightarrow> nat \<Rightarrow> nat
    \<Rightarrow> map_manager option \<times> 'q queue_system option \<Rightarrow> map_manager option \<times> 'q queue_system option" where
  "insertion_loop lf genRandomNumbers direct 0 i j st = st"
| "insertion_loop lf genRandomNumbers direct (Suc n) i j (pMgr, pMtq) =
     (let (sKey, pUrl, nPort) = test_entry genRandomNumbers i j
      in insertion_loop lf genRandomNumbers direct n (i + 1) (j + 2)
        (if direct \<and> pMgr \<noteq> None then (map_option (addOrUpdateKey sKey pUrl nPort) pMgr, pMtq)
         else if \<not> direct \<and> pMtq \<noteq> None
         then (pMgr, map_option (queue_send lf (Message_strings cmd_addKey sKey pUrl 0 0 nPort)) pMtq)
         else (pMgr, pMtq)))"

definition keyInsertion :: "'q lockfree \<Rightarrow> (nat \<Rightarrow> 8 word) \<Rightarrow> map_manager option \<Rightarrow> 'q queue_system option \<Rightarrow> bool \<Rightarrow> nat
    \<Rightarrow> map_manager option \<times> 'q queue_system option" where
  "keyInsertion lf genRandomNumbers pMgr pMtq direct burstSize =
     insertion_loop lf genRandomNumbers direct (burstSize div 2) 0 0 (pMgr, pMtq)"

definition mapmanager_massiveDirectKeyInsertion :: "'q lockfree \<Rightarrow> (nat \<Rightarrow> 8 word) \<Rightarrow> map_manager \<Rightarrow> map_manager" where
  "mapmanager_massiveDirectKeyInsertion lf genRandomNumbers mgr =
     the (fst (keyInsertion lf genRandomNumbers (Some mgr) None True (maxNumbers div 2)))"

definition queue_KeyBurst :: "'q lockfree \<Rightarrow> (nat \<Rightarrow> 8 word) \<Rightarrow> 'q queue_system \<Rightarrow> 'q queue_system" where
  "queue_KeyBurst lf genRandomNumbers q =
     the (snd (keyInsertion lf genRandomNumbers None (Some q) False (maxNumbers div 2)))"

subsection \<open>The functional test of the manager\<close>

definition functional_entries :: "(string \<times> string \<times> uint) list" where
  "functional_entries =
    [(''AAAAAAAAAA'', ''aaa.com'', 1), (''BBBBBBBBBB'', ''bbb.com'', 2), (''AAAAAAAAAA'', ''aaa.com'', 11),
     (''CCCCCCCCCC'', ''ccc.com'', 3), (''AAAAAAAAAA'', ''aaa.com'', 111), (''DDDDDDDDDD'', ''ddd.com'', 4),
     (''AAAAAAAAAA'', ''aaa.com'', 1111), (''EEEEEEEEEE'', ''eee.com'', 5), (''AAAAAAAAAA'', ''aaa.com'', 11111),
     (''FFFFFFFFFF'', ''fff.com'', 6), (''AAAAAAAAAA'', ''aaa.com'', 111111), (''GGGGGGGGGG'', ''ggg.com'', 7),
     (''AAAAAAAAAA'', ''aaa.com'', 1111111), (''HHHHHHHHHH'', ''hhh.com'', 8), (''AAAAAAAAAA'', ''aaa.com'', 11111111),
     (''IIIIIIIIII'', ''iii.com'', 9), (''AAAAAAAAAA'', ''aaa.com'', 111111111), (''JJJJJJJJJJ'', ''jjj.com'', 10),
     (''BBBBBBBBBB'', ''bbb.com'', 22), (''KKKKKKKKKK'', ''kkk.com'', 11), (''BBBBBBBBBB'', ''bbb.com'', 222),
     (''LLLLLLLLLL'', ''lll.com'', 12), (''BBBBBBBBBB'', ''bbb.com'', 2222), (''MMMMMMMMMM'', ''mmm.com'', 13),
     (''BBBBBBBBBB'', ''bbb.com'', 22222), (''NNNNNNNNNN'', ''nnn.com'', 14), (''BBBBBBBBBB'', ''bbb.com'', 222222),
     (''OOOOOOOOOO'', ''ooo.com'', 15), (''BBBBBBBBBB'', ''bbb.com'', 2222222), (''PPPPPPPPPP'', ''ppp.com'', 16),
     (''BBBBBBBBBB'', ''bbb.com'', 22222222), (''QQQQQQQQQQ'', ''qqq.com'', 17), (''CCCCCCCCCC'', ''ccc.com'', 33),
     (''RRRRRRRRRR'', ''rrr.com'', 18), (''CCCCCCCCCC'', ''ccc.com'', 333), (''SSSSSSSSSS'', ''sss.com'', 19),
     (''CCCCCCCCCC'', ''ccc.com'', 3333), (''TTTTTTTTTT'', ''ttt.com'', 20), (''CCCCCCCCCC'', ''ccc.com'', 33333),
     (''UUUUUUUUUU'', ''uuu.com'', 21), (''CCCCCCCCCC'', ''ccc.com'', 333333), (''VVVVVVVVVV'', ''vvv.com'', 22),
     (''DDDDDDDDDD'', ''ddd.com'', 44), (''WWWWWWWWWW'', ''www.com'', 23), (''DDDDDDDDDD'', ''ddd.com'', 444),
     (''XXXXXXXXXX'', ''xxx.com'', 24), (''DDDDDDDDDD'', ''ddd.com'', 4444), (''YYYYYYYYYY'', ''yyy.com'', 25),
     (''ZZZZZZZZZZ'', ''zzz.com'', 26)]"

text \<open>An access to the report behind its end is undefined, and \<open>stoi\<close> may throw.\<close>

definition report_at :: "key_frequency list \<Rightarrow> nat \<Rightarrow> key_frequency outcome" where
  "report_at v i = (if i < length v then Returns (v ! i) else Undefined)"

definition frequency_at :: "key_frequency list \<Rightarrow> nat \<Rightarrow> int outcome" where
  "frequency_at v i =
     (case report_at v i of
        Returns e \<Rightarrow> (case stoi (kf_frequency e) of Inr n \<Rightarrow> Returns n | Inl x \<Rightarrow> Throws x)
      | Throws x \<Rightarrow> Throws x | Waits \<Rightarrow> Waits | Undefined \<Rightarrow> Undefined | Terminates \<Rightarrow> Terminates)"

definition report_checks :: "map_manager \<Rightarrow> key_frequency list \<Rightarrow> (tests \<Rightarrow> bool \<times> tests) outcome list" where
  "report_checks m v =
     [Returns (areEquals (getTopKeyReportActualSize m) 24), Returns (areEquals (length v) 12),
      map_outcome (\<lambda>e. areEquals (kf_key e) ''AAAAAAAAAA'') (report_at v 0),
      map_outcome (\<lambda>e. areEquals (kf_key e) ''BBBBBBBBBB'') (report_at v 1),
      map_outcome (\<lambda>e. areEquals (kf_key e) ''CCCCCCCCCC'') (report_at v 2),
      map_outcome (\<lambda>e. areEquals (kf_key e) ''DDDDDDDDDD'') (report_at v 3),
      map_outcome (\<lambda>n. areEquals n 9) (frequency_at v 0), map_outcome (\<lambda>n. areEquals n 8) (frequency_at v 1),
      map_outcome (\<lambda>n. areEquals n 6) (frequency_at v 2), map_outcome (\<lambda>n. areEquals n 4) (frequency_at v 3)]"

definition functional_checks :: "map_manager \<Rightarrow> map_manager \<Rightarrow> (tests \<Rightarrow> bool \<times> tests) outcome list" where
  "functional_checks m0 m =
     [Returns (isZero (getTopKeyReportActualSize m0)), Returns (areEquals (getTopKeyReportBaseSize m0) 12),
      Returns (areEquals (getTopKeyReportMaxSize m0) 24),
      map_outcome isTrue (isHotKey ''AAAAAAAAAA'' m), map_outcome isTrue (isHotKey ''BBBBBBBBBB'' m),
      map_outcome isTrue (isHotKey ''CCCCCCCCCC'' m), map_outcome isTrue (isHotKey ''DDDDDDDDDD'' m),
      Returns (areEquals (getTotalKeyNumber m) 26)]
     @ (case getTopHotkeys m [] of
          Returns v \<Rightarrow> report_checks m v
        | Throws x \<Rightarrow> [Throws x] | Waits \<Rightarrow> [Waits] | Undefined \<Rightarrow> [Undefined] | Terminates \<Rightarrow> [Terminates])"

definition functional_manager :: map_manager where
  "functional_manager = run_keys functional_entries (MapManager_new 12 24 0)"

definition mapmanager_functionalTest :: "tests \<Rightarrow> tests outcome" where
  "mapmanager_functionalTest t = run_checks (functional_checks (MapManager_new 12 24 0) functional_manager) t"

text \<open>Evaluated by the kernel's simplifier, call by call.\<close>

lemma functional_test_passes:
  "mapmanager_functionalTest TestByMacros_new = Returns \<lparr>goodCount = 18, badCount = 0\<rparr>"
  by code_simp

subsection \<open>The sequential test of the manager\<close>

text \<open>The result of the backup is not used.\<close>

definition mapmanager_backupTest :: "map_manager \<Rightarrow> disk \<Rightarrow> unit outcome \<times> disk" where
  "mapmanager_backupTest mgr dk =
     (let (r, dk1) = backupRequest ''Keys.csv'' ''Frequencies.csv'' dk mgr in (map_outcome (\<lambda>_. ()) r, dk1))"

definition mapmanager_rankingTest :: "map_manager \<Rightarrow> nat outcome" where
  "mapmanager_rankingTest mgr = map_outcome length (getTopHotkeys mgr [])"

definition mapmanager_fullSequentialTest ::
  "'q lockfree \<Rightarrow> (nat \<Rightarrow> 8 word) \<Rightarrow> tests \<Rightarrow> map_manager \<Rightarrow> disk \<Rightarrow> tests outcome \<times> map_manager \<times> disk" where
  "mapmanager_fullSequentialTest lf genRandomNumbers t mgr dk =
     (let mgr1 = mapmanager_massiveDirectKeyInsertion lf genRandomNumbers mgr;
          (r, dk1) = mapmanager_backupTest mgr1 dk
      in (case r of
            Returns _ \<Rightarrow>
              run_checks
                [Returns (isLowerOrEqual (getTotalKeyNumber mgr1) 40000),
                 map_outcome (\<lambda>rankingSize. areEquals rankingSize (unat (getTopKeyReportBaseSize mgr1)))
                   (mapmanager_rankingTest mgr1),
                 Returns (areEquals (getTopKeyReportMaxSize mgr1) 20)] t
          | Throws x \<Rightarrow> Throws x | Waits \<Rightarrow> Waits | Undefined \<Rightarrow> Undefined | Terminates \<Rightarrow> Terminates, mgr1, dk1))"

text \<open>The part of \<open>MapManagerTests\<close> before the threads are started.\<close>

definition sequential_tests ::
  "'q lockfree \<Rightarrow> (nat \<Rightarrow> 8 word) \<Rightarrow> tests \<Rightarrow> map_manager \<Rightarrow> disk \<Rightarrow> tests outcome \<times> map_manager \<times> disk" where
  "sequential_tests lf genRandomNumbers t mm dk =
     (case mapmanager_functionalTest t of
        Returns t1 \<Rightarrow> mapmanager_fullSequentialTest lf genRandomNumbers t1 mm dk
      | r \<Rightarrow> (r, mm, dk))"

text \<open>The entries of a burst, and what the loop does with them.\<close>

definition burst_entries :: "(nat \<Rightarrow> 8 word) \<Rightarrow> nat \<Rightarrow> (string \<times> string \<times> uint) list" where
  "burst_entries genRandomNumbers n = map (\<lambda>i. test_entry genRandomNumbers i (2 * i)) [0..<n]"

lemma insertion_loop_direct:
  "insertion_loop lf g True n i (2 * i) (Some mm, q) =
     (Some (run_keys (map (\<lambda>i. test_entry g i (2 * i)) [i..<i + n]) mm), q)"
proof (induction n arbitrary: i mm)
  case (Suc n)
  have range: "[i..<i + Suc n] = i # [Suc i..<Suc i + n]" by (simp add: upt_rec)
  obtain k u p where e: "test_entry g i (2 * i) = (k, u, p)" by (rule prod_cases3)
  then show ?case
    using Suc.IH [of "Suc i" "addOrUpdateKey k u p mm"] unfolding range by (simp add: run_keys_def)
qed (simp add: run_keys_def)

lemma insertion_loop_queued:
  "insertion_loop lf g False n i (2 * i) (mgr, Some st) =
     (mgr, Some (fold (queue_send lf) (map (\<lambda>i. case test_entry g i (2 * i) of
        (key, url, port) \<Rightarrow> Message_strings cmd_addKey key url 0 0 port) [i..<i + n]) st))"
proof (induction n arbitrary: i st)
  case (Suc n)
  have range: "[i..<i + Suc n] = i # [Suc i..<Suc i + n]" by (simp add: upt_rec)
  obtain k u p where e: "test_entry g i (2 * i) = (k, u, p)" by (rule prod_cases3)
  then show ?case
    using Suc.IH [of "Suc i" "queue_send lf (Message_strings cmd_addKey k u 0 0 p) st"] unfolding range by simp
qed simp

lemma massive_insertion: "mapmanager_massiveDirectKeyInsertion lf g mm = run_keys (burst_entries g 20000000) mm"
  using insertion_loop_direct [of lf g 20000000 0 mm None]
  by (simp add: mapmanager_massiveDirectKeyInsertion_def keyInsertion_def maxNumbers_def burst_entries_def)

text \<open>No key but the pairs of two words occurs.\<close>

definition test_keys :: "string set" where
  "test_keys = (\<lambda>(a, b). a @ '' '' @ b) ` (set firstHundred \<times> set firstHundred)"

lemma length_firstHundred: "length firstHundred = 100"
  by code_simp

lemma burst_keys: "fst ` set (burst_entries g n) \<subseteq> test_keys"
proof -
  have "firstHundred ! (k mod 100) \<in> set firstHundred" for k
    using length_firstHundred by simp
  then show ?thesis
    by (auto simp: burst_entries_def test_entry_def test_keys_def Let_def
        intro!: rev_image_eqI [of "(firstHundred ! k, firstHundred ! l)" for k l])
qed

lemma test_keys_number: "card test_keys \<le> 10000" "finite test_keys"
proof -
  have "card (set firstHundred) \<le> 100" using card_length [of firstHundred] length_firstHundred by simp
  then have "card (set firstHundred \<times> set firstHundred) \<le> 100 * 100"
    using mult_le_mono by (fastforce simp: card_cartesian_product)
  then show "card test_keys \<le> 10000"
    unfolding test_keys_def using card_image_le [of "set firstHundred \<times> set firstHundred" "\<lambda>(a, b). a @ '' '' @ b"] by simp
  show "finite test_keys" by (simp add: test_keys_def)
qed

text \<open>Inserting keys into any manager, with room in every count.\<close>

lemma run_keys_from:
  assumes inv: "rank_inv mm" and room: "\<And>k. frequency_of mm k + length evs < 2 ^ 64 - 1"
  shows "rank_inv (run_keys evs mm)" "frequency_of (run_keys evs mm) k = frequency_of mm k + count_list (map fst evs) k"
proof -
  have fold: "run_keys evs mm = fold (\<lambda>(k, i). (\<lambda>k (url, port). addOrUpdateKey k url port) k i) evs mm"
    by (auto simp: run_keys_def intro: arg_cong [where f = "\<lambda>f. fold f evs _"])
  have "frequency_of mm k + count_list (map fst evs) k \<le> 2 ^ 64 - 1" for k
    using count_list_le_length [of "map fst evs" k] room [of k] by simp
  then show "rank_inv (run_keys evs mm)" "frequency_of (run_keys evs mm) k = frequency_of mm k + count_list (map fst evs) k"
    unfolding fold using manager.run_counts [OF inv, where evs = evs and k = k] by simp_all
qed

lemma backup_returns:
  assumes "m_writingData mm = 0"
  obtains ok where "fst (backupRequest kf ff dk mm) = Returns ok"
  using assms that by (cases "fst (backupRequest kf ff dk mm)") (auto simp: backupRequest_def Let_def split: if_splits prod.splits)

lemma sequential_tests_result:
  fixes genRandomNumbers :: "nat \<Rightarrow> 8 word"
  defines "es \<equiv> burst_entries genRandomNumbers 20000000"
  defines "keys \<equiv> card (fst ` set es)"
  shows "\<exists>dk1. sequential_tests lf genRandomNumbers TestByMacros_new MapManager_default dk
    = (Returns (if 10 \<le> keys then \<lparr>goodCount = 21, badCount = 0\<rparr> else \<lparr>goodCount = 20, badCount = 1\<rparr>),
       run_keys es MapManager_default, dk1)"
proof -
  let ?mm = "run_keys es MapManager_default"
  have len: "length es = 20000000" by (simp add: es_def burst_entries_def)
  have inv: "rank_inv ?mm" and freq: "frequency_of ?mm k = count_list (map fst es) k" for k
    using run_keys_from [OF rank_inv_default, where evs = es] len by (simp_all add: MapManager_default_def frequency_of_def)
  have "{k. 0 < frequency_of ?mm k} = fst ` set es"
    by (simp add: freq zero_less_iff_neq_zero count_list_0_iff)
  then have counted: "length (m_pKeyMap ?mm) = keys" "length (m_pFrequencyMap ?mm) = min (unat (m_maxReportElementNumber ?mm)) keys"
    using counted_keys(2) [OF inv] ranking_size [OF inv, of "fst ` set es"] by (simp_all add: keys_def)
  have few: "keys \<le> 10000"
    using card_mono [OF test_keys_number(2) burst_keys] test_keys_number(1) unfolding keys_def es_def by (rule order_trans)
  have sizes: "m_baseReportElementNumber ?mm = 10" "m_maxReportElementNumber ?mm = 20"
    using run_keys_sizes [of es MapManager_default] by (simp_all add: MapManager_default_def)
  obtain vec where vec: "getTopHotkeys ?mm [] = Returns vec" "length vec = min 10 keys"
    by (rule report_properties [OF inv]) (simp add: counted sizes)
  obtain ok where ok: "fst (backupRequest ''Keys.csv'' ''Frequencies.csv'' dk ?mm) = Returns ok"
    by (rule backup_returns) (rule rank_invD(3) [OF inv])
  have total: "getTotalKeyNumber ?mm \<le> 40000"
    using few by (simp add: getTotalKeyNumber_def counted word_le_unat unat_of_nat_small)
  show ?thesis
    using total vec ok
    by (simp add: sequential_tests_def functional_test_passes mapmanager_fullSequentialTest_def massive_insertion es_def [symmetric]
        mapmanager_backupTest_def mapmanager_rankingTest_def getTopKeyReportBaseSize_def getTopKeyReportMaxSize_def
        sizes split_beta Let_def isLowerOrEqual_def areEquals_def)
qed

subsection \<open>Properties\<close>

text \<open>
  C23. What the tests of the manager find. For every sequence of random numbers, every disk and a manager as
  \<open>main\<close> creates it, the functional test and the sequential test come to their end, and all 21 expectations
  hold, unless the twenty million keys are fewer than ten different ones; then the expectation on the size of
  the ranking, and no other, fails.
\<close>

theorem sequential_tests_find:
  fixes genRandomNumbers :: "nat \<Rightarrow> 8 word"
  defines "keys \<equiv> card (fst ` set (burst_entries genRandomNumbers 20000000))"
  shows "\<exists>mm dk1. sequential_tests lf genRandomNumbers TestByMacros_new MapManager_default dk
    = (Returns (if 10 \<le> keys then \<lparr>goodCount = 21, badCount = 0\<rparr> else \<lparr>goodCount = 20, badCount = 1\<rparr>), mm, dk1)"
  using sequential_tests_result [of lf genRandomNumbers dk] unfolding keys_def by blast

end
