(* ===== verification/TestThreads.thy ===== *)
theory TestThreads
  imports TestProgram
begin

section \<open>The unit tests that start threads (test/src)\<close>

text \<open>
  The concurrency test of the manager as threads whose calls interleave on the monitor of MapManagerMonitor,
  and the test of the queue with its worker and the loop that waits until the queue is empty.
\<close>

subsection \<open>Interleavings\<close>

text \<open>The steps of several threads, each with a script of its own, in any order.\<close>

inductive interleaved :: "'e list list \<Rightarrow> 'e list \<Rightarrow> bool" where
  all_done: "\<forall>xs \<in> set xss. xs = [] \<Longrightarrow> interleaved xss []"
| one_moves: "i < length xss \<Longrightarrow> xss ! i = e # xs \<Longrightarrow> interleaved (xss[i := xs]) es \<Longrightarrow> interleaved xss (e # es)"

lemma interleaved_mset: "interleaved xss es \<Longrightarrow> mset es = mset (concat xss)"
proof (induction rule: interleaved.induct)
  case (one_moves i xss e xs es)
  have "xss = take i xss @ (e # xs) # drop (Suc i) xss" using one_moves.hyps(1,2) by (metis id_take_nth_drop)
  moreover have "xss[i := xs] = take i xss @ xs # drop (Suc i) xss"
    using one_moves.hyps(1) by (simp add: upd_conv_take_nth_drop)
  ultimately have "mset (concat xss) = add_mset e (mset (concat (xss[i := xs])))"
    by (metis (no_types, lifting) append_Cons concat.simps(2) concat_append mset.simps(2) mset_append union_mset_add_mset_right)
  then show ?case using one_moves.IH by simp
qed simp

lemma interleaved_skip: "interleaved xss es \<Longrightarrow> interleaved ([] # xss) es"
proof (induction rule: interleaved.induct)
  case (one_moves i xss e xs es)
  then show ?case by (intro interleaved.one_moves [of "Suc i" "[] # xss" e xs es]) simp_all
qed (simp add: all_done)

text \<open>One thread after the other is one of the orders.\<close>

lemma interleaved_concat: "interleaved xss (concat xss)"
proof (induction xss)
  case (Cons xs xss)
  have "interleaved (xs # xss) (xs @ concat xss)" for xs
    by (induction xs) (use interleaved_skip [OF Cons] in \<open>auto intro: one_moves [of 0]\<close>)
  then show ?case by simp
qed (simp add: all_done)

subsection \<open>The concurrency test of the manager\<close>

text \<open>
  The calls of the reading threads \<open>rt1\<close> to \<open>rt5\<close>. Thread \<open>rt6\<close> makes a backup, which reads the manager
  under its mutex and changes nothing in it.
\<close>

definition test_readers :: "(nat \<times> reader_call) list" where
  "test_readers =
     [(1, Get_top_hotkeys), (2, Is_hot_key ''letter in the middle''), (3, Is_hot_key ''impossible to be found''),
      (4, Get_top_hotkeys), (5, Is_hot_key ''any key you can put here'')]"

definition insertion_script :: "(string \<times> string \<times> uint) list \<Rightarrow> monitor_event list" where
  "insertion_script es = map (\<lambda>(key, url, port). Write (Call (AddOrUpdateKey key url port))) es"

text \<open>
  The scripts: the thread \<open>wt1\<close> inserts the burst; without it the writer is the worker of the queue, which
  handles the entries \<open>queued\<close>. The sleeps do not order the threads.
\<close>

definition mapmanager_concurrencyTest ::
  "(nat \<Rightarrow> 8 word) \<Rightarrow> bool \<Rightarrow> (string \<times> string \<times> uint) list \<Rightarrow> monitor_event list list" where
  "mapmanager_concurrencyTest genRandomNumbers directWriteTest queued =
     insertion_script (if directWriteTest then burst_entries genRandomNumbers 20000000 else queued)
     # map (\<lambda>(t, r). [Read t r]) test_readers"

definition entries_of :: "monitor_event list \<Rightarrow> (string \<times> string \<times> uint) list" where
  "entries_of evs = List.map_filter
     (\<lambda>e. case e of Write (Call (AddOrUpdateKey k u p)) \<Rightarrow> Some (k, u, p) | _ \<Rightarrow> None) evs"

definition reads_of :: "monitor_event list \<Rightarrow> (nat \<times> reader_call) list" where
  "reads_of evs = List.map_filter (\<lambda>e. case e of Read t r \<Rightarrow> Some (t, r) | _ \<Rightarrow> None) evs"

lemma script_parts_simps [simp]:
  "entries_of [] = []" "entries_of (xs @ ys) = entries_of xs @ entries_of ys"
  "entries_of [Read t r] = []" "entries_of [Write (Call (AddOrUpdateKey k u p))] = [(k, u, p)]"
  "reads_of [] = []" "reads_of (xs @ ys) = reads_of xs @ reads_of ys"
  "reads_of [Read t r] = [(t, r)]" "reads_of [Write w] = []"
  by (simp_all add: entries_of_def reads_of_def List.map_filter_def)

text \<open>The events of the test, and what they lead to in any order.\<close>

definition test_event :: "string set \<Rightarrow> monitor_event \<Rightarrow> bool" where
  "test_event ks e \<longleftrightarrow> (\<exists>t r. e = Read t r) \<or> (\<exists>k u p. e = Write (Call (AddOrUpdateKey k u p)) \<and> k \<in> ks)"

definition fitting_answer :: "string set \<Rightarrow> nat \<times> reader_call \<Rightarrow> nat \<times> answer \<Rightarrow> bool" where
  "fitting_answer ks r a \<longleftrightarrow> fst a = fst r \<and> (\<forall>key. snd r = Is_hot_key key \<longrightarrow> key \<notin> ks \<longrightarrow> snd a = Hot False)"

lemma reader_fits:
  assumes inv: "rank_inv mm" and keys: "\<And>k. 0 < frequency_of mm k \<Longrightarrow> k \<in> ks"
  obtains a where "reader_answer r mm = Returns a" "fitting_answer ks (t, r) (t, a)"
proof (cases r)
  case (Is_hot_key key)
  have "key \<in> snd ` set (m_pFrequencyMap mm) \<Longrightarrow> key \<in> ks"
    using hot_properties(1) [OF inv, of key] keys by blast
  then show ?thesis
    using that Is_hot_key isHotKey_iff [OF inv, of key] by (auto simp: reader_answer_def fitting_answer_def)
next
  case Get_top_hotkeys
  then show ?thesis
    using that getTopHotkeys_eq [OF inv, of "[]"] by (auto simp: reader_answer_def fitting_answer_def)
next
  case (Backup_request kf ff dk)
  obtain ok where "fst (backupRequest kf ff dk mm) = Returns ok" by (rule backup_returns [OF rank_invD(3) [OF inv]])
  then show ?thesis using that Backup_request by (simp add: reader_answer_def fitting_answer_def split_beta)
qed

text \<open>What holds after the events so far, one event more, and all events: a run exists and every run has it.\<close>

definition test_inv :: "string set \<Rightarrow> map_manager \<Rightarrow> monitor_event list \<Rightarrow> monitor \<Rightarrow> bool" where
  "test_inv ks mm evs s \<longleftrightarrow> mo_waiting s = [] \<and> mo_woken s = [] \<and> mo_manager s = run_keys (entries_of evs) mm
     \<and> fst ` set (entries_of evs) \<subseteq> ks \<and> list_all2 (fitting_answer ks) (reads_of evs) (mo_answers s)"

lemma test_event_step:
  assumes inv: "rank_inv mm" and keys: "\<And>k. 0 < frequency_of mm k \<Longrightarrow> k \<in> ks"
    and room: "\<And>k. frequency_of mm k + length (entries_of evs) < 2 ^ 64 - 1"
    and s: "test_inv ks mm evs s" and e: "test_event ks e"
  shows "(\<exists>s1. monitor_step s e s1) \<and> (\<forall>s1. monitor_step s e s1 \<longrightarrow> test_inv ks mm (evs @ [e]) s1)"
proof -
  have inv1: "rank_inv (mo_manager s)"
    and freq: "frequency_of (mo_manager s) k = frequency_of mm k + count_list (map fst (entries_of evs)) k" for k
    using s run_keys_from [OF inv, of "entries_of evs"] room by (simp_all add: test_inv_def)
  show ?thesis
    using e unfolding test_event_def
  proof (elim disjE exE conjE)
    fix t r assume e: "e = Read t r"
    have pos: "k \<in> ks" if "0 < frequency_of (mo_manager s) k" for k
      using that keys [of k] s count_list_0_iff [of "map fst (entries_of evs)" k] by (fastforce simp: freq test_inv_def)
    obtain a where a: "reader_answer r (mo_manager s) = Returns a" "fitting_answer ks (t, r) (t, a)"
      by (rule reader_fits [OF inv1 pos])
    then have "reader_turn (t, r) s = s\<lparr>mo_answers := mo_answers s @ [(t, a)]\<rparr>" by (simp add: reader_turn_def)
    then show ?thesis using s a(2) by (simp add: e monitor_step_simps test_inv_def list_all2_appendI)
  next
    fix k u p assume e: "e = Write (Call (AddOrUpdateKey k u p))" and k: "k \<in> ks"
    have "s1 = s\<lparr>mo_manager := addOrUpdateKey k u p (mo_manager s)\<rparr>" if "monitor_step s e s1" for s1
      using that s by (auto simp: e monitor_step_simps writer_effect_def test_inv_def)
    moreover have "monitor_step s e (s\<lparr>mo_manager := addOrUpdateKey k u p (mo_manager s)\<rparr>)"
      unfolding e by (rule step_write_alone) (use s in \<open>simp_all add: writer_effect_def test_inv_def\<close>)
    moreover have "test_inv ks mm (evs @ [e]) (s\<lparr>mo_manager := addOrUpdateKey k u p (mo_manager s)\<rparr>)"
      using s k by (simp add: e test_inv_def run_keys_def)
    ultimately show ?thesis unfolding e by blast
  qed
qed

lemma test_runs:
  assumes inv: "rank_inv mm" and keys: "\<And>k. 0 < frequency_of mm k \<Longrightarrow> k \<in> ks"
  shows "\<forall>e \<in> set evs. test_event ks e \<Longrightarrow> \<forall>k. frequency_of mm k + length (entries_of evs) < 2 ^ 64 - 1 \<Longrightarrow>
    (\<exists>s. monitor_run (monitor_new mm) evs s) \<and> (\<forall>s. monitor_run (monitor_new mm) evs s \<longrightarrow> test_inv ks mm evs s)"
proof (induction evs rule: rev_induct)
  case Nil
  have "s = monitor_new mm" if "monitor_run (monitor_new mm) [] s" for s using that by cases auto
  moreover have "test_inv ks mm [] (monitor_new mm)" by (simp add: test_inv_def monitor_new_def run_keys_def)
  ultimately show ?case using run_none by blast
next
  case (snoc e evs)
  have room: "frequency_of mm k + length (entries_of evs) < 2 ^ 64 - 1" for k
    using snoc.prems(2) [rule_format, of k] by simp
  note IH = snoc.IH [OF _ allI [OF room]]
  have step: "(\<exists>s1. monitor_step s e s1) \<and> (\<forall>s1. monitor_step s e s1 \<longrightarrow> test_inv ks mm (evs @ [e]) s1)"
    if "monitor_run (monitor_new mm) evs s" for s
  proof (rule test_event_step [OF inv keys room])
    show "test_inv ks mm evs s" "test_event ks e" using IH that snoc.prems(1) by simp_all
  qed
  have "\<exists>s. monitor_run (monitor_new mm) (evs @ [e]) s" using IH step snoc.prems(1) run_next by fastforce
  moreover have "test_inv ks mm (evs @ [e]) s" if "monitor_run (monitor_new mm) (evs @ [e]) s" for s
    using that step by cases auto
  ultimately show ?case by blast
qed

text \<open>The scripts as events; the sentences searched for are no keys.\<close>

lemma words_without_space: "\<forall>w \<in> set firstHundred. CHR '' '' \<notin> set w"
proof -
  have "list_all (list_all (\<lambda>c. c \<noteq> CHR '' '')) firstHundred" by code_simp
  then show ?thesis by (auto simp: list_all_iff)
qed

lemma test_key_word: "k \<in> test_keys \<Longrightarrow> takeWhile (\<lambda>c. c \<noteq> CHR '' '') k \<in> set firstHundred"
proof -
  assume "k \<in> test_keys"
  then obtain v w where vw: "k = v @ '' '' @ w" "v \<in> set firstHundred" by (auto simp: test_keys_def)
  then have "takeWhile (\<lambda>c. c \<noteq> CHR '' '') k = v"
    using words_without_space by (subst vw(1), subst takeWhile_append2) auto
  then show ?thesis using vw(2) by simp
qed

lemma no_test_key:
  "''letter in the middle'' \<notin> test_keys" "''impossible to be found'' \<notin> test_keys" "''any key you can put here'' \<notin> test_keys"
proof -
  have "list_all (\<lambda>w. w \<noteq> ''letter'' \<and> w \<noteq> ''impossible'' \<and> w \<noteq> ''any'') firstHundred" by code_simp
  then have words: "''letter'' \<notin> set firstHundred" "''impossible'' \<notin> set firstHundred" "''any'' \<notin> set firstHundred"
    unfolding list_all_iff by blast+
  show "''letter in the middle'' \<notin> test_keys" "''impossible to be found'' \<notin> test_keys" "''any key you can put here'' \<notin> test_keys"
    by (rule notI, drule test_key_word, simp add: words)+
qed

lemma concurrency_events:
  assumes inter: "interleaved (mapmanager_concurrencyTest g direct queued) evs"
    and queued: "fst ` set queued \<subseteq> test_keys"
  defines "es \<equiv> if direct then burst_entries g 20000000 else queued"
  shows "\<forall>e \<in> set evs. test_event test_keys e" "mset (entries_of evs) = mset es" "mset (reads_of evs) = mset test_readers"
proof -
  let ?all = "insertion_script es @ map (\<lambda>(t, r). Read t r) test_readers"
  have single: "concat (map (\<lambda>(t, r). [Read t r]) rs) = map (\<lambda>(t, r). Read t r) rs" for rs
    by (induction rs) auto
  have evs: "mset evs = mset ?all"
    using interleaved_mset [OF inter] by (simp add: mapmanager_concurrencyTest_def es_def single)
  have keys: "fst ` set es \<subseteq> test_keys" using queued burst_keys by (auto simp: es_def)
  have "set evs = set ?all" using evs by (metis set_mset_mset)
  then show "\<forall>e \<in> set evs. test_event test_keys e"
    using keys by (auto simp: test_event_def insertion_script_def)
  have parts: "mset (List.map_filter f xs) = mset (List.map_filter f ys)"
    if "mset xs = mset ys" for f :: "monitor_event \<Rightarrow> 'b option" and xs ys
    using that unfolding List.map_filter_def by (metis mset_filter mset_map)
  have "entries_of (insertion_script zs) = zs" "reads_of (insertion_script zs) = []" for zs
    by (induction zs) (auto simp: insertion_script_def entries_of_def reads_of_def List.map_filter_def)
  moreover have "entries_of (map (\<lambda>(t, r). Read t r) rs) = []" "reads_of (map (\<lambda>(t, r). Read t r) rs) = rs" for rs
    by (induction rs) (auto simp: entries_of_def reads_of_def List.map_filter_def)
  ultimately have "entries_of ?all = es" "reads_of ?all = test_readers" by simp_all
  then show "mset (entries_of evs) = mset es" "mset (reads_of evs) = mset test_readers"
    using parts [OF evs] unfolding entries_of_def reads_of_def by metis+
qed

text \<open>What this says of the answers and the counts.\<close>

lemma fitting_found:
  assumes answers: "list_all2 (fitting_answer test_keys) rs as" and rs: "mset rs = mset test_readers"
  shows "mset (map fst as) = {#1, 2, 3, 4, 5#}"
    and "\<forall>a. (2, a) \<in> set as \<or> (3, a) \<in> set as \<or> (5, a) \<in> set as \<longrightarrow> a = Hot False"
proof -
  have "map fst as = map fst rs"
    using answers by (induction rule: list_all2_induct) (auto simp: fitting_answer_def)
  then have "mset (map fst as) = image_mset fst (mset test_readers)" using rs by (metis mset_map)
  then show "mset (map fst as) = {#1, 2, 3, 4, 5#}" by (simp add: test_readers_def)
  have "a = Hot False" if answer: "(t, a) \<in> set as" and t: "t = 2 \<or> t = 3 \<or> t = 5" for t a
  proof -
    obtain i where i: "i < length as" "as ! i = (t, a)" using answer by (metis in_set_conv_nth)
    then have fit: "fitting_answer test_keys (rs ! i) (t, a)" and "rs ! i \<in> set rs"
      using answers by (auto simp: list_all2_conv_all_nth)
    then have "rs ! i \<in> set test_readers" using rs by (metis set_mset_mset)
    then show ?thesis using fit t no_test_key by (auto simp: test_readers_def fitting_answer_def)
  qed
  then show "\<forall>a. (2, a) \<in> set as \<or> (3, a) \<in> set as \<or> (5, a) \<in> set as \<longrightarrow> a = Hot False" by blast
qed

lemma test_inv_found:
  assumes inv: "rank_inv mm" and "\<forall>e \<in> set evs. test_event test_keys e"
    and entries: "mset (entries_of evs) = mset es" and reads: "mset (reads_of evs) = mset test_readers"
    and room: "\<forall>k. frequency_of mm k + length (entries_of evs) < 2 ^ 64 - 1" and s: "test_inv test_keys mm evs s"
  shows "mset (map fst (mo_answers s)) = {#1, 2, 3, 4, 5#}
    \<and> (\<forall>a. (2, a) \<in> set (mo_answers s) \<or> (3, a) \<in> set (mo_answers s) \<or> (5, a) \<in> set (mo_answers s) \<longrightarrow> a = Hot False)
    \<and> (\<forall>k. frequency_of (mo_manager s) k = frequency_of mm k + count_list (map fst es) k)"
proof -
  have answers: "list_all2 (fitting_answer test_keys) (reads_of evs) (mo_answers s)" and mgr: "mo_manager s = run_keys (entries_of evs) mm"
    using s by (simp_all add: test_inv_def)
  have "frequency_of (mo_manager s) k = frequency_of mm k + count_list (map fst es) k" for k
  proof -
    have "count_list (map fst (entries_of evs)) k = count_list (map fst es) k"
      using entries by (metis count_mset mset_map)
    then show ?thesis unfolding mgr using run_keys_from(2) [OF inv, of "entries_of evs" k] room by simp
  qed
  then show ?thesis using fitting_found [OF answers reads] by blast
qed

subsection \<open>The test of the queue\<close>

text \<open>
  The loop that waits until the queue is empty; \<open>ns\<close> says how many steps the worker takes during each sleep.
  \<open>None\<close> is a loop that has not ended yet.
\<close>

fun waitForQueueEmpty :: "'q lockfree \<Rightarrow> nat list \<Rightarrow> 'q queue_system \<Rightarrow> 'q queue_system outcome option" where
  "waitForQueueEmpty lf [] q = (if queue_isEmpty lf q then Some (Returns q) else None)"
| "waitForQueueEmpty lf (n # ns) q =
     (if queue_isEmpty lf q then Some (Returns q)
      else case run_queue lf (worker_steps n) q of
             Returns q1 \<Rightarrow> waitForQueueEmpty lf ns q1 | r \<Rightarrow> Some r)"

definition burst_messages :: "(nat \<Rightarrow> 8 word) \<Rightarrow> message list" where
  "burst_messages g = map (\<lambda>(key, url, port). Message_strings cmd_addKey key url 0 0 port) (burst_entries g 20000000)"

text \<open>The burst of the tests is the sending of these messages.\<close>

lemma queue_KeyBurst_sends: "queue_KeyBurst lf g q = fold (queue_send lf) (burst_messages g) q"
  using insertion_loop_queued [of lf g 20000000 0 None q]
  by (simp add: queue_KeyBurst_def keyInsertion_def maxNumbers_def burst_messages_def burst_entries_def comp_def)

lemma waits_until_empty:
  assumes lf: "fifo_queue lf contents" and w: "working contents st0"
  shows "st = (work lf ^^ m) st0 \<Longrightarrow> 3 * length (pending contents st0) + 1 \<le> m + sum_list ns \<Longrightarrow>
    \<exists>n. waitForQueueEmpty lf ns st = Some (Returns ((work lf ^^ n) st0)) \<and> queue_isEmpty lf ((work lf ^^ n) st0)"
proof (induction ns arbitrary: m st)
  case Nil
  then obtain st1 where "run_queue lf (worker_steps m) st0 = Returns st1" "pending contents st1 = []"
    using run_queue_drains [OF lf w, of m] by auto
  moreover have "run_queue lf (worker_steps m) st0 = Returns ((work lf ^^ m) st0)"
    using run_queue_fold [OF lf w, of "worker_steps m"] by (simp add: run_queue_works)
  ultimately have "pending contents st = []" using Nil by simp
  then have "contents (q_nodes st) = []" by (simp add: pending_def pending_pointers_def)
  then have "queue_isEmpty lf st" using lf by (simp add: queue_isEmpty_def fifo_queue_def)
  then show ?case using Nil by (intro exI [of _ m]) simp
next
  case (Cons n ns)
  have "fifo_queue lf contents \<and> working contents st0" using lf w by simp
  then have "working contents st" using queue.ready_works [of lf contents st0 m] Cons.prems(1) by simp
  then have "run_queue lf (worker_steps n) st = Returns ((work lf ^^ n) st)"
    using run_queue_fold [OF lf, of st "worker_steps n"] by (simp add: run_queue_works)
  moreover have "(work lf ^^ n) st = (work lf ^^ (n + m)) st0" using Cons.prems(1) by (simp add: funpow_add)
  ultimately show ?case
    using Cons.IH [of "(work lf ^^ (n + m)) st0" "n + m"] Cons.prems by auto
qed

subsection \<open>Properties\<close>

text \<open>
  What the concurrency test finds. Let the manager hold keys of the tests only, with room in every count,
  and let the five readers run against the inserting thread, or against the worker of the queue, in any
  interleaving. Then there is a run, and in every run no call waits and every one is answered, the three searches all with no, and at the end
  the manager has counted every inserted key.
\<close>

theorem concurrency_test_answers:
  assumes inter: "interleaved (mapmanager_concurrencyTest genRandomNumbers direct queued) evs"
    and queued: "fst ` set queued \<subseteq> test_keys"
    and mgr: "rank_inv mm" "\<forall>k. 0 < frequency_of mm k \<longrightarrow> k \<in> test_keys"
    and room: "\<forall>k. frequency_of mm k + 20000000 + length queued < 2 ^ 64 - 1"
  shows "(\<exists>s. monitor_run (monitor_new mm) evs s) \<and> (\<forall>s. monitor_run (monitor_new mm) evs s \<longrightarrow>
      mo_waiting s = [] \<and> mo_woken s = [] \<and> mset (map fst (mo_answers s)) = {#1, 2, 3, 4, 5#}
    \<and> (\<forall>a. (2, a) \<in> set (mo_answers s) \<or> (3, a) \<in> set (mo_answers s) \<or> (5, a) \<in> set (mo_answers s) \<longrightarrow> a = Hot False)
    \<and> (\<forall>k. frequency_of (mo_manager s) k = frequency_of mm k
          + count_list (map fst (if direct then burst_entries genRandomNumbers 20000000 else queued)) k))"
proof -
  let ?es = "if direct then burst_entries genRandomNumbers 20000000 else queued"
  note events = concurrency_events [OF inter queued]
  have "length (entries_of evs) = length ?es" using events(2) by (metis size_mset)
  then have le: "length (entries_of evs) \<le> 20000000 + length queued" by (simp add: burst_entries_def split: if_splits)
  have room1: "\<forall>k. frequency_of mm k + length (entries_of evs) < 2 ^ 64 - 1"
  proof
    fix k show "frequency_of mm k + length (entries_of evs) < 2 ^ 64 - 1" using room [rule_format, of k] le by linarith
  qed
  have runs: "(\<exists>s. monitor_run (monitor_new mm) evs s) \<and> (\<forall>s. monitor_run (monitor_new mm) evs s \<longrightarrow> test_inv test_keys mm evs s)"
    using test_runs [OF mgr(1) _ events(1) room1] mgr(2) by blast
  show ?thesis
  proof (intro conjI allI impI)
    fix s assume "monitor_run (monitor_new mm) evs s"
    then have s: "test_inv test_keys mm evs s" using runs by blast
    show "mo_waiting s = []" "mo_woken s = []" using s by (simp_all add: test_inv_def)
  qed (use runs test_inv_found [OF mgr(1) events room1] in blast)+
qed

lemma concurrency_test_answers_witness:
  "\<exists>evs s. interleaved (mapmanager_concurrencyTest (\<lambda>_. 0) False [(''one two'', ''www'', 1)]) evs
    \<and> monitor_run (monitor_new MapManager_default) evs s \<and> mo_waiting s = []
    \<and> frequency_of (mo_manager s) ''one two'' = 1"
proof -
  have "list_ex (\<lambda>w. w = ''one'') firstHundred" "list_ex (\<lambda>w. w = ''two'') firstHundred" by code_simp+
  then have "''one'' \<in> set firstHundred" "''two'' \<in> set firstHundred" by (auto simp: list_ex_iff)
  then have key: "fst ` set [(''one two'', ''www'', 1 :: uint)] \<subseteq> test_keys"
    by (auto simp: test_keys_def intro!: rev_image_eqI [of "(''one'', ''two'')"])
  have none: "frequency_of MapManager_default k = 0" for k by (simp add: MapManager_default_def frequency_of_def)
  show ?thesis
    using concurrency_test_answers [OF interleaved_concat [of "mapmanager_concurrencyTest (\<lambda>_. 0) False [(''one two'', ''www'', 1)]"]
        key rank_inv_default] interleaved_concat [of "mapmanager_concurrencyTest (\<lambda>_. 0) False [(''one two'', ''www'', 1)]"]
    by (force simp: none)
qed

text \<open>
  What the test of the queue finds. Let a burst be sent while the worker handles any part of it, and then
  let the loop wait, with enough steps of the worker during its sleeps. The loop ends, and then at most one
  message is not handled, the one the worker may still hold: the queue is empty as soon as it is popped.
\<close>

theorem queue_test_waits:
  assumes lf: "fifo_queue lf contents" and q: "contents q = []" and burst: "sent evs = burst_messages genRandomNumbers"
    and steps: "3 * 20000000 + 1 \<le> sum_list ns"
  shows "\<exists>st st1. run_queue lf evs (started q mgr) = Returns st \<and> waitForQueueEmpty lf ns st = Some (Returns st1)
    \<and> length (pending contents st1) \<le> 1
    \<and> eventual_consumer contents st1 = fold apply_message (burst_messages genRandomNumbers) mgr"
proof -
  let ?st = "fold (\<lambda>e. case e of Some m \<Rightarrow> queue_send lf m | None \<Rightarrow> work lf) evs (started q mgr)"
  have "m \<in> set (sent evs)" if "Some m \<in> set evs" for m
    using that by (force simp: sent_def List.map_filter_def)
  moreover have "\<forall>m \<in> set (burst_messages genRandomNumbers). m_cmd m = cmd_addKey"
    by (auto simp: burst_messages_def)
  ultimately have ord: "\<forall>m. Some m \<in> set evs \<longrightarrow> ordinary_message m"
    unfolding burst by (simp add: ordinary_message_def)
  have ready: "fifo_queue lf contents \<and> working contents (started q mgr)"
    using lf working_started [of contents q mgr] q by simp
  have w: "working contents ?st" and ev: "eventual_consumer contents ?st = fold apply_message (burst_messages genRandomNumbers) mgr"
    using queue.run_events [OF ready ord] eventual_started [of contents q mgr] q burst by (simp_all add: sent_def)
  have run: "run_queue lf evs (started q mgr) = Returns ?st" using run_queue_fold [OF lf _ ord] ready by simp
  have "length (pending contents ?st) \<le> length (sent evs)"
    using pending_bound [OF lf _ ord, of "started q mgr"] ready q
    by (simp add: pending_def pending_pointers_def held_def started_eq)
  then have "3 * length (pending contents ?st) + 1 \<le> 0 + sum_list ns"
    using steps unfolding burst by (simp add: burst_messages_def burst_entries_def)
  then obtain n where n: "waitForQueueEmpty lf ns ?st = Some (Returns ((work lf ^^ n) ?st))" "queue_isEmpty lf ((work lf ^^ n) ?st)"
    using waits_until_empty [OF lf w, of ?st 0 ns] by auto
  have "contents (q_nodes ((work lf ^^ n) ?st)) = []" using n(2) lf by (simp add: queue_isEmpty_def fifo_queue_def)
  then have "length (pending contents ((work lf ^^ n) ?st)) \<le> 1"
    by (simp add: pending_def pending_pointers_def held_def split: worker.split)
  moreover have "eventual_consumer contents ((work lf ^^ n) ?st) = eventual_consumer contents ?st"
    using queue.eventual_works [of lf contents ?st n] lf w by simp
  ultimately show ?thesis using run n(1) ev by auto
qed

end
