(* ===== verification/TestMain.thy ===== *)
theory TestMain
  imports Complex_Main TestThreads
begin

section \<open>The test program as a whole (test/src/test.cpp)\<close>

text \<open>
  \<open>main\<close> of the unit tests: the array of random numbers is filled, the tests of the manager run, then the queue is started on the same manager and gets
  two bursts, the second one while five threads read, and is stopped. How often the worker gets its turn
  between the steps of the others is not fixed, so the program is a relation.
\<close>

subsection \<open>populateArray\<close>

text \<open>
  The numbers are drawn from a normal distribution, rounded and cast to a byte. The cast of a number that no
  byte can hold is undefined. The numbers drawn are an argument, each a real number.
\<close>

definition std_round :: "real \<Rightarrow> int" where
  "std_round x = (if 0 \<le> x then \<lfloor>x + 1 / 2\<rfloor> else - \<lfloor>1 / 2 - x\<rfloor>)"

definition populateArray :: "(nat \<Rightarrow> real) \<Rightarrow> (nat \<Rightarrow> 8 word) outcome" where
  "populateArray d =
     (if list_all (\<lambda>i. 0 \<le> std_round (d i) \<and> std_round (d i) < 256) [0..<maxNumbers]
      then Returns (\<lambda>i. if i < maxNumbers then word_of_int (std_round (d i)) else 0)
      else Undefined)"

text \<open>A number drawn below zero is one of those: with mean 50 and deviation 15 one in some thousands is.\<close>

lemma negative_number_undefined:
  assumes "i < maxNumbers" "d i \<le> - 1 / 2"
  shows "populateArray d = Undefined"
proof -
  have "1 \<le> \<lfloor>1 / 2 - d i\<rfloor>" using assms(2) by (simp add: le_floor_iff)
  then have "\<not> 0 \<le> std_round (d i)" using assms(2) by (simp add: std_round_def)
  then show ?thesis using assms(1) by (auto simp: populateArray_def list_all_iff)
qed

subsection \<open>MixManagerQueueTests and main\<close>

text \<open>The readers and the worker in turn: \<open>Some\<close> is a call of a reader, \<open>None\<close> a step of the worker.\<close>

fun mix_run :: "'q lockfree \<Rightarrow> (nat \<times> reader_call) option list \<Rightarrow> (nat \<times> answer) list \<times> 'q queue_system
    \<Rightarrow> ((nat \<times> answer) list \<times> 'q queue_system) outcome" where
  "mix_run lf [] st = Returns st"
| "mix_run lf (None # es) (as, q) =
     (case run_step lf q of
        Returns q1 \<Rightarrow> mix_run lf es (as, q1)
      | Throws e \<Rightarrow> Throws e | Waits \<Rightarrow> Waits | Undefined \<Rightarrow> Undefined | Terminates \<Rightarrow> Terminates)"
| "mix_run lf (Some (t, r) # es) (as, q) =
     (case reader_answer r (consumer q) of
        Returns a \<Rightarrow> mix_run lf es (as @ [(t, a)], q)
      | Throws e \<Rightarrow> Throws e | Waits \<Rightarrow> Waits | Undefined \<Rightarrow> Undefined | Terminates \<Rightarrow> Terminates)"

definition reads :: "(nat \<times> reader_call) option list \<Rightarrow> (nat \<times> reader_call) list" where
  "reads es = List.map_filter (\<lambda>e. e) es"

inductive MixManagerQueueTests ::
  "'q lockfree \<Rightarrow> (nat \<Rightarrow> 8 word) \<Rightarrow> 'q queue_system \<Rightarrow> (nat \<times> answer) list \<Rightarrow> 'q queue_system \<Rightarrow> bool"
  for lf genRandomNumbers where
  mix_tests:
    "run_queue lf evs1 q = Returns q1 \<Longrightarrow> sent evs1 = burst_messages genRandomNumbers \<Longrightarrow>
     waitForQueueEmpty lf ns1 q1 = Some (Returns q2) \<Longrightarrow>
     run_queue lf evs2 q2 = Returns q3 \<Longrightarrow> sent evs2 = burst_messages genRandomNumbers \<Longrightarrow>
     mix_run lf es ([], q3) = Returns (as, q4) \<Longrightarrow> mset (reads es) = mset test_readers \<Longrightarrow>
     waitForQueueEmpty lf ns2 q4 = Some (Returns q5) \<Longrightarrow>
     MixManagerQueueTests lf genRandomNumbers q as q5"

text \<open>
  The counters that are printed, and the queue with its manager when \<open>stop\<close> has returned. After \<open>stop\<close> has
  reset the flag the worker takes \<open>n\<close> steps until it can be joined.
\<close>

inductive test_main ::
  "'q lockfree \<Rightarrow> (nat \<Rightarrow> real) \<Rightarrow> disk \<Rightarrow> 'q \<Rightarrow> tests \<Rightarrow> (nat \<times> answer) list \<Rightarrow> 'q queue_system \<Rightarrow> bool"
  for lf d dk q0 where
  test_program:
    "populateArray d = Returns genRandomNumbers \<Longrightarrow>
     sequential_tests lf genRandomNumbers TestByMacros_new MapManager_default dk = (Returns t, mm, dk1) \<Longrightarrow>
     interleaved (mapmanager_concurrencyTest genRandomNumbers True []) evs \<Longrightarrow> monitor_run (monitor_new mm) evs s \<Longrightarrow>
     queue_start (setConsumer True (ThreadedMessageQueue_new q0 (mo_manager s))) = (Returns True, q) \<Longrightarrow>
     MixManagerQueueTests lf genRandomNumbers q as q1 \<Longrightarrow>
     run_queue lf (worker_steps n) (q1\<lparr>m_running := False\<rparr>) = Returns q2 \<Longrightarrow> queue_join q2 = (Returns True, q3) \<Longrightarrow>
     test_main lf d dk q0 t (mo_answers s @ as) q3"

inductive_cases MixManagerQueueTestsE: "MixManagerQueueTests lf g q as q1"
inductive_cases test_mainE: "test_main lf d dk q0 t as q"

subsection \<open>What has been handled\<close>

text \<open>
  The queue at work, started with the manager \<open>mgr\<close> and sent the messages \<open>ms\<close>: the worker has handled a
  first part of them, and the rest is pending.
\<close>

definition delivered :: "('q \<Rightarrow> pointer list) \<Rightarrow> map_manager \<Rightarrow> message list \<Rightarrow> 'q queue_system \<Rightarrow> bool" where
  "delivered contents mgr ms q \<longleftrightarrow> working contents q
     \<and> (\<exists>d. consumer q = fold apply_message d mgr \<and> d @ pending contents q = ms)"

lemma delivered_started: "contents q = [] \<Longrightarrow> delivered contents mgr [] (started q mgr)"
  using working_started [of contents q mgr]
  by (simp add: delivered_def pending_def pending_pointers_def held_def started_eq)

lemma delivered_eventual: "delivered contents mgr ms q \<Longrightarrow> eventual_consumer contents q = fold apply_message ms mgr"
  by (auto simp: delivered_def eventual_consumer_def)

lemma delivered_send:
  assumes lf: "fifo_queue lf contents" and d: "delivered contents mgr ms q" and m: "ordinary_message m"
  shows "delivered contents mgr (ms @ [m]) (queue_send lf m q)"
  using d working_send [OF lf _ m, of q] queue_send_ok [OF lf, of q m] by (auto simp: delivered_def working_def)

lemma delivered_step:
  assumes lf: "fifo_queue lf contents" and d: "delivered contents mgr ms q"
  shows "run_step lf q = Returns (work lf q)" "delivered contents mgr ms (work lf q)"
proof -
  have w: "working contents q" using d by (simp add: delivered_def)
  then show step: "run_step lf q = Returns (work lf q)"
    using run_step_work(1) [OF lf] by (simp add: working_def)
  have "working contents (work lf q)" using work_cases [OF lf w] by blast
  moreover obtain h where h: "consumer q = fold apply_message h mgr" "h @ pending contents q = ms"
    using d by (auto simp: delivered_def)
  have "queue_ok contents q" using w by (simp add: working_def)
  from run_step_consumer [OF lf this step]
  have "\<exists>h. consumer (work lf q) = fold apply_message h mgr \<and> h @ pending contents (work lf q) = ms"
  proof (elim disjE exE conjE)
    fix m assume "pending contents q = m # pending contents (work lf q)" "consumer (work lf q) = apply_message m (consumer q)"
    then show ?thesis using h by (intro exI [of _ "h @ [m]"]) simp
  qed (use h in auto)
  ultimately show "delivered contents mgr ms (work lf q)" by (simp add: delivered_def)
qed

text \<open>Senders and the worker, and the loop that waits.\<close>

lemma delivered_run:
  assumes lf: "fifo_queue lf contents"
  shows "delivered contents mgr ms q \<Longrightarrow> \<forall>m. Some m \<in> set evs \<longrightarrow> ordinary_message m \<Longrightarrow>
    \<exists>q1. run_queue lf evs q = Returns q1 \<and> delivered contents mgr (ms @ sent evs) q1"
proof (induction evs arbitrary: q ms)
  case (Cons e evs)
  show ?case
  proof (cases e)
    case None
    then show ?thesis using Cons.IH [of ms "work lf q"] Cons.prems delivered_step [OF lf Cons.prems(1)] by simp
  next
    case (Some m)
    then show ?thesis
      using Cons.IH [of "ms @ [m]" "queue_send lf m q"] Cons.prems delivered_send [OF lf Cons.prems(1), of m] by simp
  qed
qed simp

lemma delivered_waits:
  assumes lf: "fifo_queue lf contents"
  shows "delivered contents mgr ms q \<Longrightarrow> waitForQueueEmpty lf ns q = Some (Returns q1) \<Longrightarrow>
    delivered contents mgr ms q1 \<and> contents (q_nodes q1) = []"
proof (induction ns arbitrary: q)
  case Nil
  then show ?case using lf by (auto simp: queue_isEmpty_def fifo_queue_def split: if_splits)
next
  case (Cons n ns)
  show ?case
  proof (cases "queue_isEmpty lf q")
    case True
    then show ?thesis using Cons.prems lf by (auto simp: queue_isEmpty_def fifo_queue_def)
  next
    case False
    obtain q2 where "run_queue lf (worker_steps n) q = Returns q2" "delivered contents mgr ms q2"
      using delivered_run [OF lf Cons.prems(1), of "worker_steps n"] by auto
    then show ?thesis using Cons.IH [of q2] Cons.prems(2) False by simp
  qed
qed

lemma delivered_wait_ends:
  assumes lf: "fifo_queue lf contents" and d: "delivered contents mgr ms q"
  shows "\<exists>ns q1. waitForQueueEmpty lf ns q = Some (Returns q1)"
proof -
  have "working contents q" using d by (simp add: delivered_def)
  from waits_until_empty [OF lf this, of q 0 "[3 * length (pending contents q) + 1]"]
  show ?thesis by (simp del: waitForQueueEmpty.simps) blast
qed

subsection \<open>The readers\<close>

text \<open>The bursts hold keys of the tests only, so the searches find nothing at any time.\<close>

lemma fold_burst: "fold apply_message (burst_messages g) mgr = run_keys (burst_entries g 20000000) mgr"
proof -
  have "fold apply_message (map (\<lambda>(key, url, port). Message_strings cmd_addKey key url 0 0 port) es) mgr = run_keys es mgr" for es
    by (induction es arbitrary: mgr) (auto simp: run_keys_def apply_message_def)
  then show ?thesis by (simp add: burst_messages_def)
qed

lemma length_burst: "length (burst_messages g) = 20000000"
  by (simp add: burst_messages_def burst_entries_def)

lemma burst_ordinary:
  assumes "sent evs = burst_messages g"
  shows "\<forall>m. Some m \<in> set evs \<longrightarrow> ordinary_message m"
proof -
  have "m \<in> set (sent evs)" if "Some m \<in> set evs" for m
    using that by (force simp: sent_def List.map_filter_def)
  moreover have "\<forall>m \<in> set (burst_messages g). m_cmd m = cmd_addKey" by (auto simp: burst_messages_def)
  ultimately show ?thesis unfolding assms by (simp add: ordinary_message_def)
qed

lemma adds_test_key:
  assumes "0 < adds k d" "set d \<subseteq> set (burst_messages g)"
  shows "k \<in> test_keys"
proof -
  obtain m where "m \<in> set d" "m_str1 m = k" using assms(1) by (auto simp: adds_def filter_empty_conv)
  then have "k \<in> fst ` set (burst_entries g 20000000)" using assms(2) by (force simp: burst_messages_def)
  then show ?thesis using burst_keys by blast
qed

text \<open>A manager that the readers can ask: its ranking is right and it knows only keys of the tests.\<close>

definition readable :: "map_manager \<Rightarrow> nat \<Rightarrow> bool" where
  "readable mgr n \<longleftrightarrow> rank_inv mgr \<and> (\<forall>k. 0 < frequency_of mgr k \<longrightarrow> k \<in> test_keys) \<and> (\<forall>k. frequency_of mgr k + n < 2 ^ 64 - 1)"

lemma delivered_readable:
  assumes d: "delivered contents mgr ms q" and ms: "set ms \<subseteq> set (burst_messages g)" and mgr: "readable mgr (length ms)"
  shows "readable (consumer q) 0"
proof -
  obtain h where h: "consumer q = fold apply_message h mgr" "h @ pending contents q = ms"
    using d by (auto simp: delivered_def)
  have len: "length h \<le> length ms" "set h \<subseteq> set (burst_messages g)" using ms by (auto simp: h(2) [symmetric])
  have few: "frequency_of mgr k + length h < 2 ^ 64 - 1" for k
    using mgr len(1) unfolding readable_def by (metis add_le_mono le_refl le_less_trans)
  have room: "\<forall>k. frequency_of mgr k + length h < 2 ^ 64"
  proof
    fix k show "frequency_of mgr k + length h < 2 ^ 64" using few [of k] by simp
  qed
  have inv: "rank_inv mgr" using mgr by (simp add: readable_def)
  have c: "rank_inv (consumer q)" "frequency_of (consumer q) k = frequency_of mgr k + adds k h" for k
    using fold_apply_message_counts [OF inv room, of k] by (simp_all add: h(1))
  have "adds k h \<le> length h" for k by (simp add: adds_def)
  then have "frequency_of (consumer q) k < 2 ^ 64 - 1" for k
    using c(2) [of k] few [of k] by (metis add_le_mono le_refl le_less_trans)
  moreover have "k \<in> test_keys" if "0 < frequency_of (consumer q) k" for k
    using that c(2) [of k] adds_test_key [OF _ len(2), of k] mgr by (auto simp: readable_def)
  ultimately show ?thesis using c(1) by (simp add: readable_def)
qed

lemma reads_simps [simp]: "reads [] = []" "reads (None # es) = reads es" "reads (Some x # es) = x # reads es"
  by (simp_all add: reads_def map_filter_simps)

lemma mix_phase:
  assumes lf: "fifo_queue lf contents" and ms: "set ms \<subseteq> set (burst_messages g)" and mgr: "readable mgr (length ms)"
  shows "delivered contents mgr ms q \<Longrightarrow>
    \<exists>bs q1. mix_run lf es (as, q) = Returns (as @ bs, q1) \<and> delivered contents mgr ms q1
      \<and> list_all2 (fitting_answer test_keys) (reads es) bs"
proof (induction es arbitrary: as q)
  case (Cons e es)
  show ?case
  proof (cases e)
    case None
    then show ?thesis
      using Cons.IH [of "work lf q" as] delivered_step [OF lf Cons.prems] by simp
  next
    case (Some x)
    obtain t r where x: "x = (t, r)" by (cases x)
    have read: "rank_inv (consumer q)" "\<And>k. 0 < frequency_of (consumer q) k \<Longrightarrow> k \<in> test_keys"
      using delivered_readable [OF Cons.prems ms mgr] by (simp_all add: readable_def)
    obtain a where a: "reader_answer r (consumer q) = Returns a" "fitting_answer test_keys (t, r) (t, a)"
      by (rule reader_fits [OF read])
    obtain bs q1 where "mix_run lf es (as @ [(t, a)], q) = Returns ((as @ [(t, a)]) @ bs, q1)" "delivered contents mgr ms q1"
      "list_all2 (fitting_answer test_keys) (reads es) bs"
      using Cons.IH [OF Cons.prems, of "as @ [(t, a)]"] by blast
    then show ?thesis
      using a by (intro exI [of _ "(t, a) # bs"] exI [of _ q1]) (simp add: Some x)
  qed
qed simp

subsection \<open>The mixed test\<close>

lemma mixed_test_runs:
  fixes g :: "nat \<Rightarrow> 8 word"
  assumes lf: "fifo_queue lf contents" and q: "contents q0 = []" and mgr: "readable mgr 40000000"
  defines "ms \<equiv> burst_messages g @ burst_messages g"
  shows "\<exists>as q1. MixManagerQueueTests lf g (started q0 mgr) as q1"
    and "MixManagerQueueTests lf g (started q0 mgr) as q1 \<Longrightarrow> delivered contents mgr ms q1 \<and> contents (q_nodes q1) = []
      \<and> (\<exists>rs. mset rs = mset test_readers \<and> list_all2 (fitting_answer test_keys) rs as)"
proof -
  let ?b = "burst_messages g"
  have ms: "set ms \<subseteq> set ?b" "length ms = 40000000" by (simp_all add: ms_def length_burst)
  have start: "delivered contents mgr [] (started q0 mgr)" by (rule delivered_started [of contents, OF q])
  have burst: "\<exists>q1. run_queue lf evs q = Returns q1 \<and> delivered contents mgr (zs @ ?b) q1"
    if "delivered contents mgr zs q" "sent evs = ?b" for evs q zs
    using delivered_run [OF lf that(1) burst_ordinary [OF that(2)]] that(2) by simp
  have mix: "\<exists>bs q1. mix_run lf es ([], q) = Returns (bs, q1) \<and> delivered contents mgr ms q1
      \<and> list_all2 (fitting_answer test_keys) (reads es) bs" if "delivered contents mgr ms q" for es q
    using mix_phase [OF lf ms(1) _ that, of es "[]"] mgr ms(2) by simp
  have all: "sent (map Some ?b) = ?b" "reads (map Some test_readers) = test_readers"
    by (simp_all add: sent_def reads_def map_filter_def comp_def)
  show "\<exists>as q1. MixManagerQueueTests lf g (started q0 mgr) as q1"
  proof -
    obtain q1 where 1: "run_queue lf (map Some ?b) (started q0 mgr) = Returns q1" "delivered contents mgr ?b q1"
      using burst [OF start all(1)] by auto
    obtain ns1 q2 where 2: "waitForQueueEmpty lf ns1 q1 = Some (Returns q2)"
      using delivered_wait_ends [OF lf 1(2)] by blast
    have d2: "delivered contents mgr ?b q2" using delivered_waits [OF lf 1(2) 2] by blast
    obtain q3 where 3: "run_queue lf (map Some ?b) q2 = Returns q3" "delivered contents mgr ms q3"
      using burst [OF d2 all(1)] by (auto simp: ms_def)
    obtain as q4 where 4: "mix_run lf (map Some test_readers) ([], q3) = Returns (as, q4)" "delivered contents mgr ms q4"
      using mix [OF 3(2)] by blast
    obtain ns2 q5 where 5: "waitForQueueEmpty lf ns2 q4 = Some (Returns q5)"
      using delivered_wait_ends [OF lf 4(2)] by blast
    have "MixManagerQueueTests lf g (started q0 mgr) as q5"
      by (rule mix_tests [OF 1(1) all(1) 2 3(1) all(1) 4(1) _ 5]) (simp add: all(2))
    then show ?thesis by blast
  qed
  show "delivered contents mgr ms q1 \<and> contents (q_nodes q1) = []
      \<and> (\<exists>rs. mset rs = mset test_readers \<and> list_all2 (fitting_answer test_keys) rs as)"
    if "MixManagerQueueTests lf g (started q0 mgr) as q1"
    using that
  proof (rule MixManagerQueueTestsE)
    fix evs1 p1 ns1 p2 evs2 p3 es p4 ns2
    assume run: "run_queue lf evs1 (started q0 mgr) = Returns p1" "sent evs1 = ?b"
      "waitForQueueEmpty lf ns1 p1 = Some (Returns p2)" "run_queue lf evs2 p2 = Returns p3" "sent evs2 = ?b"
      "mix_run lf es ([], p3) = Returns (as, p4)" "mset (reads es) = mset test_readers"
      "waitForQueueEmpty lf ns2 p4 = Some (Returns q1)"
    have d1: "delivered contents mgr ?b p1" using burst [OF start run(2)] run(1) by simp
    have d2: "delivered contents mgr ?b p2" using delivered_waits [OF lf d1 run(3)] by blast
    have d3: "delivered contents mgr ms p3" using burst [OF d2 run(5)] run(4) by (simp add: ms_def)
    have d4: "delivered contents mgr ms p4" "list_all2 (fitting_answer test_keys) (reads es) as"
      using mix [OF d3, of es] run(6) by auto
    show ?thesis using delivered_waits [OF lf d4(1) run(8)] d4(2) run(7) by blast
  qed
qed

text \<open>After the queue is empty \<open>stop\<close> loses nothing: the worker handles the message it still holds.\<close>

lemma stopping_run:
  assumes lf: "fifo_queue lf contents"
  shows "queue_ok contents q \<Longrightarrow> contents (q_nodes q) = [] \<Longrightarrow> run_queue lf (worker_steps n) q = Returns q1 \<Longrightarrow>
    queue_ok contents q1 \<and> contents (q_nodes q1) = [] \<and> eventual_consumer contents q1 = eventual_consumer contents q"
proof (induction n arbitrary: q)
  case (Suc n)
  obtain q2 where q2: "run_step lf q = Returns q2" "queue_ok contents q2"
    "eventual_consumer contents q2 = eventual_consumer contents q"
    by (rule run_step_ok [OF lf Suc.prems(1)])
  have "contents (q_nodes q2) = []"
  proof (cases "m_poper q")
    case (Holding p)
    obtain m where "heap q p = Some m" by (rule held_allocated [OF Suc.prems(1) Holding])
    then show ?thesis using q2(1) run_step_holding [OF Holding, of m lf] Suc.prems(2) by auto
  qed (use q2(1) Suc.prems(2) in \<open>auto simp: run_step_def fifo_empty [OF lf]\<close>)
  then show ?case using Suc.IH [of q2] Suc.prems(3) q2 by simp
qed simp

lemma stop_phase:
  assumes lf: "fifo_queue lf contents" and d: "delivered contents mgr ms q" and empty: "contents (q_nodes q) = []"
  shows "\<exists>q2 q3. run_queue lf (worker_steps 3) (q\<lparr>m_running := False\<rparr>) = Returns q2 \<and> queue_join q2 = (Returns True, q3)"
    and "run_queue lf (worker_steps n) (q\<lparr>m_running := False\<rparr>) = Returns q2 \<Longrightarrow> queue_join q2 = (Returns True, q3) \<Longrightarrow>
      consumer q3 = fold apply_message ms mgr \<and> contents (q_nodes q3) = [] \<and> m_poper q3 = Not_joinable"
proof -
  let ?q = "q\<lparr>m_running := False\<rparr>"
  have "pending_pointers contents ?q = pending_pointers contents q" by (simp add: pending_pointers_def held_def)
  then have ok: "queue_ok contents ?q" and ev: "eventual_consumer contents ?q = fold apply_message ms mgr"
    and alive: "m_poper ?q \<noteq> Not_joinable"
    using d delivered_eventual [OF d]
    by (simp_all add: delivered_def working_def queue_ok_def eventual_consumer_def pending_def)
  have "\<exists>q2. run_queue lf (worker_steps 3) ?q = Returns q2 \<and> m_poper q2 = Finished"
    using worker_finishes [OF lf ok _ alive] by auto
  then show "\<exists>q2 q3. run_queue lf (worker_steps 3) ?q = Returns q2 \<and> queue_join q2 = (Returns True, q3)"
    by (auto simp: queue_join_def)
  assume run: "run_queue lf (worker_steps n) ?q = Returns q2" and join: "queue_join q2 = (Returns True, q3)"
  have "m_poper q2 = Finished" "q3 = q2\<lparr>m_poper := Not_joinable\<rparr>"
    using join by (simp_all add: queue_join_def split: worker.splits)
  moreover have "contents (q_nodes q2) = []" "eventual_consumer contents q2 = fold apply_message ms mgr"
    using stopping_run [OF lf ok _ run] empty ev by simp_all
  ultimately show "consumer q3 = fold apply_message ms mgr \<and> contents (q_nodes q3) = [] \<and> m_poper q3 = Not_joinable"
    by (simp add: eventual_consumer_def pending_def pending_pointers_def)
qed

subsection \<open>The concurrency test\<close>

lemma concurrent_phase:
  fixes g :: "nat \<Rightarrow> 8 word"
  assumes inter: "interleaved (mapmanager_concurrencyTest g True []) evs"
  defines "es \<equiv> burst_entries g 20000000"
  defines "mm \<equiv> run_keys es MapManager_default"
  shows "\<exists>s. monitor_run (monitor_new mm) evs s"
    and "monitor_run (monitor_new mm) evs s \<Longrightarrow> readable (mo_manager s) 40000000
      \<and> (\<exists>rs. mset rs = mset test_readers \<and> list_all2 (fitting_answer test_keys) rs (mo_answers s))
      \<and> (\<forall>k. frequency_of (mo_manager s) k = 2 * count_list (map fst es) k)"
proof -
  note events = concurrency_events [OF inter, simplified, folded es_def]
  have len: "length es = 20000000" by (simp add: es_def burst_entries_def)
  then have entries: "length (entries_of evs) = 20000000" using events(2) by (metis size_mset)
  have inv: "rank_inv mm" and freq: "frequency_of mm k = count_list (map fst es) k" for k
    using run_keys_from [OF rank_inv_default, where evs = es] len
    by (simp_all add: mm_def MapManager_default_def frequency_of_def)
  have small: "count_list (map fst es) k \<le> 20000000" for k
    using count_list_le_length [of "map fst es" k] len by simp
  have room: "\<forall>k. frequency_of mm k + length (entries_of evs) < 2 ^ 64 - 1"
  proof
    fix k show "frequency_of mm k + length (entries_of evs) < 2 ^ 64 - 1"
      using small [of k] by (simp add: freq entries)
  qed
  have known: "k \<in> test_keys" if "0 < count_list (map fst es) k" for k
  proof -
    have "k \<in> set (map fst es)" using that by (metis count_list_0_iff less_irrefl)
    then show ?thesis using burst_keys unfolding es_def by auto
  qed
  have runs: "(\<exists>s. monitor_run (monitor_new mm) evs s)
      \<and> (\<forall>s. monitor_run (monitor_new mm) evs s \<longrightarrow> test_inv test_keys mm evs s)"
    by (rule test_runs [OF inv _ events(1) room]) (simp add: freq known)
  then show "\<exists>s. monitor_run (monitor_new mm) evs s" by blast
  assume "monitor_run (monitor_new mm) evs s"
  then have s: "test_inv test_keys mm evs s" using runs by blast
  have count: "frequency_of (mo_manager s) k = 2 * count_list (map fst es) k" for k
    using test_inv_found [OF inv events room s] by (simp add: freq)
  have "rank_inv (mo_manager s)"
    using s run_keys_from(1) [OF inv, of "entries_of evs"] room by (simp add: test_inv_def)
  moreover have "frequency_of (mo_manager s) k + 40000000 < 2 ^ 64 - 1" for k
    using small [of k] by (simp add: count)
  ultimately have "readable (mo_manager s) 40000000" by (simp add: readable_def count known)
  then show "readable (mo_manager s) 40000000
      \<and> (\<exists>rs. mset rs = mset test_readers \<and> list_all2 (fitting_answer test_keys) rs (mo_answers s))
      \<and> (\<forall>k. frequency_of (mo_manager s) k = 2 * count_list (map fst es) k)"
    using s events(3) count by (auto simp: test_inv_def)
qed

lemma two_bursts_more:
  fixes g :: "nat \<Rightarrow> 8 word"
  assumes "readable mgr 40000000"
  defines "es \<equiv> burst_entries g 20000000"
  shows "frequency_of (run_keys es (run_keys es mgr)) k = frequency_of mgr k + 2 * count_list (map fst es) k"
proof -
  have both: "run_keys es (run_keys es mgr) = run_keys (es @ es) mgr" by (simp add: run_keys_def)
  have "length (es @ es) = 40000000" by (simp add: es_def burst_entries_def)
  then have "frequency_of mgr k + length (es @ es) < 2 ^ 64 - 1" for k
    using assms(1) unfolding readable_def by metis
  then show ?thesis using run_keys_from(2) [of mgr "es @ es" k] assms(1) by (simp add: both readable_def)
qed

text \<open>One run of the program: thread after thread, and the worker when the others wait.\<close>

lemma queue_starts: "queue_start (setConsumer True (ThreadedMessageQueue_new q0 m)) = (Returns True, started q0 m)"
  by (simp add: started_def queue_start_def setConsumer_def ThreadedMessageQueue_new_def)

lemma test_main_runs:
  fixes g :: "nat \<Rightarrow> 8 word"
  assumes numbers: "populateArray d = Returns g" and lf: "fifo_queue lf contents" and q0: "contents q0 = []"
  shows "\<exists>t as q. test_main lf d dk q0 t as q"
proof -
  let ?mm = "run_keys (burst_entries g 20000000) MapManager_default"
  obtain t dk1 where tests: "sequential_tests lf g TestByMacros_new MapManager_default dk = (Returns t, ?mm, dk1)"
    using sequential_tests_result [of lf g dk] by blast
  note concurrent = concurrent_phase [of g]
  let ?evs = "concat (mapmanager_concurrencyTest g True [])"
  obtain s where s: "monitor_run (monitor_new ?mm) ?evs s" using concurrent(1) [OF interleaved_concat] by blast
  have mgr: "readable (mo_manager s) 40000000" using concurrent(2) [OF interleaved_concat s] by blast
  obtain as q1 where mixed: "MixManagerQueueTests lf g (started q0 (mo_manager s)) as q1"
    using mixed_test_runs(1) [where contents = contents, OF lf q0 mgr] by blast
  note q1 = mixed_test_runs(2) [where contents = contents, OF lf q0 mgr mixed]
  obtain q2 q3 where "run_queue lf (worker_steps 3) (q1\<lparr>m_running := False\<rparr>) = Returns q2" "queue_join q2 = (Returns True, q3)"
    using stop_phase(1) [OF lf, of "mo_manager s" _ q1] q1 by blast
  from test_program [OF numbers tests interleaved_concat s queue_starts mixed this]
  show "\<exists>t as q. test_main lf d dk q0 t as q" by blast
qed

subsection \<open>Properties\<close>

text \<open>
  C24. What the test program does. For all random numbers that fit into a byte the program has a run, and in every run,
  whatever the threads' and the worker's schedules, 21 expectations hold or all but the one on the size of the
  ranking, every reader is answered and no search finds its key, and \<open>stop\<close> returns with nothing lost: the
  queue is empty and the manager has counted each inserted key four times, once for each of the four bursts.
\<close>

theorem test_program_counts:
  fixes genRandomNumbers :: "nat \<Rightarrow> 8 word"
  assumes numbers: "populateArray d = Returns genRandomNumbers"
    and lf: "fifo_queue lf contents" and q0: "contents q0 = []"
  defines "es \<equiv> burst_entries genRandomNumbers 20000000"
  shows "(\<exists>t as q. test_main lf d dk q0 t as q)
    \<and> (\<forall>t as q. test_main lf d dk q0 t as q \<longrightarrow>
        t = (if 10 \<le> card (fst ` set es) then \<lparr>goodCount = 21, badCount = 0\<rparr> else \<lparr>goodCount = 20, badCount = 1\<rparr>)
      \<and> mset (map fst as) = {#1, 2, 3, 4, 5#} + {#1, 2, 3, 4, 5#}
      \<and> (\<forall>a. (2, a) \<in> set as \<or> (3, a) \<in> set as \<or> (5, a) \<in> set as \<longrightarrow> a = Hot False)
      \<and> m_poper q = Not_joinable \<and> contents (q_nodes q) = []
      \<and> (\<forall>k. frequency_of (consumer q) k = 4 * count_list (map fst es) k))"
proof -
  let ?mm = "run_keys es MapManager_default"
  let ?t = "if 10 \<le> card (fst ` set es) then \<lparr>goodCount = 21, badCount = 0\<rparr> else \<lparr>goodCount = 20, badCount = 1\<rparr>"
  obtain dk1 where tests: "sequential_tests lf genRandomNumbers TestByMacros_new MapManager_default dk = (Returns ?t, ?mm, dk1)"
    using sequential_tests_result [of lf genRandomNumbers dk] unfolding es_def by blast
  note concurrent = concurrent_phase [of genRandomNumbers, folded es_def]
  show ?thesis
  proof (intro conjI allI impI)
    show "\<exists>t as q. test_main lf d dk q0 t as q" by (rule test_main_runs [OF numbers lf q0])
  next
    fix t as q assume "test_main lf d dk q0 t as q"
    then obtain mm dk2 evs s p bs q1 n q2 where
      run: "sequential_tests lf genRandomNumbers TestByMacros_new MapManager_default dk = (Returns t, mm, dk2)"
        "interleaved (mapmanager_concurrencyTest genRandomNumbers True []) evs" "monitor_run (monitor_new mm) evs s"
        "queue_start (setConsumer True (ThreadedMessageQueue_new q0 (mo_manager s))) = (Returns True, p)"
        "MixManagerQueueTests lf genRandomNumbers p bs q1" "run_queue lf (worker_steps n) (q1\<lparr>m_running := False\<rparr>) = Returns q2"
        "queue_join q2 = (Returns True, q)" and as: "as = mo_answers s @ bs"
      by (rule test_mainE) (use numbers in simp)
    have t: "t = ?t" "mm = ?mm" and p: "p = started q0 (mo_manager s)" using run(1,4) tests by (simp_all add: queue_starts)
    note found = concurrent(2) [OF run(2) run(3) [unfolded t(2)]]
    note mixed = mixed_test_runs(2) [where contents = contents, OF lf q0 conjunct1 [OF found] run(5) [unfolded p]]
    have all: "consumer q = run_keys es (run_keys es (mo_manager s)) \<and> contents (q_nodes q) = [] \<and> m_poper q = Not_joinable"
      using stop_phase(2) [OF lf conjunct1 [OF mixed] _ run(6,7)] mixed by (simp add: fold_burst es_def)
    obtain rs1 rs2 where answers: "mset rs1 = mset test_readers" "list_all2 (fitting_answer test_keys) rs1 (mo_answers s)"
      "mset rs2 = mset test_readers" "list_all2 (fitting_answer test_keys) rs2 bs" using found mixed by blast
    note asked = fitting_found [OF answers(2,1)] fitting_found [OF answers(4,3)]
    show "t = ?t" "m_poper q = Not_joinable" "contents (q_nodes q) = []" using t all by blast+
    show "mset (map fst as) = {#1, 2, 3, 4, 5#} + {#1, 2, 3, 4, 5#}" using asked(1,3) by (simp add: as)
    show "a = Hot False" if "(2, a) \<in> set as \<or> (3, a) \<in> set as \<or> (5, a) \<in> set as" for a
      using that asked(2,4) unfolding as by auto
    show "frequency_of (consumer q) k = 4 * count_list (map fst es) k" for k
      using two_bursts_more [of "mo_manager s" genRandomNumbers k] found all by (simp add: es_def)
  qed
qed

text \<open>With all random numbers a quarter one key is inserted eighty million times, and one expectation fails.\<close>

lemma test_program_counts_witness:
  "\<exists>t as q. test_main list_lockfree (\<lambda>_. 1 / 4) empty_disk [] t as q \<and> badCount t = 1
    \<and> frequency_of (consumer q) ''one one'' = 80000000"
proof -
  let ?es = "burst_entries (\<lambda>_. 0) 20000000"
  have word: "firstHundred ! 0 = ''one''" by (simp add: firstHundred_def)
  then have keys: "map fst ?es = replicate 20000000 ''one one''"
    by (simp add: burst_entries_def test_entry_def Let_def comp_def map_replicate_const)
  have "count_list (replicate n x) x = n" for n and x :: string by (induction n) simp_all
  then have count: "count_list (map fst ?es) ''one one'' = 20000000" unfolding keys by simp
  have "fst ` set ?es = set (map fst ?es)" by simp
  also have "card \<dots> = 1" unfolding keys by simp
  finally have few: "card (fst ` set ?es) = 1" .
  have "std_round (1 / 4) = 0" by (simp add: std_round_def)
  then have "populateArray (\<lambda>_. 1 / 4) = Returns (\<lambda>_. 0)" by (simp add: populateArray_def list_all_iff fun_eq_iff)
  then show ?thesis
    using test_program_counts [OF _ fifo_list, of "\<lambda>_. 1 / 4" "\<lambda>_. 0" "[]" empty_disk] by (force simp: few count)
qed

end
