(* ===== verification/Spec2Isabelle.thy ===== *)
theory Spec2Isabelle
  imports Shutdown FullDisk Replies Lives MapManagerReference ClientMain TestMain
begin

text \<open>
  A model of KeyTracker, a server that counts reported keys and answers which are the most frequent, and of
  its two clients. The root theory imports every other one; it holds this description and the properties that
  need the whole program.

  \<^bold>\<open>How the program works.\<close> Clients send HTTP requests. \<^verbatim>\<open>Listener\<close> accepts a connection and runs it as an
  \<^verbatim>\<open>HttpConnection\<close>, which turns a request into a call of one of two functors and the functor's result into a
  response; \<^verbatim>\<open>WebServer\<close> owns the listener and makes both functors end in \<^verbatim>\<open>MessageServer::onMessage\<close>. A reported
  key becomes a \<^verbatim>\<open>Message\<close> on the heap and its pointer goes through the \<^verbatim>\<open>ThreadedMessageQueue\<close> to a worker
  thread, which hands it to \<^verbatim>\<open>MapManager::addOrUpdateKey\<close>; questions about keys are answered by the manager
  directly. \<^verbatim>\<open>BackupManager\<close> rotates the files of the manager's maps and lets it write or read them, on request
  or by a \<^verbatim>\<open>Timer\<close>. \<^verbatim>\<open>main\<close> builds and starts all this and ends it after a signal.

  \<^bold>\<open>Theories and code.\<close>
  \<^item> \<^verbatim>\<open>Prelude\<close>, \<^verbatim>\<open>StdString\<close>, \<^verbatim>\<open>StdContainers\<close>, \<^verbatim>\<open>Streams\<close>: outcomes of calls, words, and what the code uses of
    \<^verbatim>\<open>std::string\<close>, \<^verbatim>\<open>std::map\<close>, \<^verbatim>\<open>std::multimap\<close> (contracts as locales, interpreted on sorted lists), \<^verbatim>\<open>getline\<close>
    and the file streams with their state bits.
  \<^item> \<^verbatim>\<open>VerbosityLevel\<close>: \<^verbatim>\<open>include/verbosity.h\<close>.
  \<^item> \<^verbatim>\<open>MapManager\<close>: the two maps and every operation of \<^verbatim>\<open>src/MapManager.cpp\<close> but backup and restore.
    \<^verbatim>\<open>MapManagerRank\<close> and \<^verbatim>\<open>MapManagerInv\<close> describe one update of the ranking and the representation invariant;
    \<^verbatim>\<open>MapManagerSpec\<close> proves the report and \<open>isHotKey\<close> right against the history of calls; \<^verbatim>\<open>MapManagerReference\<close>
    compares the report with sorting the counts of the history; \<^verbatim>\<open>MapManagerPurge\<close> holds \<open>purge\<close>, the constructor
    and the size of the report; \<^verbatim>\<open>MapManagerBackup\<close> holds \<open>backupRequest\<close> and \<open>restoreRequest\<close> and their round
    trip; \<^verbatim>\<open>MapManagerMonitor\<close> the threads that call the manager, its mutex and its condition variable.
  \<^item> \<^verbatim>\<open>Message\<close>, \<^verbatim>\<open>MessageQueue\<close>: \<^verbatim>\<open>include/Message.h\<close>, \<^verbatim>\<open>src/ThreadedMessageQueue.cpp\<close>; the worker is a step
    function over the heap of messages. \<^verbatim>\<open>MessageQueueSpec\<close> has the contract of the lock-free queue and the
    invariant of the heap, \<^verbatim>\<open>MessageQueueProps\<close> the interleavings.
  \<^item> \<^verbatim>\<open>Timer\<close>: \<^verbatim>\<open>timer/timer.cpp\<close>, with its detached threads as a labelled step relation.
  \<^item> \<^verbatim>\<open>BackupManager\<close>: \<^verbatim>\<open>src/backupmanager.cpp\<close>.
  \<^item> \<^verbatim>\<open>MessageServer\<close>, \<^verbatim>\<open>MessageServerProps\<close>: \<^verbatim>\<open>src/messageserver.cpp\<close>, every target of \<open>onMessage\<close>.
  \<^item> \<^verbatim>\<open>HttpConnection\<close>, \<^verbatim>\<open>HttpProps\<close>: \<^verbatim>\<open>web/http-connection.cpp\<close>; \<^verbatim>\<open>WebServer\<close>, \<^verbatim>\<open>ListenerProps\<close>:
    \<^verbatim>\<open>web/webserver.cpp\<close> and \<^verbatim>\<open>web/listener.cpp\<close>, accepting and serving as a step relation. \<^verbatim>\<open>Sessions\<close> runs
    the connections on the listener's threads.
  \<^item> \<^verbatim>\<open>FullDisk\<close>: a backup on a disk that takes no more bytes.
  \<^item> \<^verbatim>\<open>Tracker\<close>: \<open>main\<close> of \<^verbatim>\<open>src/tracker.cpp\<close>. \<^verbatim>\<open>System\<close> is the running program, the connections of the listener's
    threads, the worker and the thread of the backup timer as one step relation over one state; \<^verbatim>\<open>Progress\<close> shows
    that it always answers. \<^verbatim>\<open>Shutdown\<close> is its end, from the signal to the exit code, with the joins of the handler, the
    main thread and the worker as steps.
  \<^item> \<^verbatim>\<open>TrackerSpec\<close>: the abstract machine of the tracker, which counts keys and says which reply each request may
    get, and what a forward simulation is; \<^verbatim>\<open>Refinement\<close> simulates the running program by it, with restores and backups; \<^verbatim>\<open>Replies\<close>
    follows the replies to the responses, and \<^verbatim>\<open>Lives\<close> the program over restarts on the disk it leaves.
  \<^item> \<^verbatim>\<open>Client\<close>: the two programs of \<^verbatim>\<open>src/client\<close>. \<^verbatim>\<open>ClientProps\<close> shows that the tracker finds the body of their
    messages, \<^verbatim>\<open>StressTest\<close> runs the threads of the stress test against the model of the tracker, and
    \<^verbatim>\<open>ClientMain\<close> has the two main functions.
  \<^item> \<^verbatim>\<open>TestMacros\<close>, \<^verbatim>\<open>TestProgram\<close>, \<^verbatim>\<open>TestThreads\<close>, \<^verbatim>\<open>TestMain\<close>: the unit tests of \<^verbatim>\<open>test/src\<close>: the expectations, the
    tests of the manager, the tests that start threads, and the program that runs them.

  \<^bold>\<open>What the lemmas show.\<close> The manager: an invariant that every operation keeps, the exact report, the exact
  answer of \<open>isHotKey\<close>, equality with a reference that sorts the history, the effect of \<open>purge\<close>, the round trip
  of backup and restore, what a restore makes of urls with a comma, and which readers and backups wait. The queue: exactly-once delivery in order for every
  interleaving, what \<open>stop\<close> abandons and what the destructor frees. The timer and the rotation of files: at most
  one running thread as long as \<open>stop\<close> is not called, exactly the calls already decided after it, generations moved up by one. The connection: equality
  with a reference that answers requests in order, when a body is found and when it is misread. The listener:
  one client at a time, so that every run equals serving the clients in turn, and when \<open>stop\<close> returns. The running
  program: after any interleaving every reported key is counted, every well-formed request can be answered, and
  what the timer saved is restored, also by a program started later; its replies are those of an abstract counter
  that knows no maps, queue, files or threads; after a signal no join
  deadlocks, but \<open>main\<close> may return before a client is done. Together: the million keys of the stress test are each counted once under every schedule of its threads.
  The faults that modelling showed: the port of a reported key goes to the wrong argument of the message, so that no
  reported port is ever stored (\<^verbatim>\<open>System\<close>); the url keeps the port, a restore splits it at its
  comma (\<^verbatim>\<open>MapManagerBackup\<close>), and one url with a comma that no number follows makes every
  later restore end the process (below). The unit tests: which of their
  expectations hold, for every sequence of random numbers, that no thread of theirs waits, and that a whole run loses
  no key.

  \<^bold>\<open>Parameters.\<close> \<^verbatim>\<open>boost::lockfree::queue\<close> is a record of operations with the laws of a queue (locale
  \<open>fifo_queue\<close>, shown to hold of a list); \<^verbatim>\<open>boost::filesystem\<close> is a record of operations with the laws of a POSIX
  rename and remove; \<^verbatim>\<open>boost::asio\<close> and \<^verbatim>\<open>boost::beast\<close> are events, arguments, or for the clients the record
  \<open>http_library\<close>, with what their documentation says of the text of a message; the network of the clients is a
  record of three operations, and the stress test runs on one that calls the model of the tracker. The disk and
  the system time are arguments; a device of the disk takes a limited number of bytes, and an output stream keeps what
  is written in a buffer of the disk's size until it is full or the stream is closed.

  \<^bold>\<open>Bounds and fuel.\<close> Loops are structural or have a measure. The worker takes at most three steps for a message,
  and one to see that the queue is empty, which is the number of steps its theorems ask for. A thread of the stress
  test ends within 5002 steps of its own (one to connect, one for each key, one to leave its loop), so a schedule
  that gives each thread as many lets all end. Frequencies are bounded by \<open>2 ^ 64 - 2\<close> where the theorems say so:
  the counter of the code wraps beyond.

  \<^bold>\<open>Not modelled.\<close> Text printed to the console and the clocks that time requests: no result depends on them. Reads
  of the sizes without the mutex (\<open>getTotalKeyNumber\<close> and its kin are functions of a state, not steps), which are
  data races in C++. In the stress test the network serves
  all connections at once, which includes the orders the listener allows, where one client waits for another.
  In the listener's own step relation a \<open>stop\<close> that waits is not resumed; \<^verbatim>\<open>Shutdown\<close> models it step by step. What a
  thread does with objects after \<open>main\<close> has returned is undefined and not modelled.
  The rest of the headers declares what the sources define.
\<close>

section \<open>Properties that span the components\<close>

text \<open>A backup of a manager with an entry that cannot be read back, and what a restore from it does to the server.\<close>

lemma restore_of_bad_entry:
  assumes ready: "backup_ready fs b kname fname ext dk" and inv: "rank_inv mgr"
    and lines: "\<forall>q \<in> set (m_pKeyMap mgr). one_line q"
    and bad: "\<exists>q \<in> set (m_pKeyMap mgr). reread (snd q) = Inl e" "\<forall>q \<in> set (m_pKeyMap mgr). \<forall>e'. reread (snd q) = Inl e' \<longrightarrow> e' = e"
    and sv: "sv_disk sv = snd (manager_backupRequest fs b mgr dk)" "m_pBackupManager sv = b"
  shows "\<exists>sv1. onMessage lf now ''restore'' d out sv = (Throws e, sv1)"
proof -
  obtain dk1 where dk1: "usable_disk (b_keyFilename b) (b_frequencyFilename b) dk1"
    "snd (manager_backupRequest fs b mgr dk) = snd (backupRequest (b_keyFilename b) (b_frequencyFilename b) dk1 mgr)"
    by (rule manager_backup_eq [OF ready, of mgr]) blast
  obtain dk' where dk': "backupRequest (b_keyFilename b) (b_frequencyFilename b) dk1 mgr = (Returns True, dk')"
    "\<forall>mm2. \<exists>mm'. restoreRequest (b_keyFilename b) (b_frequencyFilename b) dk' mm2 = (Throws e, mm')
      \<and> m_writingData mm' = 1"
    using backup_then_throw [OF inv dk1(1) lines bad] by blast
  then obtain mm' where mm': "restoreRequest (b_keyFilename b) (b_frequencyFilename b) dk' (manager_of sv) = (Throws e, mm')"
    by blast
  have "sv_disk sv = dk'" using sv(1) dk1(2) dk'(1) by simp
  then have "onMessage lf now ''restore'' d out sv = (Throws e, sv\<lparr>m_pMessageQueue := (m_pMessageQueue sv)\<lparr>consumer := mm'\<rparr>\<rparr>)"
    using sv(2) mm' by (simp add: onMessage_defs manager_restoreRequest_def)
  then show ?thesis by blast
qed

text \<open>A url whose text behind its first comma does not begin with a number.\<close>

lemma reread_no_number:
  assumes "FIELD_SEPARATOR \<notin> set u" "stoi t = Inl Invalid_argument"
  shows "reread \<lparr>kd_url = u @ FIELD_SEPARATOR # t, kd_port = p, kd_frequency = f\<rparr> = Inl Invalid_argument"
proof -
  have "takeWhile (\<lambda>c. c \<noteq> FIELD_SEPARATOR) (u @ FIELD_SEPARATOR # r) = u" for r
    using assms(1) by (auto simp: takeWhile_append takeWhile_eq_all_conv)
  moreover have "stoi (t @ FIELD_SEPARATOR # r) = Inl Invalid_argument" for r
    by (rule stoi_no_digits [OF assms(2)]) (simp_all add: FIELD_SEPARATOR_def is_digit_def is_space_def)
  ultimately show ?thesis by (simp add: reread_def Let_def)
qed

text \<open>An exception of the message server on a GET ends the process, whatever connection carries it.\<close>

lemma throwing_get_terminates:
  assumes "rq_method rq = Get" "rq_target rq = CHR ''/'' # t" "t \<noteq> []" "onMessage lf now t [] [] sv = (Throws e, sv1)"
  shows "fst (serve_on_pool (w_qListener (tracker_web lf now port threads)) index
    ((Read_request rq buffer, ec) # inputs) sv) = Terminates"
  using assms by (simp add: serve_on_pool_def serve_connection_def connection_run_def readRequest_def
      processRequest_def createGetResponse_def drop_slash_def tracker_web_functors HttpConnection_new_def Let_def)

text \<open>
  C21. One request is enough to make every restore fail: a \<open>keySent\<close> whose url holds a comma that no number
  follows is acknowledged and its url stored as it is; the next backup reports nothing, and \<open>restore\<close> on any server
  that reads it takes the text behind the comma for the port and ends with an exception that leaves
  \<open>onMessage\<close>: a client that asks for \<open>GET /restore\<close> ends the process.
\<close>

theorem comma_in_url_poisons_restore:
  assumes ready: "backup_ready fs b kname fname ext dk" and mgr: "savable (manager_of sv)"
    and few: "frequency_of (manager_of sv) key < 2 ^ 64 - 1"
    and key: "payloadDelimiter \<notin> set key" "newline \<notin> set key"
    and url: "payloadDelimiter \<notin> set u" "newline \<notin> set t" "stoi t = Inl Invalid_argument"
    and len: "length (key @ payloadDelimiter # u @ payloadDelimiter # t) < 2 ^ 64 - 1"
    and sv2: "m_pBackupManager sv2 = b"
    and rq: "rq_method rq = Get" "rq_target rq = ''/restore''"
  shows "\<exists>m. onMessage lf now ''keySent'' (key @ payloadDelimiter # u @ payloadDelimiter # t) out sv =
      (Returns (CMD_SUCCEEDED, ''reported key sent : '' @ key),
       sv\<lparr>m_pMessageQueue := queue_send lf m (m_pMessageQueue sv)\<rparr>)
    \<and> (let mgr = apply_message m (manager_of sv); dk' = snd (manager_backupRequest fs b mgr dk)
       in fst (onMessage lf now ''restore'' d out (sv2\<lparr>sv_disk := dk'\<rparr>)) = Throws Invalid_argument
         \<and> fst (serve_on_pool (w_qListener (tracker_web lf now port threads)) index
             ((Read_request rq buffer, ec) # inputs) (sv2\<lparr>sv_disk := dk'\<rparr>)) = Terminates)"
proof -
  let ?url = "u @ payloadDelimiter # t" and ?old = "manager_of sv"
  let ?m = "Message_strings cmd_addKey key ?url 0 (ucast (port_of ?url)) 0"
  let ?mgr = "apply_message ?m ?old"
  let ?d = "\<lparr>kd_url = ?url, kd_port = 0, kd_frequency = 1 + prev_order key ?old\<rparr>"
  have inv: "rank_inv ?old" using mgr by (simp add: savable_def)
  have comma: "payloadDelimiter = FIELD_SEPARATOR" by (simp add: payloadDelimiter_def FIELD_SEPARATOR_def)
  have add: "?mgr = addOrUpdateKey key ?url 0 ?old" by (simp add: apply_message_def)
  have km: "m_pKeyMap ?mgr = insert_or_assign key ?d (m_pKeyMap ?old)"
    unfolding add addOrUpdateKey_eq [OF rank_invD(1,4) [OF inv]] by simp
  have new: "(key, ?d) \<in> set (m_pKeyMap ?mgr)"
    unfolding km using map_of_insert_or_assign [OF rank_invD(1) [OF inv], of key ?d] by (intro map_of_SomeD) simp
  have bad: "reread (snd (key, ?d)) = Inl Invalid_argument"
    using reread_no_number url unfolding comma by simp
  have "dropWhile (\<lambda>c. c \<noteq> FIELD_SEPARATOR) ?url = FIELD_SEPARATOR # t"
    using url(1) unfolding comma by (auto simp: dropWhile_append dropWhile_eq_Nil_conv)
  then have line: "one_line (key, ?d)"
    using key url(2) unfolding comma by (simp add: one_line_def FIELD_SEPARATOR_def newline_def)
  have "one_line q \<and> reread (snd q) = Inr (snd q)" if "q \<in> set (m_pKeyMap ?old)" for q
    using mgr that storable_one_line [of q] by (auto simp: savable_def)
  then have all: "one_line q \<and> (\<forall>e. reread (snd q) = Inl e \<longrightarrow> e = Invalid_argument)" if "q \<in> set (m_pKeyMap ?mgr)" for q
    using that set_insert_or_assign [of key ?d "m_pKeyMap ?old"] line bad unfolding km by fastforce
  have "rank_inv ?mgr" unfolding add by (rule rank_inv_addOrUpdateKey [OF inv prev_order_below [OF few]])
  then have throws: "\<exists>sv3. onMessage lf now ''restore'' d out
        (sv2\<lparr>sv_disk := snd (manager_backupRequest fs b ?mgr dk)\<rparr>) = (Throws Invalid_argument, sv3)" for d out
    using sv2 all bexI [where P = "\<lambda>q. reread (snd q) = Inl Invalid_argument", OF bad new]
    by (intro restore_of_bad_entry [OF ready]) simp_all
  then have "fst (serve_on_pool (w_qListener (tracker_web lf now port threads)) index ((Read_request rq buffer, ec) # inputs)
      (sv2\<lparr>sv_disk := snd (manager_backupRequest fs b ?mgr dk)\<rparr>)) = Terminates"
    using throwing_get_terminates [where t = "''restore''", OF rq(1)] rq(2) by fastforce
  moreover have "fst (onMessage lf now ''restore'' d out
        (sv2\<lparr>sv_disk := snd (manager_backupRequest fs b ?mgr dk)\<rparr>)) = Throws Invalid_argument"
    using throws [of d out] by auto
  moreover have "onMessage lf now ''keySent'' (key @ payloadDelimiter # ?url) out sv =
      (Returns (CMD_SUCCEEDED, ''reported key sent : '' @ key),
       sv\<lparr>m_pMessageQueue := queue_send lf ?m (m_pMessageQueue sv)\<rparr>)"
    using split_payload_comma [OF key(1) len] by (simp add: onMessage_defs)
  ultimately show ?thesis by (intro exI [of _ ?m]) (simp only: Let_def simp_thms)
qed

lemma comma_in_url_poisons_restore_witness:
  "\<exists>m. onMessage list_lockfree 0 ''keySent'' (''k'' @ payloadDelimiter # ''host'' @ payloadDelimiter # ''port'') [] tracker_server =
      (Returns (CMD_SUCCEEDED, ''reported key sent : '' @ ''k''),
       tracker_server\<lparr>m_pMessageQueue := queue_send list_lockfree m (m_pMessageQueue tracker_server)\<rparr>)
    \<and> (let mgr = apply_message m (manager_of tracker_server);
           dk' = snd (manager_backupRequest disk_filesystem tracker_backup mgr (sv_disk tracker_server))
       in fst (onMessage list_lockfree 0 ''restore'' [] [] (tracker_server\<lparr>sv_disk := dk'\<rparr>)) = Throws Invalid_argument
         \<and> fst (serve_on_pool (w_qListener (tracker_web list_lockfree 0 8080 1)) None
             [(Read_request (get_request ''/restore'') [], False)] (tracker_server\<lparr>sv_disk := dk'\<rparr>)) = Terminates)"
proof -
  have mgr: "manager_of tracker_server = MapManager_new 10 20 0" by (simp add: tracker_server_def started_eq)
  have "b_keyFilename tracker_backup \<noteq> b_frequencyFilename tracker_backup"
    using names_ofD(3) [OF names_of_tracker, of 0 0] names_of_tracker by (simp add: names_of_def generation_def)
  then have ready: "backup_ready disk_filesystem tracker_backup ''keys'' ''frequencies'' ''csv'' (sv_disk tracker_server)"
    by (simp add: backup_ready_def posix_disk_filesystem names_of_tracker usable_disk_def tracker_server_def)
  show ?thesis
  proof (rule comma_in_url_poisons_restore [OF ready])
    show "stoi ''port'' = Inl Invalid_argument" by code_simp
    show "savable (manager_of tracker_server)" unfolding mgr by (simp add: savable_def rank_inv_new) (simp add: MapManager_new_def)
    show "frequency_of (manager_of tracker_server) ''k'' < 2 ^ 64 - 1" unfolding mgr by simp
    show "m_pBackupManager tracker_server = tracker_backup"
      by (simp_all add: tracker_server_def)
    show "rq_method (get_request ''/restore'') = Get" "rq_target (get_request ''/restore'') = ''/restore''"
      by (simp_all add: get_request_def)
  qed (simp_all add: payloadDelimiter_def newline_def)
qed

end
